(* ===== verification/Prelude.thy ===== *)
theory Prelude
  imports Main "HOL-Library.Word" "HOL-Library.Multiset"
begin

text \<open>
  Shared vocabulary of the development: Go's fixed-width signed integers as wrapped
  HOL integers, time stamps and durations in nanoseconds, the theorem collections the
  component proofs draw on, and the facts about lists that several components use.
\<close>

section \<open>Theorem collections\<close>

named_theorems inv_intros \<open>introduction rules for component invariants\<close>
named_theorems op_simps \<open>branch-by-branch behaviour of the modelled operations\<close>

section \<open>Machine integers, time\<close>

type_synonym nanos = int

text \<open>Go's conversions to \<open>int32\<close>, \<open>uint32\<close> and \<open>int64\<close>: keep the low bits.\<close>

definition int32 :: "int \<Rightarrow> int" where
"int32 x = (x + 2 ^ 31) mod 2 ^ 32 - 2 ^ 31"

definition uint32 :: "int \<Rightarrow> int" where
"uint32 x = x mod 2 ^ 32"

definition int64 :: "int \<Rightarrow> int" where
"int64 x = (x + 2 ^ 63) mod 2 ^ 64 - 2 ^ 63"

definition max_int32 :: int where
"max_int32 = 2 ^ 31 - 1"

definition second :: nanos where
"second = 1000000000"

definition millisecond :: nanos where
"millisecond = 1000000"

definition minute :: nanos where
"minute = 60 * second"

text \<open>The zero \<open>time.Time\<close>: January 1 of year 1, in nanoseconds from the Unix epoch.\<close>

definition zero_time :: nanos where
"zero_time = - 62135596800 * second"

text \<open>\<open>time.Time.Sub\<close> saturates at the ends of the \<open>Duration\<close> range.\<close>

definition time_sub :: "nanos \<Rightarrow> nanos \<Rightarrow> nanos" where
"time_sub a b = max (- (2 ^ 63)) (min (2 ^ 63 - 1) (a - b))"

section \<open>Lists\<close>

text \<open>The last \<open>n\<close> elements of a list.\<close>

definition take_last :: "nat \<Rightarrow> 'a list \<Rightarrow> 'a list" where
"take_last n xs = drop (length xs - n) xs"

text \<open>The value of a Go map at a key, with the zero value for an absent key.\<close>

definition the_default :: "'a \<Rightarrow> 'a option \<Rightarrow> 'a" where
"the_default d x = (case x of None \<Rightarrow> d | Some v \<Rightarrow> v)"

lemma the_default_simps [simp]: "the_default d None = d" "the_default d (Some v) = v"
  by (simp_all add: the_default_def)

text \<open>Running a partial operation over a list of arguments, stopping at a panic.\<close>

fun run_all :: "('a \<Rightarrow> 's \<Rightarrow> 's option) \<Rightarrow> 'a list \<Rightarrow> 's \<Rightarrow> 's option" where
"run_all f [] s = Some s" |
"run_all f (x # xs) s = (case f x s of None \<Rightarrow> None | Some s' \<Rightarrow> run_all f xs s')"

lemma length_take_last [simp]: "length (take_last n xs) = min n (length xs)"
  by (simp add: take_last_def)

lemma take_last_all [simp]: "length xs \<le> n \<Longrightarrow> take_last n xs = xs"
  by (simp add: take_last_def)

lemma take_last_append_take_last:
  "take_last n (take_last n xs @ ys) = take_last n (xs @ ys)"
proof (cases "length xs \<le> n")
  case False
  then have "take_last n (take_last n xs @ ys) = drop (length ys) (take_last n xs @ ys)"
    by (simp add: take_last_def)
  also have "\<dots> = drop (length ys + (length xs - n)) (xs @ ys)"
    using False by (simp add: take_last_def add.commute [of "length ys" "length xs"])
  also have "length ys + (length xs - n) = length (xs @ ys) - n"
    using False by simp
  finally show ?thesis
    by (simp only: take_last_def)
qed simp

lemma set_take_last: "set (take_last n xs) \<subseteq> set xs"
  by (simp add: take_last_def set_drop_subset)

lemma run_all_append:
  "run_all f (xs @ ys) s = (case run_all f xs s of None \<Rightarrow> None | Some s' \<Rightarrow> run_all f ys s')"
  by (induction xs arbitrary: s) (auto split: option.splits)

lemma run_all_invariant:
  assumes step: "\<And>x s s'. P s \<Longrightarrow> f x s = Some s' \<Longrightarrow> P s'"
  shows "P s \<Longrightarrow> run_all f xs s = Some s' \<Longrightarrow> P s'"
  by (induction xs arbitrary: s) (auto split: option.splits dest: step)

lemma set_last_butlast: "xs \<noteq> [] \<Longrightarrow> set xs = insert (last xs) (set (butlast xs))"
  by (induction xs) auto

lemma sorted_last: "sorted xs \<Longrightarrow> x \<in> set xs \<Longrightarrow> x \<le> last xs"
  by (induction xs) auto

section \<open>Machine integer facts\<close>

lemma int32_id [simp]: "- (2 ^ 31) \<le> x \<Longrightarrow> x < 2 ^ 31 \<Longrightarrow> int32 x = x"
  by (simp add: int32_def)

lemma int32_bounds: "- (2 ^ 31) \<le> int32 x \<and> int32 x < 2 ^ 31"
  unfolding int32_def using pos_mod_bound [of "2 ^ 32" "x + 2 ^ 31"] pos_mod_sign [of "2 ^ 32" "x + 2 ^ 31"]
  by simp

lemma int64_id [simp]: "- (2 ^ 63) \<le> x \<Longrightarrow> x < 2 ^ 63 \<Longrightarrow> int64 x = x"
  by (simp add: int64_def)

lemma time_sub_exact [simp]: "- (2 ^ 63) \<le> a - b \<Longrightarrow> a - b < 2 ^ 63 \<Longrightarrow> time_sub a b = a - b"
  by (simp add: time_sub_def)

lemma time_sub_mono: "a \<le> a' \<Longrightarrow> b' \<le> b \<Longrightarrow> time_sub a b \<le> time_sub a' b'"
  by (simp add: time_sub_def)

end
