(* ===== verification/Queue.thy ===== *)
theory Queue
  imports Prelude
begin

text \<open>
  \<open>pkg/shared/queue/overflow_queue.go\<close>: the bounded queue that keeps the most recent
  elements.  Every method takes the lock for its whole body, so each is one atomic
  operation on the record below.  A Go panic (slicing an empty slice) is \<open>None\<close>.
\<close>

section \<open>The queue\<close>

record 'a OverflowQueue =
  elements :: "'a list"
  maxSize :: int

definition New :: "int \<Rightarrow> 'a OverflowQueue" where
"New n = \<lparr>elements = [], maxSize = n\<rparr>"

definition Append :: "'a \<Rightarrow> 'a OverflowQueue \<Rightarrow> 'a OverflowQueue option" where
"Append value q =
   (if int (length (elements q)) \<ge> maxSize q
    then (case elements q of
            [] \<Rightarrow> None
          | _ # rest \<Rightarrow> Some (q\<lparr>elements := rest @ [value]\<rparr>))
    else Some (q\<lparr>elements := elements q @ [value]\<rparr>))"

definition Items :: "'a OverflowQueue \<Rightarrow> 'a list" where
"Items q = elements q"

fun reverse :: "'a list \<Rightarrow> 'a list" where
"reverse [] = []" |
"reverse (x # xs) = reverse xs @ [x]"

definition ReversedItems :: "'a OverflowQueue \<Rightarrow> 'a list" where
"ReversedItems q = reverse (Items q)"

definition Length :: "'a OverflowQueue \<Rightarrow> int" where
"Length q = int (length (elements q))"

text \<open>\<open>String\<close> prints with \<open>%v\<close>; the printer of an element is an argument.\<close>

definition String_of :: "('a \<Rightarrow> string) \<Rightarrow> 'a OverflowQueue \<Rightarrow> string" where
"String_of fmt q = ''['' @ concat (map (\<lambda>e. fmt e @ '','') (Items q)) @ '']''"

section \<open>The contract: the most recent elements\<close>

text \<open>
  What clients rely on: a queue with room for at least one element never panics and holds
  exactly the last \<open>cap\<close> values given to it, oldest first.
\<close>

locale recent_values =
  fixes cap :: "'q \<Rightarrow> nat"
    and app :: "'a \<Rightarrow> 'q \<Rightarrow> 'q option"
    and held :: "'q \<Rightarrow> 'a list"
    and ok :: "'q \<Rightarrow> bool"
  assumes held_bound: "ok q \<Longrightarrow> length (held q) \<le> cap q"
    and app_law: "ok q \<Longrightarrow> \<exists>q'. app v q = Some q' \<and> ok q' \<and> cap q' = cap q \<and>
                    held q' = take_last (cap q) (held q @ [v])"
begin

lemma run_all_held:
  assumes "ok q"
  shows "\<exists>q'. run_all app vs q = Some q' \<and> ok q' \<and> cap q' = cap q \<and>
              held q' = take_last (cap q) (held q @ vs)"
  using assms
proof (induction vs arbitrary: q)
  case Nil
  then show ?case
    by (simp add: held_bound)
next
  case (Cons v vs)
  obtain q1 where q1: "app v q = Some q1" "ok q1" "cap q1 = cap q"
      "held q1 = take_last (cap q) (held q @ [v])"
    using app_law [OF Cons.prems] by blast
  have "take_last (cap q) (held q1 @ vs) = take_last (cap q) (held q @ v # vs)"
    using take_last_append_take_last [of "cap q" "held q @ [v]" vs] q1 by simp
  then show ?case
    using Cons.IH [OF q1(2)] q1 by auto
qed

end

definition queue_ok :: "'a OverflowQueue \<Rightarrow> bool" where
"queue_ok q \<longleftrightarrow> 0 < maxSize q \<and> int (length (elements q)) \<le> maxSize q"

definition queue_cap :: "'a OverflowQueue \<Rightarrow> nat" where
"queue_cap q = nat (maxSize q)"

lemma Append_law:
  assumes "queue_ok q"
  shows "\<exists>q'. Append v q = Some q' \<and> queue_ok q' \<and> queue_cap q' = queue_cap q \<and>
              Items q' = take_last (queue_cap q) (Items q @ [v])"
proof (cases "int (length (elements q)) \<ge> maxSize q")
  case True
  with assms obtain x rest where "elements q = x # rest" "maxSize q = int (length rest) + 1"
    by (cases "elements q") (auto simp: queue_ok_def)
  then show ?thesis
    by (auto simp: Append_def queue_ok_def queue_cap_def Items_def take_last_def nat_add_distrib)
next
  case False
  with assms show ?thesis
    by (auto simp: Append_def queue_ok_def queue_cap_def Items_def nat_le_iff le_nat_iff)
qed

interpretation oq: recent_values queue_cap Append Items queue_ok
  by (unfold_locales, simp add: queue_ok_def queue_cap_def Items_def le_nat_iff, rule Append_law)

lemma New_ok: "0 < n \<Longrightarrow> queue_ok (New n)"
  by (simp add: New_def queue_ok_def)

lemma reverse_rev [simp]: "reverse xs = rev xs"
  by (induction xs) auto

section \<open>Properties\<close>

text \<open>C6: a queue created with a positive size accepts every sequence of appends without
  panicking, and then lists exactly the most recent \<open>n\<close> of them, oldest first
  (newest first through \<open>ReversedItems\<close>).\<close>

theorem queue_keeps_most_recent:
  assumes "0 < n"
  shows "\<exists>q. run_all Append vs (New n) = Some q \<and>
             Items q = take_last (nat n) vs \<and>
             ReversedItems q = rev (take_last (nat n) vs) \<and>
             Length q = min n (int (length vs))"
proof -
  obtain q where "run_all Append vs (New n) = Some q" "Items q = take_last (nat n) vs"
    using oq.run_all_held [OF New_ok [OF assms], of vs] by (auto simp: queue_cap_def New_def Items_def)
  then show ?thesis
    using assms by (auto simp: ReversedItems_def Length_def Items_def)
qed

theorem queue_keeps_most_recent_witness:
  "\<exists>q. run_all Append [1, 2, 3 :: int] (New 2) = Some q \<and> Items q = [2, 3] \<and> Length q = 2"
  using queue_keeps_most_recent [of 2 "[1, 2, 3 :: int]"] by (auto simp: take_last_def)

end
