(* ===== verification/Float64_Rounding.thy ===== *)
theory Float64_Rounding
  imports Float64
begin

text \<open>
  The meaning of the binary64 operations over the reals.  \<open>rmag\<close> is rounding of a real
  magnitude to magnitude bits; it is monotone and exact on representable magnitudes, and
  the integer routine \<open>round_mag\<close> computes it.  From this follow the order and sign laws
  the client theories use.
\<close>

section \<open>Rounding reals\<close>

definition rne :: "real \<Rightarrow> int" where
"rne x = (let q = \<lfloor>x\<rfloor>; r = x - of_int q in
          if 2 * r < 1 then q else if 2 * r > 1 then q + 1 else if even q then q else q + 1)"

definition rexp :: "real \<Rightarrow> int" where
"rexp v = max (- 1074) (\<lfloor>log 2 v\<rfloor> - 52)"

definition rmag :: "real \<Rightarrow> int" where
"rmag v = (if v \<le> 0 then 0 else min (rne (v * 2 powr - rexp v) + (rexp v + 1074) * 2 ^ 52) inf_mag)"

text \<open>The real magnitude that magnitude bits stand for.\<close>

definition mval :: "int \<Rightarrow> real" where
"mval b = (let x = b div (2 ^ 52 :: int); r = b mod (2 ^ 52 :: int) in
           of_int (if x = 0 then r else 2 ^ 52 + r) * 2 powr of_int (max 1 x - 1075))"

definition fval :: "f64 \<Rightarrow> real" where
"fval f = (if fneg_bit f then - mval (fmag f) else mval (fmag f))"

lemma rne_bounds: "\<lfloor>x\<rfloor> \<le> rne x" "rne x \<le> \<lfloor>x\<rfloor> + 1"
  by (simp_all add: rne_def Let_def)

lemma rne_int [simp]: "rne (of_int n) = n"
  by (simp add: rne_def)

lemma rne_mono: "x \<le> y \<Longrightarrow> rne x \<le> rne y"
proof (cases "\<lfloor>x\<rfloor> = \<lfloor>y\<rfloor>")
  case True
  then show "x \<le> y \<Longrightarrow> ?thesis"
    by (auto simp: rne_def Let_def)
next
  case False
  then show "x \<le> y \<Longrightarrow> ?thesis"
    using rne_bounds(2) [of x] rne_bounds(1) [of y] floor_mono [of x y] by linarith
qed

lemma rne_le_int: "x \<le> of_int n \<Longrightarrow> rne x \<le> n"
  using rne_mono [of x "of_int n"] by simp

lemma rne_ge_int: "of_int n \<le> x \<Longrightarrow> n \<le> rne x"
  using rne_mono [of "of_int n" x] by simp

lemma re_upper: "0 < v \<Longrightarrow> v * 2 powr - rexp v < 2 ^ 53"
proof -
  assume "0 < v"
  then have "log 2 v < rexp v + 53"
    by (simp add: rexp_def) linarith
  then have "v < 2 powr (rexp v + 53)"
    using \<open>0 < v\<close> by (simp add: log_less_iff)
  then have "v * 2 powr - rexp v < 2 powr (rexp v + 53) * 2 powr - rexp v"
    by simp
  then show ?thesis
    by (simp add: powr_add [symmetric] powr_numeral)
qed

lemma re_lower: "0 < v \<Longrightarrow> - 1074 < rexp v \<Longrightarrow> 2 ^ 52 \<le> v * 2 powr - rexp v"
proof -
  assume v: "0 < v" and r: "- 1074 < rexp v"
  then have "rexp v + 52 \<le> log 2 v"
    by (simp add: rexp_def split: if_splits)
  then have "2 powr (rexp v + 52) \<le> v"
    using v by (simp add: le_log_iff)
  then have "2 powr (rexp v + 52) * 2 powr - rexp v \<le> v * 2 powr - rexp v"
    by simp
  then show ?thesis
    by (simp add: powr_add [symmetric] powr_numeral)
qed

lemma re_mono: "0 < v \<Longrightarrow> v \<le> w \<Longrightarrow> rexp v \<le> rexp w"
  by (simp add: rexp_def floor_mono max.coboundedI2)

lemma rm_nonneg: "0 \<le> rmag v"
proof (cases "v \<le> 0")
  case False
  have "0 \<le> rne (v * 2 powr - rexp v)"
    using False by (intro rne_ge_int) simp
  moreover have "0 \<le> (rexp v + 1074) * 2 ^ 52"
    by (rule mult_nonneg_nonneg) (simp_all add: rexp_def)
  ultimately show ?thesis
    using False by (simp add: rmag_def inf_mag_def)
qed (simp add: rmag_def)

lemma rm_le_inf: "rmag v \<le> inf_mag"
  by (simp add: rmag_def inf_mag_def)

lemma rm_mono_pos:
  assumes "0 < v" "v \<le> w"
  shows "rne (v * 2 powr - rexp v) + (rexp v + 1074) * 2 ^ 52 \<le> rne (w * 2 powr - rexp w) + (rexp w + 1074) * 2 ^ 52"
proof (cases "rexp v = rexp w")
  case True
  then show ?thesis
    using assms by (simp add: rne_mono)
next
  case False
  then have less: "rexp v + 1 \<le> rexp w"
    using re_mono [OF assms] by simp
  have "rne (v * 2 powr - rexp v) \<le> 2 ^ 53"
    using re_upper [OF assms(1)] by (intro rne_le_int) simp
  moreover have "2 ^ 52 \<le> rne (w * 2 powr - rexp w)"
    using assms less by (intro rne_ge_int) (use re_lower [of w] in \<open>simp add: rexp_def\<close>)
  moreover have "(rexp v + 1 + 1074) * 2 ^ 52 \<le> (rexp w + 1074) * 2 ^ 52"
    using less by simp
  ultimately show ?thesis
    by (simp add: algebra_simps)
qed

lemma rm_mono: "v \<le> w \<Longrightarrow> rmag v \<le> rmag w"
  using rm_mono_pos [of v w] rm_nonneg [of w] by (auto simp: rmag_def min_def)

lemma rm_0 [simp]: "rmag 0 = 0"
  by (simp add: rmag_def)

lemma mval_eq:
  assumes "0 \<le> b"
  shows "b < 2 ^ 52 \<Longrightarrow> mval b = b * 2 powr - 1074"
    and "2 ^ 52 \<le> b \<Longrightarrow> mval b = of_int (2 ^ 52 + b mod 2 ^ 52) * 2 powr of_int (b div 2 ^ 52 - 1075)"
proof -
  show "b < 2 ^ 52 \<Longrightarrow> mval b = b * 2 powr - 1074"
    using assms by (simp add: mval_def)
  assume "2 ^ 52 \<le> b"
  then have "1 \<le> b div 2 ^ 52"
    using zdiv_mono1 [of "2 ^ 52" b "2 ^ 52"] by simp
  then show "mval b = of_int (2 ^ 52 + b mod 2 ^ 52) * 2 powr of_int (b div 2 ^ 52 - 1075)"
    by (simp add: mval_def Let_def max_def)
qed

lemma two_powr_add:
  "(2 :: real) powr (y + 52) = 2 ^ 52 * 2 powr y" "(2 :: real) powr (y + 53) = 2 ^ 53 * 2 powr y"
  by (simp_all add: powr_add powr_numeral)

lemma re_eqI: "2 powr (of_int e + 52) \<le> v \<Longrightarrow> v < 2 powr (of_int e + 53) \<Longrightarrow> - 1074 \<le> e \<Longrightarrow> rexp v = e"
proof -
  assume a: "2 powr (of_int e + 52) \<le> v" "v < 2 powr (of_int e + 53)" "- 1074 \<le> e"
  have v: "0 < v"
    using a(1) by (rule less_le_trans [rotated]) simp
  have "\<lfloor>log 2 v\<rfloor> = e + 52"
    using a v by (intro floor_unique) (simp_all add: le_log_iff log_less_iff add.commute)
  then show ?thesis
    using a by (simp add: rexp_def)
qed

lemma re_subI: "0 < v \<Longrightarrow> v < 2 powr - 1022 \<Longrightarrow> rexp v = - 1074"
proof -
  assume a: "0 < v" "v < 2 powr - 1022"
  then have "log 2 v < - 1022"
    by (simp add: log_less_iff)
  then have "\<lfloor>log 2 v\<rfloor> - 52 \<le> - 1074"
    by linarith
  then show ?thesis
    unfolding rexp_def by (rule max_absorb1)
qed

lemma rm_mval: "0 \<le> b \<Longrightarrow> b < inf_mag \<Longrightarrow> rmag (mval b) = b"
proof -
  assume b: "0 \<le> b" "b < inf_mag"
  consider "b = 0" | "0 < b" "b < 2 ^ 52" | "2 ^ 52 \<le> b" using b by linarith
  then show ?thesis
  proof cases
    case 1
    then show ?thesis by (simp add: mval_def)
  next
    case 2
    have "real_of_int b < 2 powr 52"
      using 2 by (simp add: powr_numeral)
    then have "real_of_int b * 2 powr - 1074 < 2 powr 52 * 2 powr - 1074"
      by (intro mult_strict_right_mono) simp_all
    also have "\<dots> = 2 powr - 1022"
      by (simp only: powr_add [symmetric]) simp
    finally have "real_of_int b * 2 powr - 1074 < 2 powr - 1022" .
    moreover have mv: "mval b = of_int b * 2 powr - 1074"
      using mval_eq(1) b(1) 2 by simp
    ultimately have e: "rexp (mval b) = - 1074"
      using 2 by (intro re_subI) simp_all
    have "mval b * 2 powr - rexp (mval b) = of_int b"
      unfolding e unfolding mv by (simp only: mult.assoc powr_add [symmetric]) simp
    then have "rne (mval b * 2 powr - rexp (mval b)) = b"
      by (simp only: rne_int)
    moreover have "0 < mval b"
      using 2 by (simp add: mv)
    ultimately show ?thesis
      using b by (simp only: rmag_def) (simp add: e)
  next
    case 3
    define r x where "r = b mod 2 ^ 52" and "x = b div 2 ^ 52"
    have bx: "b = x * 2 ^ 52 + r" and r: "0 \<le> r" "r < 2 ^ 52"
      by (simp_all add: r_def x_def)
    have x: "1 \<le> x"
      using zdiv_mono1 [OF 3, of "2 ^ 52"] by (simp add: x_def)
    have v: "mval b = of_int (2 ^ 52 + r) * 2 powr of_int (x - 1075)"
      using mval_eq(2) [OF b(1) 3] by (simp add: r_def x_def)
    have "2 ^ 52 \<le> real_of_int (2 ^ 52 + r)" "real_of_int (2 ^ 52 + r) < 2 ^ 53"
      using r by simp_all
    then have e: "rexp (mval b) = x - 1075"
      unfolding v using x by (intro re_eqI) (simp_all only: two_powr_add, simp_all)
    have pos: "0 < mval b"
      unfolding v using r by simp
    have "mval b * 2 powr - rexp (mval b) = of_int (2 ^ 52 + r)"
      unfolding e unfolding v by (simp only: mult.assoc powr_add [symmetric]) simp
    then have "rne (mval b * 2 powr - rexp (mval b)) = 2 ^ 52 + r"
      by (simp only: rne_int)
    then show ?thesis
      using pos b unfolding rmag_def e by (simp add: bx algebra_simps)
  qed
qed

section \<open>The integer routine computes the rounding\<close>

lemma round_div_rne:
  assumes "0 < d"
  shows "round_div n d = rne (of_int n / of_int d)"
proof -
  have "real_of_int n = of_int d * of_int (n div d) + of_int (n mod d)"
    by (metis mult_div_mod_eq of_int_add of_int_mult)
  then have r: "real_of_int n / of_int d - of_int (n div d) = of_int (n mod d) / of_int d"
    using assms by (simp add: field_simps)
  have "2 * (real_of_int (n mod d) / of_int d) < 1 \<longleftrightarrow> of_int (2 * (n mod d)) < real_of_int d"
       "2 * (real_of_int (n mod d) / of_int d) > 1 \<longleftrightarrow> of_int (2 * (n mod d)) > real_of_int d"
    using assms by (simp_all add: divide_less_eq less_divide_eq)
  then show ?thesis
    unfolding rne_def Let_def floor_divide_of_int_eq r round_div_def by (simp only: of_int_less_iff)
qed

lemma bitlen_powr:
  assumes "0 < n"
  shows "2 powr (real_of_int (bitlen n) - 1) \<le> real_of_int n" and "real_of_int n < 2 powr real_of_int (bitlen n)"
proof -
  have b: "0 < bitlen n"
    using bitlen_bounds [OF assms] assms by (cases "0 < bitlen n") auto
  have "2 powr real_of_int (bitlen n) = real_of_int (2 ^ nat (bitlen n))"
    using b by (simp add: powr_realpow [symmetric])
  then show "real_of_int n < 2 powr real_of_int (bitlen n)"
    using bitlen_bounds [OF assms] by (simp only: of_int_less_iff)
  have "2 powr (real_of_int (bitlen n) - 1) = real_of_int (2 ^ nat (bitlen n - 1))"
    using b by (simp add: powr_realpow [symmetric])
  then show "2 powr (real_of_int (bitlen n) - 1) \<le> real_of_int n"
    using bitlen_bounds [OF assms] by (simp only: of_int_le_iff)
qed

lemma big_iff:
  "(if b \<ge> 0 then n \<ge> d * 2 ^ nat b else n * 2 ^ nat (- b) \<ge> d) \<longleftrightarrow>
   of_int d * 2 powr of_int b \<le> real_of_int n"
proof (cases "b \<ge> 0")
  case True
  then have "of_int d * 2 powr of_int b = real_of_int (d * 2 ^ nat b)"
    by (simp add: powr_realpow [symmetric])
  then show ?thesis
    using True by (simp only: of_int_le_iff) simp
next
  case False
  have "of_int d * 2 powr of_int b \<le> real_of_int n \<longleftrightarrow> of_int d \<le> real_of_int n * 2 powr - of_int b"
    by (simp add: powr_minus field_simps)
  also have "real_of_int n * 2 powr - of_int b = real_of_int (n * 2 ^ nat (- b))"
    using False by (simp add: powr_realpow [symmetric])
  finally show ?thesis
    using False by (simp only: of_int_le_iff) simp
qed

lemma round_exp_re:
  assumes "0 < n" "0 < d"
  shows "round_exp n d k = rexp (of_int n / of_int d * 2 powr of_int k)"
proof -
  define b where "b = bitlen n - bitlen d"
  define q where "q = real_of_int n / of_int d"
  have q: "0 < q"
    using assms by (simp add: q_def)
  have up: "q < 2 powr (of_int b + 1)"
  proof -
    have "real_of_int n < 2 powr (of_int b + 1) * 2 powr (of_int (bitlen d) - 1)"
      using bitlen_powr(2) [OF assms(1)] by (simp add: powr_add [symmetric] b_def)
    also have "\<dots> \<le> 2 powr (of_int b + 1) * of_int d"
      using bitlen_powr(1) [OF assms(2)] by simp
    finally show ?thesis
      using assms by (simp add: q_def divide_less_eq)
  qed
  have low: "2 powr (of_int b - 1) \<le> q"
  proof -
    have "2 powr (of_int b - 1) * real_of_int d \<le> 2 powr (of_int b - 1) * 2 powr of_int (bitlen d)"
      using bitlen_powr(2) [OF assms(2)] by simp
    also have "\<dots> \<le> of_int n"
      using bitlen_powr(1) [OF assms(1)] by (simp add: powr_add [symmetric] b_def)
    finally show ?thesis
      using assms by (simp add: q_def le_divide_eq)
  qed
  have mid: "of_int d * 2 powr of_int b \<le> real_of_int n \<longleftrightarrow> 2 powr of_int b \<le> q"
    using assms by (simp add: q_def le_divide_eq mult.commute)
  have "\<lfloor>log 2 q\<rfloor> = b - (if 2 powr of_int b \<le> q then 0 else 1)"
    using up low q by (auto intro!: floor_unique simp: le_log_iff log_less_iff add.commute)
  then have "\<lfloor>log 2 (q * 2 powr of_int k)\<rfloor> = b + k - (if 2 powr of_int b \<le> q then 0 else 1)"
    using q by (simp add: log_mult)
  then show ?thesis
    unfolding round_exp_def Let_def b_def [symmetric] big_iff rexp_def mid q_def [symmetric] by simp
qed

lemma round_mag_rm:
  assumes "0 \<le> n" "0 < d"
  shows "round_mag n d k = rmag (of_int n / of_int d * 2 powr of_int k)"
proof (cases "n = 0")
  case False
  define v where "v = real_of_int n / of_int d * 2 powr of_int k"
  define E where "E = rexp v"
  have v: "0 < v"
    using assms False by (simp add: v_def)
  have e: "round_exp n d k = E"
    using round_exp_re assms False by (simp add: v_def E_def)
  have "(if k - E \<ge> 0 then round_div (n * 2 ^ nat (k - E)) d
         else round_div n (d * 2 ^ nat (- (k - E)))) = rne (v * 2 powr - E)"
  proof (cases "k - E \<ge> 0")
    case True
    then have "(2 :: real) ^ nat (k - E) = 2 powr of_int (k - E)"
      by (simp add: powr_realpow [symmetric])
    then have "of_int (n * 2 ^ nat (k - E)) / of_int d = v * 2 powr - E"
      by (simp add: v_def powr_diff powr_minus divide_inverse)
    then show ?thesis
      using True assms by (simp add: round_div_rne)
  next
    case False
    then have "(2 :: real) ^ nat (- (k - E)) = 2 powr of_int (- (k - E))"
      by (simp add: powr_realpow [symmetric])
    then have "of_int n / of_int (d * 2 ^ nat (- (k - E))) = v * 2 powr - E"
      by (simp add: v_def powr_diff powr_minus divide_inverse)
    then show ?thesis
      using False assms by (simp add: round_div_rne)
  qed
  then show ?thesis
    using False v unfolding round_mag_def Let_def e rmag_def v_def [symmetric] E_def [symmetric] by simp
qed (simp add: round_mag_def)

section \<open>Operations on finite values\<close>

definition srnd :: "real \<Rightarrow> int" where
"srnd v = (if v < 0 then - rmag (- v) else rmag v)"

lemma srnd_mono: "v \<le> w \<Longrightarrow> srnd v \<le> srnd w"
  using rm_mono [of "- w" "- v"] rm_mono [of v w] rm_nonneg [of w] rm_nonneg [of "- v"]
  by (auto simp: srnd_def)

lemma fmag_range: "0 \<le> fmag f" "fmag f < 2 ^ 63"
  by (simp_all add: fmag_def)

lemma mk_f64_fields:
  assumes "0 \<le> m" "m < 2 ^ 63"
  shows "fmag (mk_f64 neg m) = m" and "fneg_bit (mk_f64 neg m) = neg"
proof -
  have u: "uint (fbits (mk_f64 neg m)) = m + (if neg then 2 ^ 63 else 0)"
    using assms unfolding mk_f64_def f64.sel uint_word_of_int by (intro mod_pos_pos_trivial) auto
  show "fmag (mk_f64 neg m) = m"
    unfolding fmag_def u using assms by simp
  show "fneg_bit (mk_f64 neg m) = neg"
    unfolding fneg_bit_def u using assms by simp
qed

lemma inf_mag_range: "0 < inf_mag" "inf_mag < 2 ^ 63"
  by (simp_all add: inf_mag_def)

lemma mk_f64_rm [simp]: "fmag (mk_f64 neg (rmag v)) = rmag v" "fneg_bit (mk_f64 neg (rmag v)) = neg"
  using mk_f64_fields [of "rmag v" neg] rm_nonneg [of v] rm_le_inf [of v] inf_mag_range by simp_all

lemma fval_man_exp:
  "fval f = (if fneg_bit f then -1 else 1) * of_int (fman f) * 2 powr of_int (fexp f)"
  by (simp add: fval_def mval_def fman_def fexp_def Let_def)

lemma fman_nonneg: "0 \<le> fman f"
  using fmag_range(1) [of f] by (simp add: fman_def Let_def)

lemma srnd_fval: "is_fin f \<Longrightarrow> srnd (fval f) = fkey f"
proof -
  assume f: "is_fin f"
  have rmag: "rmag (mval (fmag f)) = fmag f"
    using f fmag_range by (simp add: rm_mval is_fin_def)
  have "0 \<le> mval (fmag f)"
    using fmag_range(1) [of f] by (simp add: mval_def Let_def)
  then show ?thesis
    using rmag by (auto simp: srnd_def fval_def fkey_def)
qed

lemma fval_key: "fval f = (if fkey f < 0 then - mval (- fkey f) else mval (fkey f))"
  using fmag_range(1) [of f] by (auto simp: fval_def fkey_def mval_def)

lemma fval_le_iff:
  assumes "is_fin f" "is_fin g"
  shows "fval f \<le> fval g \<longleftrightarrow> fkey f \<le> fkey g"
proof
  assume "fval f \<le> fval g"
  then show "fkey f \<le> fkey g"
    using srnd_mono [of "fval f" "fval g"] assms by (simp add: srnd_fval)
next
  assume le: "fkey f \<le> fkey g"
  show "fval f \<le> fval g"
  proof (rule ccontr)
    assume nle: "\<not> fval f \<le> fval g"
    then have "fkey g = fkey f"
      using srnd_mono [of "fval g" "fval f"] assms le by (simp add: srnd_fval)
    then have "fval g = fval f"
      by (simp only: fval_key)
    then show False
      using nle by simp
  qed
qed

lemma fval_less_iff: "is_fin f \<Longrightarrow> is_fin g \<Longrightarrow> fval f < fval g \<longleftrightarrow> fkey f < fkey g"
  using fval_le_iff [of g f] by (simp add: not_le [symmetric])

lemma mk_f64_key: "fkey (mk_f64 neg (rmag v)) = (if neg then - rmag v else rmag v)"
  by (simp add: fkey_def)

lemma mk_f64_rm_not_nan [simp]: "\<not> is_nan (mk_f64 neg (rmag v))"
  using rm_le_inf [of v] by (simp add: is_nan_def)

lemma mk_f64_0 [simp]: "fmag (mk_f64 neg 0) = 0" "fneg_bit (mk_f64 neg 0) = neg" "\<not> is_nan (mk_f64 neg 0)"
    "fkey (mk_f64 neg 0) = 0"
  using inf_mag_range by (simp_all add: is_nan_def fkey_def mk_f64_fields)

lemma fval_mk_f64_0 [simp]: "fval (mk_f64 neg 0) = 0"
  by (simp add: fval_def mval_def)

lemma is_fin_not: "is_fin f \<Longrightarrow> \<not> is_nan f" "is_fin f \<Longrightarrow> \<not> is_inf f"
  by (simp_all add: is_fin_def is_nan_def is_inf_def)

lemma fneg_fields [simp]: "fmag (fneg f) = fmag f" "fneg_bit (fneg f) = (\<not> fneg_bit f)"
  using mk_f64_fields fmag_range by (simp_all add: fneg_def)

lemma fneg_facts [simp]:
  "is_nan (fneg f) = is_nan f" "is_fin (fneg f) = is_fin f" "is_inf (fneg f) = is_inf f"
  "fkey (fneg f) = - fkey f" "fval (fneg f) = - fval f"
  by (simp_all add: is_nan_def is_fin_def is_inf_def fkey_def fval_def)

lemma fadd_fin:
  assumes "is_fin a" "is_fin b"
  shows "fkey (fadd a b) = srnd (fval a + fval b)" and "\<not> is_nan (fadd a b)"
proof -
  define e where "e = min (fexp a) (fexp b)"
  define part where "part f = (if fneg_bit f then -1 else 1) * fman f * 2 ^ nat (fexp f - e)" for f
  have part: "of_int (part f) * 2 powr of_int e = fval f" if "e \<le> fexp f" for f
  proof -
    have "(2 :: real) ^ nat (fexp f - e) = 2 powr of_int (fexp f - e)"
      using that by (simp add: powr_realpow [symmetric])
    then show ?thesis
      by (simp add: part_def fval_man_exp powr_diff)
  qed
  define s where "s = part a + part b"
  have sum: "of_int s * 2 powr of_int e = fval a + fval b"
    using part [of a] part [of b] by (simp add: s_def e_def distrib_right)
  have r: "round_mag \<bar>s\<bar> 1 e = rmag \<bar>fval a + fval b\<bar>"
    using round_mag_rm [of "\<bar>s\<bar>" 1 e] by (simp add: sum [symmetric] abs_mult)
  have f: "fadd a b = (if s = 0 then mk_f64 (fneg_bit a \<and> fneg_bit b) 0
                       else mk_f64 (s < 0) (rmag \<bar>fval a + fval b\<bar>))"
    unfolding r [symmetric] using assms
    by (simp add: fadd_def is_fin_not Let_def s_def part_def e_def)
  have "s < 0 \<longleftrightarrow> fval a + fval b < 0" "s = 0 \<longleftrightarrow> fval a + fval b = 0"
    unfolding sum [symmetric] by (auto simp: mult_less_0_iff)
  then show "fkey (fadd a b) = srnd (fval a + fval b)" and "\<not> is_nan (fadd a b)"
    unfolding f by (auto simp: mk_f64_key srnd_def)
qed

lemma fsub_fin:
  assumes "is_fin a" "is_fin b"
  shows "fkey (fsub a b) = srnd (fval a - fval b)" and "\<not> is_nan (fsub a b)"
  using fadd_fin [of a "fneg b"] assms by (simp_all add: fsub_def is_fin_not)

lemma fmul_fin:
  assumes "is_fin a" "is_fin b"
  shows "fkey (fmul a b) = srnd (fval a * fval b)" and "\<not> is_nan (fmul a b)"
proof -
  let ?neg = "fneg_bit a \<noteq> fneg_bit b"
  have "of_int (fman a * fman b) * 2 powr of_int (fexp a + fexp b) = \<bar>fval a * fval b\<bar>"
    using fman_nonneg [of a] fman_nonneg [of b]
    by (simp add: fval_man_exp abs_mult powr_add)
  then have f: "fmul a b = mk_f64 ?neg (rmag \<bar>fval a * fval b\<bar>)"
    using assms round_mag_rm [of "fman a * fman b" 1 "fexp a + fexp b"] fman_nonneg [of a] fman_nonneg [of b]
    by (simp add: fmul_def is_fin_not Let_def)
  have "?neg \<Longrightarrow> fval a * fval b \<le> 0" "\<not> ?neg \<Longrightarrow> 0 \<le> fval a * fval b"
    using fman_nonneg [of a] fman_nonneg [of b]
    by (auto simp: fval_man_exp mult_le_0_iff zero_le_mult_iff)
  then show "fkey (fmul a b) = srnd (fval a * fval b)" and "\<not> is_nan (fmul a b)"
    unfolding f by (auto simp: mk_f64_key srnd_def order_class.order.antisym)
qed

lemma fman_pos: "fmag f \<noteq> 0 \<Longrightarrow> 0 < fman f"
proof -
  assume "fmag f \<noteq> 0"
  then have "0 < fmag f"
    using fmag_range(1) [of f] by simp
  moreover have "fmag f = 2 ^ 52 * (fmag f div 2 ^ 52) + fmag f mod 2 ^ 52"
    by simp
  moreover have "0 \<le> fmag f mod 2 ^ 52"
    by simp
  ultimately show ?thesis
    by (auto simp: fman_def Let_def)
qed

lemma fkey_0_iff: "fkey f = 0 \<longleftrightarrow> fmag f = 0"
  by (simp add: fkey_def)

lemma fdiv_fin:
  assumes "is_fin a" "is_fin b" "fkey b \<noteq> 0"
  shows "fkey (fdiv a b) = srnd (fval a / fval b)" and "\<not> is_nan (fdiv a b)"
proof -
  let ?neg = "fneg_bit a \<noteq> fneg_bit b"
  have b: "fmag b \<noteq> 0" "0 < fman b"
    using assms fman_pos by (simp_all add: fkey_0_iff)
  have "of_int (fman a) / of_int (fman b) * 2 powr of_int (fexp a - fexp b) = \<bar>fval a / fval b\<bar>"
    using fman_nonneg [of a] b
    by (simp add: fval_man_exp abs_mult powr_diff)
  then have f: "fdiv a b = mk_f64 ?neg (rmag \<bar>fval a / fval b\<bar>)"
    using assms round_mag_rm [of "fman a" "fman b" "fexp a - fexp b"] fman_nonneg [of a] b
    by (simp add: fdiv_def is_fin_not Let_def)
  have "?neg \<Longrightarrow> fval a / fval b \<le> 0" "\<not> ?neg \<Longrightarrow> 0 \<le> fval a / fval b"
    using fman_nonneg [of a] b
    by (auto simp: fval_man_exp divide_le_0_iff zero_le_divide_iff mult_le_0_iff zero_le_mult_iff)
  then show "fkey (fdiv a b) = srnd (fval a / fval b)" and "\<not> is_nan (fdiv a b)"
    unfolding f by (auto simp: mk_f64_key srnd_def order_class.order.antisym simp del: abs_divide)
qed

lemmas f_ops_fin = fadd_fin fsub_fin fmul_fin fdiv_fin

section \<open>Order, extrema\<close>

lemma fkey_bounds: "\<not> is_nan f \<Longrightarrow> - inf_mag \<le> fkey f \<and> fkey f \<le> inf_mag"
  using fmag_range(1) [of f] by (auto simp: is_nan_def fkey_def)

lemma is_fin_iff: "is_fin f \<longleftrightarrow> - inf_mag < fkey f \<and> fkey f < inf_mag"
  using fmag_range(1) [of f] by (auto simp: is_fin_def fkey_def)

lemma f_inf_facts [simp]: "fmag (f_inf neg) = inf_mag" "fneg_bit (f_inf neg) = neg"
    "fkey (f_inf neg) = (if neg then - inf_mag else inf_mag)" "\<not> is_nan (f_inf neg)" "is_inf (f_inf neg)"
  using inf_mag_range by (simp_all add: f_inf_def fkey_def is_nan_def is_inf_def mk_f64_fields)

lemma is_nan_fNaN [simp]: "is_nan fNaN"
  by (simp add: is_nan_def fNaN_def fmag_def inf_mag_def)

lemma fmax_key:
  assumes "\<not> is_nan x" "\<not> is_nan y"
  shows "fkey (fmax x y) = max (fkey x) (fkey y)" and "\<not> is_nan (fmax x y)"
proof -
  have "fkey (fmax x y) = max (fkey x) (fkey y) \<and> \<not> is_nan (fmax x y)"
    using assms fkey_bounds [OF assms(1)] fkey_bounds [OF assms(2)]
    by (auto simp: fmax_def flt_def max_def fkey_0_iff is_inf_def) (auto simp: fkey_def split: if_splits)
  then show "fkey (fmax x y) = max (fkey x) (fkey y)" and "\<not> is_nan (fmax x y)"
    by simp_all
qed

lemma fmin_key:
  assumes "\<not> is_nan x" "\<not> is_nan y"
  shows "fkey (fmin x y) = min (fkey x) (fkey y)" and "\<not> is_nan (fmin x y)"
proof -
  have "fkey (fmin x y) = min (fkey x) (fkey y) \<and> \<not> is_nan (fmin x y)"
    using assms fkey_bounds [OF assms(1)] fkey_bounds [OF assms(2)]
    by (auto simp: fmin_def flt_def min_def fkey_0_iff is_inf_def) (auto simp: fkey_def split: if_splits)
  then show "fkey (fmin x y) = min (fkey x) (fkey y)" and "\<not> is_nan (fmin x y)"
    by simp_all
qed

section \<open>Integers\<close>

lemma mval_rm:
  assumes "0 < v" "v * 2 powr - rexp v = of_int m" "rmag v < inf_mag"
  shows "mval (rmag v) = v"
proof -
  have rmag: "rmag v = m + (rexp v + 1074) * 2 ^ 52"
    using assms by (simp add: rmag_def)
  have v: "v = of_int m * 2 powr rexp v"
    using assms(2) by (simp add: powr_minus field_simps)
  have m: "0 \<le> m" "m < 2 ^ 53"
    using assms re_upper [OF assms(1)] zero_less_mult_iff [of v "2 powr - rexp v"] by simp_all
  show ?thesis
  proof (cases "m < 2 ^ 52")
    case True
    moreover have "- 1074 \<le> rexp v"
      by (simp add: rexp_def)
    ultimately have "rexp v = - 1074"
      using re_lower [OF assms(1)] assms(2) by (cases "- 1074 < rexp v") simp_all
    then show ?thesis
      using rmag v m True by (simp add: mval_eq)
  next
    case False
    have "rmag v = (m - 2 ^ 52) + (rexp v + 1075) * 2 ^ 52"
      using rmag by simp
    moreover have "0 \<le> m - 2 ^ 52" "m - 2 ^ 52 < 2 ^ 52"
      using False m by simp_all
    ultimately have "rmag v div 2 ^ 52 = rexp v + 1075" "rmag v mod 2 ^ 52 = m - 2 ^ 52"
      by (simp_all only: div_mult_self1 mod_mult_self1 div_pos_pos_trivial mod_pos_pos_trivial)
    moreover have "1 \<le> rexp v + 1075"
      by (simp add: rexp_def)
    ultimately show ?thesis
      unfolding mval_def Let_def using v by simp
  qed
qed

lemma rm_int_less_inf: "n \<le> 2 ^ 53 \<Longrightarrow> rmag (of_int n) < inf_mag"
proof -
  assume "n \<le> 2 ^ 53"
  then have "rmag (of_int n) \<le> rmag (of_int (2 ^ 53))"
    by (intro rm_mono) (simp only: of_int_le_iff)
  also have "\<dots> = round_mag (2 ^ 53) 1 0"
    using round_mag_rm [of "2 ^ 53" 1 0] by simp
  also have "\<dots> < inf_mag"
    by code_simp
  finally show ?thesis .
qed

lemma log_2_53: "log 2 (2 ^ 53 :: real) = 53"
  by (subst log_pow_cancel) simp_all

lemma int_scaled:
  assumes "0 < n" "n \<le> 2 ^ 53"
  shows "\<exists>m. real_of_int n * 2 powr - rexp (of_int n) = of_int m"
proof (cases "n = 2 ^ 53")
  case True
  have "rexp (of_int n) = 1"
    using log_2_53 True by (simp add: rexp_def)
  then have "real_of_int n * 2 powr - rexp (of_int n) = of_int (2 ^ 52)"
    using True by (simp add: powr_minus)
  then show ?thesis ..
next
  case False
  then have "log 2 (of_int n) < log 2 (2 ^ 53)"
    using assms by (subst log_less_cancel_iff) simp_all
  then have "log 2 (of_int n) < 53"
    by (simp only: log_2_53)
  then have "rexp (of_int n) \<le> 0"
    by (simp add: rexp_def)
  then have "real_of_int n * 2 powr - rexp (of_int n) = of_int (n * 2 ^ nat (- rexp (of_int n)))"
    by (simp add: powr_realpow [symmetric])
  then show ?thesis ..
qed

lemma f_of_int_key: "fkey (f_of_int n) = srnd (of_int n)" "\<not> is_nan (f_of_int n)"
  using round_mag_rm [of "\<bar>n\<bar>" 1 0] by (auto simp: f_of_int_def mk_f64_key srnd_def)

lemma f_lit_key: "0 < d \<Longrightarrow> fkey (f_lit n d) = srnd (of_int n / of_int d)" "0 < d \<Longrightarrow> \<not> is_nan (f_lit n d)"
  using round_mag_rm [of "\<bar>n\<bar>" d 0]
  by (auto simp: f_lit_def mk_f64_key srnd_def divide_less_0_iff)

lemma f_of_int_exact:
  assumes "\<bar>n\<bar> \<le> 2 ^ 53"
  shows "fval (f_of_int n) = of_int n" and "is_fin (f_of_int n)"
proof -
  have f: "f_of_int n = mk_f64 (n < 0) (rmag \<bar>of_int n\<bar>)"
    using round_mag_rm [of "\<bar>n\<bar>" 1 0] by (simp add: f_of_int_def)
  have less: "rmag \<bar>of_int n\<bar> < inf_mag"
    using rm_int_less_inf [OF assms] by simp
  then show "is_fin (f_of_int n)"
    by (simp add: f is_fin_def)
  have "mval (rmag \<bar>of_int n\<bar>) = \<bar>of_int n\<bar>"
  proof (cases "n = 0")
    case False
    then obtain m where "real_of_int \<bar>n\<bar> * 2 powr - rexp (of_int \<bar>n\<bar>) = of_int m"
      using int_scaled [of "\<bar>n\<bar>"] assms by auto
    then show ?thesis
      using mval_rm [of "of_int \<bar>n\<bar>" m] less False by simp
  qed (simp add: mval_def)
  then show "fval (f_of_int n) = of_int n"
    by (cases "n < 0") (simp_all add: f fval_def)
qed

lemma fman_scaled:
  assumes "fexp f < 0"
  shows "fman f div 2 ^ nat (- fexp f) = \<lfloor>of_int (fman f) * 2 powr fexp f\<rfloor>"
    and "- ((- fman f) div 2 ^ nat (- fexp f)) = \<lceil>of_int (fman f) * 2 powr fexp f\<rceil>"
proof -
  have "(2 :: real) powr fexp f = 1 / of_int (2 ^ nat (- fexp f))"
    using assms powr_minus_divide [of 2 "- real_of_int (fexp f)"]
    by (simp add: powr_realpow [symmetric])
  then have q: "of_int k * (2 :: real) powr fexp f = of_int k / of_int (2 ^ nat (- fexp f))" for k
    by simp
  show "fman f div 2 ^ nat (- fexp f) = \<lfloor>of_int (fman f) * 2 powr fexp f\<rfloor>"
    unfolding q floor_divide_of_int_eq ..
  show "- ((- fman f) div 2 ^ nat (- fexp f)) = \<lceil>of_int (fman f) * 2 powr fexp f\<rceil>"
    unfolding ceiling_def using q [of "- fman f"] floor_divide_of_int_eq [of "- fman f" "2 ^ nat (- fexp f)", where 'a = real]
    by simp
qed

lemma f_trunc_val: "f_trunc f = (if fval f < 0 then \<lceil>fval f\<rceil> else \<lfloor>fval f\<rfloor>)"
proof -
  define m where "m = (if fexp f \<ge> 0 then fman f * 2 ^ nat (fexp f) else fman f div 2 ^ nat (- fexp f))"
  define v where "v = of_int (fman f) * 2 powr fexp f"
  have "m = \<lfloor>v\<rfloor>"
  proof (cases "fexp f \<ge> 0")
    case True
    then have "v = of_int (fman f * 2 ^ nat (fexp f))"
      by (simp add: v_def powr_realpow [symmetric])
    then show ?thesis
      using True by (simp only: m_def floor_of_int) simp
  next
    case False
    then show ?thesis
      using fman_scaled(1) [of f] by (simp add: m_def v_def)
  qed
  moreover have "0 \<le> v"
    using fman_nonneg [of f] by (simp add: v_def)
  moreover have "fval f = (if fneg_bit f then - v else v)"
    by (simp add: fval_man_exp v_def)
  ultimately show ?thesis
    by (auto simp: f_trunc_def Let_def m_def [symmetric] ceiling_minus)
qed

lemma fman_upper: "fman f < 2 ^ 53"
  using pos_mod_bound [of "2 ^ 52" "fmag f"] by (simp add: fman_def Let_def del: pos_mod_bound) linarith

lemma f_trunc_int: "fval f = of_int n \<Longrightarrow> f_trunc f = n"
  by (simp add: f_trunc_val)

lemma f_trunc_ceil:
  assumes "is_fin f"
  shows "f_trunc (fceil f) = \<lceil>fval f\<rceil>"
proof -
  define v where "v = of_int (fman f) * 2 powr fexp f"
  have val: "fval f = (if fneg_bit f then - v else v)"
    by (simp add: fval_man_exp v_def)
  consider (int) "fexp f \<ge> 0" | (zero) "fmag f = 0" | (frac) "fexp f < 0" "fmag f \<noteq> 0"
    by linarith
  then show ?thesis
  proof cases
    case int
    then have "v = of_int (fman f * 2 ^ nat (fexp f))"
      by (simp add: v_def powr_realpow [symmetric])
    then obtain n where "fval f = of_int n"
      unfolding val by (metis of_int_minus)
    then show ?thesis
      using int by (simp add: fceil_def f_trunc_int)
  next
    case zero
    then have "fval f = of_int 0"
      by (simp add: fval_def mval_def)
    then show ?thesis
      using zero by (simp add: fceil_def f_trunc_int)
  next
    case frac
    define c where "c = (if fneg_bit f then - (fman f div 2 ^ nat (- fexp f))
                         else - ((- fman f) div 2 ^ nat (- fexp f)))"
    have c: "c = \<lceil>fval f\<rceil>"
      using fman_scaled [OF frac(1)] by (simp add: c_def val v_def ceiling_minus)
    have "v \<le> of_int (fman f) * 1"
      unfolding v_def using fman_nonneg [of f] frac(1) powr_mono [of "fexp f" 0 2]
      by (intro mult_left_mono) simp_all
    moreover have "0 \<le> v"
      using fman_nonneg [of f] by (simp add: v_def)
    ultimately have "\<bar>c\<bar> \<le> 2 ^ 53"
      using fman_upper [of f] unfolding c val by (auto simp: abs_le_iff ceiling_le_iff le_floor_iff ceiling_minus) linarith+
    then have "f_trunc (f_of_int c) = c" "f_trunc (mk_f64 neg 0) = 0" for neg
      by (simp_all add: f_trunc_int f_of_int_exact)
    moreover have "fceil f = (if c = 0 then mk_f64 (fneg_bit f) 0 else f_of_int c)"
      using assms frac by (simp add: fceil_def c_def Let_def)
    ultimately show ?thesis
      by (simp add: c)
  qed
qed

lemma srnd_0 [simp]: "srnd 0 = 0"
  by (simp add: srnd_def)

lemma srnd_sign: "0 \<le> v \<Longrightarrow> 0 \<le> srnd v" "v \<le> 0 \<Longrightarrow> srnd v \<le> 0"
  using srnd_mono [of 0 v] srnd_mono [of v 0] by simp_all

lemma srnd_le_fkey: "is_fin g \<Longrightarrow> v \<le> fval g \<Longrightarrow> srnd v \<le> fkey g"
  using srnd_mono [of v "fval g"] by (simp add: srnd_fval)

lemma srnd_ge_fkey: "is_fin g \<Longrightarrow> fval g \<le> v \<Longrightarrow> fkey g \<le> srnd v"
  using srnd_mono [of "fval g" v] by (simp add: srnd_fval)

lemma fkey_sign: "is_fin f \<Longrightarrow> 0 < fkey f \<longleftrightarrow> 0 < fval f" "is_fin f \<Longrightarrow> 0 \<le> fkey f \<longleftrightarrow> 0 \<le> fval f"
  using fval_less_iff [of f0 f] fval_le_iff [of f0 f]
  by (simp_all add: f0_def is_fin_def fmag_def inf_mag_def fval_def fkey_def mval_def fneg_bit_def)

lemma f_consts [simp]:
  "is_fin f0" "fkey f0 = 0" "fval f0 = 0" "\<not> is_nan f0"
  "is_fin f1" "fval f1 = 1" "\<not> is_nan f1" "fkey f1 = 0x3FF0000000000000"
proof -
  show "is_fin f0" "fkey f0 = 0" "fval f0 = 0" "\<not> is_nan f0" "is_fin f1" "\<not> is_nan f1"
      "fkey f1 = 0x3FF0000000000000"
    by (simp_all add: f0_def f1_def is_fin_def is_nan_def fmag_def inf_mag_def fval_def fkey_def mval_def fneg_bit_def)
  have "f_of_int 1 = f1"
    by code_simp
  then show "fval f1 = 1"
    using f_of_int_exact(1) [of 1] by simp
qed

end
