(* ===== verification/Samples.thy ===== *)
theory Samples
  imports Float64_Rounding
begin

text \<open>
  \<open>pkg/reconciler/agentdeploy/scaling/history/sample.go\<close> and \<open>buffer.go\<close>: load samples,
  the filter that leaves the readings fit to learn from, and the buffer bounded by age and
  count.  Time stamps are nanoseconds since the Unix epoch.  \<open>sort.Slice\<close> is not stable:
  the sort is an argument of \<open>Sanitize\<close>, known only to return an ordered permutation.
  The record bound of a buffer is an \<open>int\<close> in the code and a natural number here: the only
  callers leave it at its default, and a negative bound would make the eviction slice out of
  range and panic.
\<close>

section \<open>Samples\<close>

record Sample =
  Timestamp :: nanos
  Replicas :: int
  InflightPerRep :: f64
  RatePerRep :: f64

definition warmupAfterScale :: nanos where
"warmupAfterScale = 60 * second"

definition valid :: "Sample \<Rightarrow> bool" where
"valid s \<longleftrightarrow> Replicas s > 0 \<and> flt f0 (InflightPerRep s) \<and> flt f0 (RatePerRep s) \<and>
             \<not> is_nan (InflightPerRep s) \<and> \<not> is_nan (RatePerRep s)"

definition dedup_step :: "Sample list \<Rightarrow> Sample \<Rightarrow> Sample list" where
"dedup_step out s =
   (if out \<noteq> [] \<and> Timestamp s = Timestamp (last out) then butlast out @ [s] else out @ [s])"

definition dedupByTimestamp :: "Sample list \<Rightarrow> Sample list" where
"dedupByTimestamp ss = foldl dedup_step [] ss"

text \<open>The loop of \<open>Sanitize\<close>: \<open>first\<close> is the test \<open>i > 0\<close> negated.\<close>

fun sanitize_loop :: "bool \<Rightarrow> nanos \<Rightarrow> int \<Rightarrow> Sample list \<Rightarrow> Sample list" where
"sanitize_loop first lastChange prevReplicas [] = []" |
"sanitize_loop first lastChange prevReplicas (s # rest) =
   (let lastChange' = (if \<not> first \<and> Replicas s \<noteq> prevReplicas then Timestamp s else lastChange);
        keep = valid s \<and>
               \<not> (lastChange' \<noteq> zero_time \<and> time_sub (Timestamp s) lastChange' < warmupAfterScale);
        clean = sanitize_loop False lastChange' (Replicas s) rest
    in if keep then s # clean else clean)"

definition Sanitize :: "(Sample list \<Rightarrow> Sample list) \<Rightarrow> Sample list \<Rightarrow> Sample list" where
"Sanitize srt history =
   (if history = [] then []
    else let ss = dedupByTimestamp (srt history)
         in sanitize_loop True zero_time (Replicas (hd ss)) ss)"

section \<open>The buffer\<close>

definition defaultMaxAge :: nanos where
"defaultMaxAge = 7 * 24 * 60 * minute"

definition defaultMaxRecords :: nat where
"defaultMaxRecords = 12000"

record hrecord =
  sample :: Sample
  count :: "16 word"

record buffer =
  records :: "hrecord list"
  maxAge :: nanos
  maxRecords :: nat

datatype bufferOption = WithMaxAge nanos | WithMaxRecords nat

fun applyBufferOption :: "bufferOption \<Rightarrow> buffer \<Rightarrow> buffer" where
"applyBufferOption (WithMaxAge d) b = b\<lparr>maxAge := d\<rparr>" |
"applyBufferOption (WithMaxRecords n) b = b\<lparr>maxRecords := n\<rparr>"

definition newBuffer :: "bufferOption list \<Rightarrow> buffer" where
"newBuffer opts = fold applyBufferOption opts
   \<lparr>records = [], maxAge = defaultMaxAge, maxRecords = defaultMaxRecords\<rparr>"

definition evictLocked :: "nanos \<Rightarrow> buffer \<Rightarrow> buffer" where
"evictLocked now b =
   (let cutoff = now - maxAge b;
        recent = dropWhile (\<lambda>r. Timestamp (sample r) < cutoff) (records b);
        over = length recent - maxRecords b
    in b\<lparr>records := drop over recent\<rparr>)"

definition add :: "Sample \<Rightarrow> buffer \<Rightarrow> buffer" where
"add s b = evictLocked (Timestamp s) (b\<lparr>records := records b @ [\<lparr>sample = s, count = 1\<rparr>]\<rparr>)"

definition reset :: "buffer \<Rightarrow> buffer" where
"reset b = b\<lparr>records := []\<rparr>"

definition samples :: "nanos \<Rightarrow> buffer \<Rightarrow> Sample list \<times> buffer" where
"samples now b = (let b' = evictLocked now b in (map sample (records b'), b'))"

definition snapshot :: "buffer \<Rightarrow> hrecord list" where
"snapshot b = records b"

definition load :: "hrecord list \<Rightarrow> buffer \<Rightarrow> buffer" where
"load rs b = b\<lparr>records := rs\<rparr>"

section \<open>Sorting contract\<close>

text \<open>What \<open>sort.Slice\<close> promises for a comparison that is a strict weak order on the
  elements at hand.\<close>

locale slice_sort =
  fixes srt :: "'a list \<Rightarrow> 'a list"
    and less :: "'a \<Rightarrow> 'a \<Rightarrow> bool"
    and proper :: "'a \<Rightarrow> bool"
  assumes permutes: "mset (srt xs) = mset xs"
    and orders: "(\<And>x. x \<in> set xs \<Longrightarrow> proper x) \<Longrightarrow> sorted_wrt (\<lambda>x y. \<not> less y x) (srt xs)"
begin

lemma set_srt [simp]: "set (srt xs) = set xs"
  using permutes by (metis set_mset_mset)

lemma length_srt [simp]: "length (srt xs) = length xs"
  using permutes by (metis size_mset)

lemma srt_Nil [simp]: "srt [] = []"
  using permutes [of "[]"] by simp

end

definition by_time :: "Sample \<Rightarrow> Sample \<Rightarrow> bool" where
"by_time x y \<longleftrightarrow> Timestamp x < Timestamp y"

abbreviation "time_sort srt \<equiv> slice_sort srt by_time (\<lambda>_. True)"

interpretation stable_time: slice_sort "sort_key Timestamp" by_time "\<lambda>_. True"
proof unfold_locales
  fix xs :: "Sample list"
  have "sorted_wrt (\<le>) (map Timestamp (sort_key Timestamp xs))"
    using sorted_sort_key by blast
  then show "sorted_wrt (\<lambda>x y. \<not> by_time y x) (sort_key Timestamp xs)"
    by (simp add: sorted_wrt_map by_time_def not_less)
qed simp

section \<open>Deduplication\<close>

abbreviation strictly_timed :: "Sample list \<Rightarrow> bool" where
"strictly_timed ss \<equiv> sorted_wrt (\<lambda>x y. Timestamp x < Timestamp y) ss"

lemma strictly_timed_last:
  "strictly_timed out \<Longrightarrow> x \<in> set out \<Longrightarrow> x = last out \<or> Timestamp x < Timestamp (last out)"
  by (induction out) auto

lemma dedup_fold:
  assumes "strictly_timed out" "sorted_wrt (\<lambda>x y. \<not> by_time y x) ss"
    and "\<And>x y. x \<in> set out \<Longrightarrow> y \<in> set ss \<Longrightarrow> Timestamp x \<le> Timestamp y"
  shows "strictly_timed (foldl dedup_step out ss) \<and>
         Timestamp ` set (foldl dedup_step out ss) = Timestamp ` (set out \<union> set ss) \<and>
         set (foldl dedup_step out ss) \<subseteq> set out \<union> set ss"
  using assms
proof (induction ss arbitrary: out)
  case (Cons s ss)
  have dec: "out = butlast out @ [last out]" if "out \<noteq> []"
    using that by simp
  have st: "strictly_timed (dedup_step out s)"
  proof (cases "out \<noteq> [] \<and> Timestamp s = Timestamp (last out)")
    case True
    then have "strictly_timed (butlast out @ [last out])"
      using Cons.prems(1) dec by metis
    with True show ?thesis
      unfolding sorted_wrt_append by (simp add: dedup_step_def sorted_wrt_append)
  next
    case False
    have "Timestamp x < Timestamp s" if "x \<in> set out" for x
    proof -
      have "out \<noteq> []"
        using that by auto
      then have "Timestamp (last out) \<noteq> Timestamp s" "Timestamp (last out) \<le> Timestamp s"
        using False Cons.prems(3) [of "last out" s] by simp_all
      moreover have "x = last out \<or> Timestamp x < Timestamp (last out)"
        using that Cons.prems(1) by (rule strictly_timed_last [rotated])
      ultimately show ?thesis by auto
    qed
    then show ?thesis
      using False Cons.prems(1) by (auto simp: dedup_step_def sorted_wrt_append)
  qed
  have sub: "set (dedup_step out s) \<subseteq> set out \<union> {s}"
    by (auto simp: dedup_step_def dest: in_set_butlastD)
  have tm: "Timestamp ` set (dedup_step out s) = Timestamp ` (set out \<union> {s})"
  proof (cases "out \<noteq> [] \<and> Timestamp s = Timestamp (last out)")
    case True
    then have "set out = insert (last out) (set (butlast out))"
      by (simp add: set_last_butlast)
    then show ?thesis
      using True by (auto simp: dedup_step_def)
  qed (auto simp: dedup_step_def)
  have le: "\<And>x y. x \<in> set (dedup_step out s) \<Longrightarrow> y \<in> set ss \<Longrightarrow> Timestamp x \<le> Timestamp y"
    using sub Cons.prems by (fastforce simp: by_time_def)
  show ?case
    using Cons.IH [OF st _ le] Cons.prems(2) sub tm by (auto simp: image_Un) 
qed simp

lemma dedup_props:
  assumes "sorted_wrt (\<lambda>x y. \<not> by_time y x) ss"
  shows "strictly_timed (dedupByTimestamp ss)"
    and "Timestamp ` set (dedupByTimestamp ss) = Timestamp ` set ss"
    and "set (dedupByTimestamp ss) \<subseteq> set ss"
  using dedup_fold [of "[]" ss] assms by (simp_all add: dedupByTimestamp_def)

section \<open>The samples kept\<close>

text \<open>The instants up to position \<open>i\<close> at which the replica count differs from the reading
  before.\<close>

definition changes :: "Sample list \<Rightarrow> nat \<Rightarrow> nanos list" where
"changes ss i = map (\<lambda>j. Timestamp (ss ! j)) (filter (\<lambda>j. Replicas (ss ! j) \<noteq> Replicas (ss ! (j - 1))) [1..<Suc i])"

definition settled :: "Sample list \<Rightarrow> nat \<Rightarrow> bool" where
"settled ss i \<longleftrightarrow> (\<forall>t\<in>set (changes ss i). Timestamp (ss ! i) - t \<ge> warmupAfterScale)"

definition steady :: "Sample list \<Rightarrow> Sample list" where
"steady ss = map (\<lambda>i. ss ! i) (filter (\<lambda>i. valid (ss ! i) \<and> settled ss i) [0..<length ss])"

definition last_change :: "nanos list \<Rightarrow> nanos" where
"last_change ts = (if ts = [] then zero_time else last ts)"

lemma changes_Suc:
  "changes ss (Suc i) = changes ss i @
     (if Replicas (ss ! Suc i) \<noteq> Replicas (ss ! i) then [Timestamp (ss ! Suc i)] else [])"
  by (simp add: changes_def)

lemma time_sub_less: "- (2 ^ 63) < c \<Longrightarrow> c < 2 ^ 63 \<Longrightarrow> time_sub a b < c \<longleftrightarrow> a - b < c"
  by (auto simp: time_sub_def)

lemma changes_sorted:
  assumes "strictly_timed ss" "i < length ss"
  shows "sorted (changes ss i)"
  using assms(2)
proof (induction i)
  case (Suc i)
  have "t \<le> Timestamp (ss ! Suc i)" if t: "t \<in> set (changes ss i)" for t
  proof -
    obtain j where "j < Suc i" "t = Timestamp (ss ! j)"
      using t by (auto simp: changes_def simp del: upt_Suc)
    then show ?thesis
      using assms(1) Suc.prems by (simp add: sorted_wrt_iff_nth_less order_less_imp_le)
  qed
  then show ?case
    using Suc by (simp add: changes_Suc sorted_append)
qed (simp add: changes_def)

lemma settled_last_change:
  assumes "strictly_timed ss" "i < length ss" "\<And>s. s \<in> set ss \<Longrightarrow> zero_time < Timestamp s"
  shows "settled ss i \<longleftrightarrow>
         \<not> (last_change (changes ss i) \<noteq> zero_time \<and>
            time_sub (Timestamp (ss ! i)) (last_change (changes ss i)) < warmupAfterScale)"
proof (cases "changes ss i = []")
  case False
  have last: "t \<le> last (changes ss i)" if "t \<in> set (changes ss i)" for t
    using that changes_sorted [OF assms(1,2)] by (rule sorted_last [rotated])
  have "last (changes ss i) \<in> set (changes ss i)"
    using False by simp
  then have "zero_time < last (changes ss i)"
    using assms(2,3) by (auto simp: changes_def)
  moreover have "settled ss i \<longleftrightarrow> Timestamp (ss ! i) - last (changes ss i) \<ge> warmupAfterScale"
    using last \<open>last (changes ss i) \<in> set (changes ss i)\<close> by (fastforce simp: settled_def)
  ultimately show ?thesis
    using False time_sub_less [of warmupAfterScale "Timestamp (ss ! i)" "last (changes ss i)"]
    by (auto simp: last_change_def warmupAfterScale_def second_def)
qed (simp add: settled_def last_change_def)

lemma sanitize_loop_suffix:
  assumes "strictly_timed ss" "\<And>s. s \<in> set ss \<Longrightarrow> zero_time < Timestamp s"
    and "rest = drop (Suc i) ss" "i < length ss"
  shows "sanitize_loop False (last_change (changes ss i)) (Replicas (ss ! i)) rest =
         map (\<lambda>j. ss ! j) (filter (\<lambda>j. valid (ss ! j) \<and> settled ss j) [Suc i..<length ss])"
  using assms(3,4)
proof (induction rest arbitrary: i)
  case (Cons s rest)
  have i: "Suc i < length ss"
    using Cons.prems(1) by (cases "Suc i < length ss") auto
  then have s: "Suc i < length ss" "s = ss ! Suc i" "rest = drop (Suc (Suc i)) ss"
    using Cons.prems(1) by (simp_all add: Cons_nth_drop_Suc [symmetric])
  have lc: "last_change (changes ss (Suc i)) =
      (if Replicas s \<noteq> Replicas (ss ! i) then Timestamp s else last_change (changes ss i))"
    by (simp add: changes_Suc last_change_def s(2))
  have up: "[Suc i..<length ss] = Suc i # [Suc (Suc i)..<length ss]"
    using s(1) by (rule upt_conv_Cons)
  show ?case
    using Cons.IH [OF s(3,1)] settled_last_change [OF assms(1) s(1) assms(2)]
    unfolding up by (simp add: Let_def lc s(2) [symmetric])
qed simp

lemma sanitize_loop_steady:
  assumes "strictly_timed ss" "\<And>s. s \<in> set ss \<Longrightarrow> zero_time < Timestamp s" "ss \<noteq> []"
  shows "sanitize_loop True zero_time (Replicas (hd ss)) ss = steady ss"
proof -
  obtain s rest where ss: "ss = s # rest"
    using assms(3) by (cases ss) auto
  have "rest = drop (Suc 0) ss" "0 < length ss"
    by (simp_all add: ss)
  then have "sanitize_loop False (last_change (changes ss 0)) (Replicas (ss ! 0)) rest =
         map (\<lambda>j. ss ! j) (filter (\<lambda>j. valid (ss ! j) \<and> settled ss j) [Suc 0..<length ss])"
    by (intro sanitize_loop_suffix assms)
  moreover have z: "last_change (changes ss 0) = zero_time" "settled ss 0" "ss ! 0 = s"
    by (simp_all add: changes_def last_change_def settled_def ss)
  ultimately have rest: "sanitize_loop False zero_time (Replicas s) rest =
         map (\<lambda>j. ss ! j) (filter (\<lambda>j. valid (ss ! j) \<and> settled ss j) [Suc 0..<length ss])"
    by simp
  have "sanitize_loop True zero_time (Replicas (hd ss)) ss =
        (if valid s then [s] else []) @ sanitize_loop False zero_time (Replicas s) rest"
    unfolding ss by simp
  also have "\<dots> = steady ss"
    using assms(3) unfolding steady_def rest by (simp add: upt_conv_Cons z)
  finally show ?thesis .
qed

lemma steady_props:
  "set (steady ss) \<subseteq> set ss" "s \<in> set (steady ss) \<Longrightarrow> valid s"
  "strictly_timed ss \<Longrightarrow> strictly_timed (steady ss)"
proof -
  show "set (steady ss) \<subseteq> set ss" "s \<in> set (steady ss) \<Longrightarrow> valid s"
    by (auto simp: steady_def)
  assume st: "strictly_timed ss"
  have "sorted_wrt (<) (filter (\<lambda>i. valid (ss ! i) \<and> settled ss i) [0..<length ss])"
    by (intro sorted_wrt_filter) simp
  then show "strictly_timed (steady ss)"
    unfolding steady_def sorted_wrt_map
    by (rule sorted_wrt_mono_rel [rotated]) (use st in \<open>auto simp: sorted_wrt_iff_nth_less\<close>)
qed

section \<open>The buffer holds the recent samples\<close>

lemma take_last_filter:
  assumes "sorted_wrt (\<lambda>x y. Q x \<longrightarrow> Q y) xs"
  shows "take_last n (filter Q (take_last n xs @ ys)) = take_last n (filter Q (xs @ ys))"
  using assms
proof (induction xs)
  case (Cons x xs)
  show ?case
  proof (cases "length xs < n")
    case False
    then have tl: "take_last n (x # xs) = take_last n xs" "take_last n (x # xs @ zs) = take_last n (xs @ zs)" for zs
      by (simp_all add: take_last_def Suc_diff_le)
    have "filter Q xs = xs" if "Q x"
      using that Cons.prems by (simp add: filter_id_conv)
    then show ?thesis
      using Cons tl by (auto simp: filter_id_conv)
  qed (simp add: take_last_def)
qed simp

lemma dropWhile_sorted:
  assumes "sorted_wrt (\<lambda>x y. P y \<longrightarrow> P x) xs"
  shows "dropWhile P xs = filter (\<lambda>x. \<not> P x) xs"
  using assms
proof (induction xs)
  case (Cons x xs)
  then have "\<not> P x \<Longrightarrow> filter (\<lambda>x. \<not> P x) xs = xs"
    by (intro filter_True) auto
  then show ?case
    using Cons by auto
qed simp

lemma evict_records:
  assumes "sorted_wrt (\<lambda>x y. Timestamp x \<le> Timestamp y) (map sample (records b))"
  shows "records (evictLocked now b) =
         take_last (maxRecords b) (filter (\<lambda>r. now - maxAge b \<le> Timestamp (sample r)) (records b))"
proof -
  have "sorted_wrt (\<lambda>x y. Timestamp (sample y) < now - maxAge b \<longrightarrow> Timestamp (sample x) < now - maxAge b) (records b)"
    using assms unfolding sorted_wrt_map by (rule sorted_wrt_mono_rel [rotated]) simp
  then show ?thesis
    by (simp add: evictLocked_def Let_def dropWhile_sorted take_last_def not_less)
qed

lemma evict_fields [simp]: "maxAge (evictLocked now b) = maxAge b" "maxRecords (evictLocked now b) = maxRecords b"
  by (simp_all add: evictLocked_def Let_def)

lemma add_fields [simp]: "maxAge (add s b) = maxAge b" "maxRecords (add s b) = maxRecords b"
  by (simp_all add: add_def)

lemma fold_add_fields [simp]:
  "maxAge (fold add ss b) = maxAge b" "maxRecords (fold add ss b) = maxRecords b"
  by (induction ss arbitrary: b) simp_all

definition in_window :: "nanos \<Rightarrow> buffer \<Rightarrow> Sample \<Rightarrow> bool" where
"in_window now b s \<longleftrightarrow> now - maxAge b \<le> Timestamp s"

lemma sorted_take_last: "sorted_wrt R xs \<Longrightarrow> sorted_wrt R (take_last n xs)"
  by (simp add: take_last_def sorted_wrt_drop)

lemma map_take_last: "map f (take_last n xs) = take_last n (map f xs)"
  by (simp add: take_last_def drop_map)

lemma fold_add_samples:
  assumes "sorted_wrt (\<lambda>x y. Timestamp x \<le> Timestamp y) ss" "ss \<noteq> []" "records b = []"
  shows "map sample (records (fold add ss b)) =
         take_last (maxRecords b) (filter (in_window (Timestamp (last ss)) b) ss)"
  using assms(1,2)
proof (induction ss rule: rev_induct)
  case (snoc s ss)
  define b1 where "b1 = fold add ss b"
  have sorted: "sorted_wrt (\<lambda>x y. Timestamp x \<le> Timestamp y) ss"
    and le: "\<And>x. x \<in> set ss \<Longrightarrow> Timestamp x \<le> Timestamp s"
    using snoc.prems by (auto simp: sorted_wrt_append)
  define W where "W = in_window (Timestamp s) b"
  obtain old where old: "map sample (records b1) = take_last (maxRecords b) old"
    "old = filter (\<lambda>x. ss \<noteq> [] \<and> in_window (Timestamp (last ss)) b x) ss"
    using snoc.IH [OF sorted] assms(3) by (cases "ss = []") (auto simp: b1_def)
  have sub: "filter W old = filter W ss"
  proof (cases "ss = []")
    case False
    then have "Timestamp (last ss) \<le> Timestamp s"
      by (simp add: le)
    then show ?thesis
      by (auto simp: old(2) W_def in_window_def intro!: filter_cong)
  qed (simp add: old(2))
  have so: "sorted_wrt (\<lambda>x y. Timestamp x \<le> Timestamp y) old"
    using sorted by (simp add: old(2) sorted_wrt_filter)
  have "sorted_wrt (\<lambda>x y. Timestamp x \<le> Timestamp y) (map sample (records b1) @ [s])"
    using so le unfolding old(1) sorted_wrt_append
    by (auto simp: sorted_take_last old(2) dest!: set_take_last [THEN subsetD])
  then have "map sample (records (add s b1)) = take_last (maxRecords b) (filter W (map sample (records b1) @ [s]))"
    unfolding add_def by (subst evict_records)
      (simp_all add: map_take_last filter_map comp_def b1_def W_def in_window_def)
  also have "\<dots> = take_last (maxRecords b) (filter W (old @ [s]))"
    unfolding old(1)
    by (rule take_last_filter) (use so in \<open>auto simp: W_def in_window_def elim!: sorted_wrt_mono_rel [rotated]\<close>)
  also have "filter W (old @ [s]) = filter W (ss @ [s])"
    by (simp add: sub)
  finally show ?case
    by (simp add: b1_def W_def)
qed simp

section \<open>Properties\<close>

lemma newBuffer_records [simp]: "records (newBuffer opts) = []"
proof -
  have "records (fold applyBufferOption os b) = records b" for os b
  proof (induction os arbitrary: b)
    case (Cons x os)
    then show ?case by (cases x) simp_all
  qed simp
  then show ?thesis
    by (simp add: newBuffer_def)
qed

text \<open>C28: whatever order \<open>sort.Slice\<close> leaves equal time stamps in, \<open>Sanitize\<close> returns readings
  in strictly increasing time order, and a reading is returned exactly when it is one of the
  de-duplicated readings (one per instant of the input), carries a positive load signal, and
  is at least the warm-up time after every replica-count change up to it.\<close>

theorem sanitize_keeps_steady_samples:
  assumes "time_sort srt" and "\<And>s. s \<in> set hist \<Longrightarrow> zero_time < Timestamp s"
  defines "ss \<equiv> dedupByTimestamp (srt hist)"
  shows "strictly_timed (Sanitize srt hist) \<and>
         set ss \<subseteq> set hist \<and> Timestamp ` set ss = Timestamp ` set hist \<and>
         (s \<in> set (Sanitize srt hist) \<longleftrightarrow> (\<exists>i<length ss. s = ss ! i \<and> valid s \<and> settled ss i))"
proof -
  note dd = dedup_props [OF slice_sort.orders [OF assms(1)], of hist, simplified, folded ss_def]
  have src: "set ss \<subseteq> set hist" "Timestamp ` set ss = Timestamp ` set hist"
    using dd slice_sort.set_srt [OF assms(1)] by auto
  have "Sanitize srt hist = steady ss"
  proof (cases "hist = []")
    case False
    then have "ss \<noteq> []"
      using src(2) by auto
    moreover have "\<And>s. s \<in> set ss \<Longrightarrow> zero_time < Timestamp s"
      using src(1) assms(2) by blast
    ultimately show ?thesis
      using False sanitize_loop_steady [OF dd(1)] by (simp add: Sanitize_def Let_def ss_def [symmetric])
  next
    case True
    then show ?thesis
      using src by (simp add: Sanitize_def steady_def)
  qed
  then show ?thesis
    using src steady_props(3) [OF dd(1)] by (auto simp: steady_def)
qed

theorem sanitize_keeps_steady_samples_witness:
  "(let obs = \<lambda>t n. \<lparr>Timestamp = t * second, Replicas = n, InflightPerRep = f1, RatePerRep = f1\<rparr>;
        hist = [obs 190 2, obs 100 1, obs 130 2] in
    strictly_timed (Sanitize (sort_key Timestamp) hist) \<and>
    Sanitize (sort_key Timestamp) hist = [obs 100 1, obs 190 2])"
proof -
  let ?obs = "\<lambda>t n. \<lparr>Timestamp = t * second, Replicas = n, InflightPerRep = f1, RatePerRep = f1\<rparr>"
  have "strictly_timed (Sanitize (sort_key Timestamp) [?obs 190 2, ?obs 100 1, ?obs 130 2])"
    by (rule sanitize_keeps_steady_samples [OF stable_time.slice_sort_axioms, THEN conjunct1])
      (auto simp: zero_time_def second_def)
  moreover have "Sanitize (sort_key Timestamp) [?obs 190 2, ?obs 100 1, ?obs 130 2] = [?obs 100 1, ?obs 190 2]"
    by code_simp
  ultimately show ?thesis
    by (simp only: Let_def)
qed

text \<open>C16: samples added to a fresh buffer in time order leave exactly those within \<open>maxAge\<close> of the
  newest one, and of these the last \<open>maxRecords\<close>, in order.\<close>

theorem buffer_holds_recent_window:
  fixes ss :: "Sample list" and opts :: "bufferOption list"
  assumes "sorted_wrt (\<lambda>x y. Timestamp x \<le> Timestamp y) ss" "ss \<noteq> []"
  defines "b \<equiv> fold add ss (newBuffer opts)"
  shows "map sample (records b) =
           take_last (maxRecords b) (filter (\<lambda>s. Timestamp (last ss) - maxAge b \<le> Timestamp s) ss) \<and>
         fst (samples (Timestamp (last ss)) b) = map sample (records b) \<and>
         length (snapshot b) \<le> maxRecords b"
proof -
  define W where "W = (\<lambda>s :: Sample. Timestamp (last ss) - maxAge b \<le> Timestamp s)"
  have b: "map sample (records b) = take_last (maxRecords b) (filter W ss)"
    using fold_add_samples [OF assms(1,2), of "newBuffer opts"]
    by (simp add: b_def in_window_def [abs_def] W_def)
  have "sorted_wrt (\<lambda>x y. Timestamp x \<le> Timestamp y) (map sample (records b))"
    unfolding b using assms(1) by (intro sorted_take_last sorted_wrt_filter)
  then have "map sample (records (evictLocked (Timestamp (last ss)) b)) =
      take_last (maxRecords b) (filter W (map sample (records b)))"
    by (simp add: evict_records map_take_last filter_map comp_def W_def)
  also have "\<dots> = map sample (records b)"
    unfolding b using set_take_last [of "maxRecords b" "filter W ss"]
    by (subst filter_True) auto
  finally have "map sample (records (evictLocked (Timestamp (last ss)) b)) = map sample (records b)" .
  moreover have "length (records b) \<le> maxRecords b"
    using arg_cong [OF b, of length] by (simp only: length_map length_take_last)
  ultimately show ?thesis
    using b by (simp add: samples_def Let_def snapshot_def W_def)
qed

theorem buffer_holds_recent_window_witness:
  "(let obs = \<lambda>t. \<lparr>Timestamp = t, Replicas = 1, InflightPerRep = f1, RatePerRep = f1\<rparr>;
        b = fold add [obs 1, obs 20, obs 25, obs 30] (newBuffer [WithMaxAge 10, WithMaxRecords 2])
    in map sample (records b) = [obs 25, obs 30] \<and> length (snapshot b) \<le> 2)"
proof -
  let ?obs = "\<lambda>t :: int. \<lparr>Timestamp = t, Replicas = 1, InflightPerRep = f1, RatePerRep = f1\<rparr>"
  show ?thesis
    using buffer_holds_recent_window [of "[?obs 1, ?obs 20, ?obs 25, ?obs 30]" "[WithMaxAge 10, WithMaxRecords 2]"]
    by (simp add: take_last_def newBuffer_def)
qed

end
