(* ===== verification/HistoryCodec.thy ===== *)
theory HistoryCodec
  imports Samples
begin

text \<open>
  \<open>pkg/reconciler/agentdeploy/scaling/history/codec.go\<close>: the versioned big-endian wire
  format of a store's history.  Bytes are \<open>8 word\<close>, Go strings are character lists of one
  byte each.
\<close>

type_synonym bytes = "8 word list"

section \<open>Big-endian integers\<close>

text \<open>\<open>binary.BigEndian.PutUint16\<close>, \<open>PutUint32\<close>, \<open>PutUint64\<close>: the low \<open>n\<close> bytes of an
  integer, most significant first; \<open>Uint16\<close>, \<open>Uint32\<close>, \<open>Uint64\<close> read them back.\<close>

fun put_be :: "nat \<Rightarrow> int \<Rightarrow> bytes" where
"put_be 0 v = []" |
"put_be (Suc n) v = put_be n (v div 256) @ [word_of_int v]"

definition get_be :: "bytes \<Rightarrow> int" where
"get_be bs = foldl (\<lambda>a b. a * 256 + uint b) 0 bs"

definition bytes_of_string :: "string \<Rightarrow> bytes" where
"bytes_of_string s = map (\<lambda>c. word_of_nat (of_char c)) s"

definition string_of_bytes :: "bytes \<Rightarrow> string" where
"string_of_bytes bs = map (\<lambda>b. char_of (unat b)) bs"

section \<open>The codec\<close>

definition codecVersion :: "8 word" where
"codecVersion = 2"

definition recordSize :: nat where
"recordSize = 8 + 4 + 8 + 8 + 2"

definition versionSize :: nat where "versionSize = 1"
definition hashLenSize :: nat where "hashLenSize = 2"
definition countSize :: nat where "countSize = 4"

definition encodeRecord :: "hrecord \<Rightarrow> bytes" where
"encodeRecord r =
   put_be 8 (int64 (Timestamp (sample r))) @
   put_be 4 (uint32 (Replicas (sample r))) @
   put_be 8 (uint (fbits (InflightPerRep (sample r)))) @
   put_be 8 (uint (fbits (RatePerRep (sample r)))) @
   put_be 2 (uint (count r))"

definition encodeHistory :: "string \<Rightarrow> hrecord list \<Rightarrow> bytes" where
"encodeHistory specHash rs =
   [codecVersion] @ put_be hashLenSize (int (length specHash)) @ bytes_of_string specHash @
   put_be countSize (int (length rs)) @ concat (map encodeRecord rs)"

datatype codec_error =
    UnknownVersion "8 word"
  | TooShort nat
  | TruncatedHeader
  | BadLength nat nat nat

definition decodeRecord :: "bytes \<Rightarrow> hrecord" where
"decodeRecord b =
   \<lparr>sample = \<lparr>Timestamp = int64 (get_be (take 8 b)),
              Replicas = int32 (get_be (take 4 (drop 8 b))),
              InflightPerRep = F64 (word_of_int (get_be (take 8 (drop 12 b)))),
              RatePerRep = F64 (word_of_int (get_be (take 8 (drop 20 b))))\<rparr>,
    count = word_of_int (get_be (take 2 (drop 28 b)))\<rparr>"

fun decodeRecords :: "nat \<Rightarrow> bytes \<Rightarrow> hrecord list" where
"decodeRecords 0 b = []" |
"decodeRecords (Suc n) b = decodeRecord b # decodeRecords n (drop recordSize b)"

definition decodeHistory :: "bytes \<Rightarrow> codec_error + (string \<times> hrecord list)" where
"decodeHistory b =
   (if b = [] then Inr ([], [])
    else if hd b \<noteq> codecVersion then Inl (UnknownVersion (hd b))
    else if length b < versionSize + hashLenSize then Inl (TooShort (length b))
    else let hashLen = nat (get_be (take 2 (drop 1 b)));
             off = versionSize + hashLenSize
         in if length b < off + hashLen + countSize then Inl TruncatedHeader
            else let specHash = string_of_bytes (take hashLen (drop off b));
                     off' = off + hashLen;
                     n = nat (get_be (take 4 (drop off' b)));
                     off'' = off' + countSize;
                     want = off'' + n * recordSize
                 in if length b \<noteq> want then Inl (BadLength (length b) want n)
                    else Inr (specHash, decodeRecords n (drop off'' b)))"

section \<open>Byte-level round trips\<close>

lemma length_put_be [simp]: "length (put_be n v) = n"
  by (induction n arbitrary: v) auto

lemma get_be_append: "get_be (xs @ [b]) = get_be xs * 256 + uint b"
  by (simp add: get_be_def)

lemma get_put_be: "get_be (put_be n v) = v mod 256 ^ n"
proof (induction n arbitrary: v)
  case (Suc n)
  have "v mod 256 ^ Suc n = 256 * (v div 256 mod 256 ^ n) + v mod 256"
    by (simp add: zmod_zmult2_eq)
  then show ?case
    by (simp add: get_be_append Suc.IH uint_word_of_int)
qed (simp add: get_be_def)

lemma get_be_range: "0 \<le> get_be bs \<and> get_be bs < 256 ^ length bs"
proof (induction bs rule: rev_induct)
  case (snoc b bs)
  have "get_be bs + 1 \<le> 256 ^ length bs"
    using snoc by simp
  then have "(get_be bs + 1) * 256 \<le> 256 ^ length bs * 256"
    by (rule mult_right_mono) simp
  then show ?case
    using snoc uint_lt2p [of b] by (simp add: get_be_append)
qed (simp add: get_be_def)

lemma put_get_be: "put_be (length bs) (get_be bs) = bs"
proof (induction bs rule: rev_induct)
  case (snoc b bs)
  have "(get_be bs * 256 + uint b) div 256 = get_be bs"
    using uint_lt2p [of b] by simp
  moreover have "word_of_int (get_be bs * 256 + uint b) = b"
    using uint_lt2p [of b] by (simp add: word_uint_eq_iff uint_word_of_int del: of_int_add)
  ultimately show ?case
    using snoc by (simp add: get_be_append)
qed simp

lemma string_bytes_inverse [simp]: "string_of_bytes (bytes_of_string s) = s"
  by (simp add: string_of_bytes_def bytes_of_string_def map_idI unat_of_nat)

lemma bytes_string_inverse [simp]: "bytes_of_string (string_of_bytes bs) = bs"
proof -
  have "unat b < 256" for b :: "8 word"
    using unsigned_less [of b, where 'a = nat] by simp
  then show ?thesis
    by (simp add: string_of_bytes_def bytes_of_string_def map_idI)
qed

lemma length_string_bytes [simp]: "length (bytes_of_string s) = length s" "length (string_of_bytes bs) = length bs"
  by (simp_all add: string_of_bytes_def bytes_of_string_def)

lemma put_be_mod: "put_be n (v mod 256 ^ n) = put_be n v"
  using put_get_be [of "put_be n v"] by (simp add: get_put_be)

lemma int64_mod [simp]: "int64 x mod 2 ^ 64 = x mod 2 ^ 64"
proof -
  have "int64 x mod 2 ^ 64 = ((x + 2 ^ 63) mod 2 ^ 64 - 2 ^ 63) mod 2 ^ 64"
    by (simp add: int64_def)
  also have "\<dots> = x mod 2 ^ 64"
    unfolding mod_diff_left_eq by simp
  finally show ?thesis .
qed

lemma int32_mod [simp]: "int32 x mod 2 ^ 32 = x mod 2 ^ 32"
proof -
  have "int32 x mod 2 ^ 32 = ((x + 2 ^ 31) mod 2 ^ 32 - 2 ^ 31) mod 2 ^ 32"
    by (simp add: int32_def)
  also have "\<dots> = x mod 2 ^ 32"
    unfolding mod_diff_left_eq by simp
  finally show ?thesis .
qed

lemmas int_mods [simp] = int64_mod [simplified] int32_mod [simplified]

lemma int64_of_mod: "int64 (x mod 2 ^ 64) = int64 x"
  unfolding int64_def by (simp only: mod_add_left_eq)

lemma int32_of_mod: "int32 (x mod 2 ^ 32) = int32 x"
  unfolding int32_def by (simp only: mod_add_left_eq)

section \<open>Records\<close>

definition wf_record :: "hrecord \<Rightarrow> bool" where
"wf_record r \<longleftrightarrow> - (2 ^ 63) \<le> Timestamp (sample r) \<and> Timestamp (sample r) < 2 ^ 63 \<and>
                 - (2 ^ 31) \<le> Replicas (sample r) \<and> Replicas (sample r) < 2 ^ 31"

lemma length_encodeRecord [simp]: "length (encodeRecord r) = recordSize"
  by (simp add: encodeRecord_def recordSize_def)

lemma uint_mod [simp]:
  "uint (w :: 64 word) mod 18446744073709551616 = uint w" "uint (v :: 16 word) mod 65536 = uint v"
  using uint_lt2p [of w] uint_lt2p [of v] by simp_all

lemma decode_encodeRecord:
  assumes "wf_record r"
  shows "decodeRecord (encodeRecord r @ rest) = r"
proof -
  have "int64 (int64 (Timestamp (sample r)) mod 256 ^ 8) = Timestamp (sample r)"
    using assms int64_of_mod [of "Timestamp (sample r)"] by (simp add: wf_record_def)
  moreover have "int32 (uint32 (Replicas (sample r)) mod 256 ^ 4) = Replicas (sample r)"
    using assms int32_of_mod [of "Replicas (sample r)"] by (simp add: wf_record_def uint32_def)
  ultimately show ?thesis
    by (cases r, cases "sample r") (simp add: decodeRecord_def encodeRecord_def get_put_be)
qed

lemma get_be_take:
  assumes "m + n \<le> length b"
  shows "put_be n (get_be (take n (drop m b))) = take n (drop m b)"
    and "get_be (take n (drop m b)) mod 256 ^ n = get_be (take n (drop m b))"
proof -
  have "length (take n (drop m b)) = n"
    using assms by simp
  then show "put_be n (get_be (take n (drop m b))) = take n (drop m b)"
    and "get_be (take n (drop m b)) mod 256 ^ n = get_be (take n (drop m b))"
    using put_get_be [of "take n (drop m b)"] get_be_range [of "take n (drop m b)"]
    by (simp_all del: length_take)
qed

lemma encode_decodeRecord:
  assumes "recordSize \<le> length b"
  shows "encodeRecord (decodeRecord b) = take recordSize b"
proof -
  have b: "30 \<le> length b"
    using assms by (simp add: recordSize_def)
  have "put_be 8 (int64 (int64 (get_be (take 8 b)))) = take 8 b"
    using get_be_take(1) [of 0 8 b] put_be_mod [of 8 "int64 (int64 (get_be (take 8 b)))"]
      put_be_mod [of 8 "get_be (take 8 b)"] b by simp
  moreover have "put_be 4 (uint32 (int32 (get_be (take 4 (drop 8 b))))) = take 4 (drop 8 b)"
    using get_be_take [of 8 4 b] b by (simp add: uint32_def)
  moreover have "uint (word_of_int (get_be (take 8 (drop 12 b))) :: 64 word) = get_be (take 8 (drop 12 b))"
      "uint (word_of_int (get_be (take 8 (drop 20 b))) :: 64 word) = get_be (take 8 (drop 20 b))"
      "uint (word_of_int (get_be (take 2 (drop 28 b))) :: 16 word) = get_be (take 2 (drop 28 b))"
    using get_be_take(2) [of 12 8 b] get_be_take(2) [of 20 8 b] get_be_take(2) [of 28 2 b] b
    by (simp_all add: uint_word_of_int)
  moreover have "take 30 b = take 8 b @ take 4 (drop 8 b) @ take 8 (drop 12 b) @ take 8 (drop 20 b) @ take 2 (drop 28 b)"
    using take_add [of 8 22 b] take_add [of 4 18 "drop 8 b"] take_add [of 8 10 "drop 12 b"] take_add [of 8 2 "drop 20 b"]
    by simp
  ultimately show ?thesis
    using get_be_take(1) [of 12 8 b] get_be_take(1) [of 20 8 b] get_be_take(1) [of 28 2 b] b
    by (simp add: encodeRecord_def decodeRecord_def recordSize_def)
qed

lemma decodeRecords_encode:
  assumes "\<And>r. r \<in> set rs \<Longrightarrow> wf_record r"
  shows "decodeRecords (length rs) (concat (map encodeRecord rs)) = rs"
  using assms by (induction rs) (simp_all add: decode_encodeRecord)

lemma encode_decodeRecords:
  assumes "length b = n * recordSize"
  shows "concat (map encodeRecord (decodeRecords n b)) = b"
  using assms
proof (induction n arbitrary: b)
  case (Suc n)
  then show ?case
    by (simp add: encode_decodeRecord)
qed simp

lemma length_decodeRecords [simp]: "length (decodeRecords n b) = n"
  by (induction n arbitrary: b) simp_all

lemma decodeRecords_wf: "r \<in> set (decodeRecords n b) \<Longrightarrow> wf_record r"
proof (induction n arbitrary: b)
  case (Suc n)
  have "- (2 ^ 63) \<le> int64 x" "int64 x < 2 ^ 63" for x
    using pos_mod_bound [of "2 ^ 64" "x + 2 ^ 63"] pos_mod_sign [of "2 ^ 64" "x + 2 ^ 63"]
    unfolding int64_def by simp_all
  then show ?case
    using Suc int32_bounds by (auto simp: decodeRecord_def wf_record_def)
qed simp

section \<open>Properties\<close>

lemma decode_encode:
  assumes "length specHash < 2 ^ 16" "length rs < 2 ^ 32" "\<And>r. r \<in> set rs \<Longrightarrow> wf_record r"
  shows "decodeHistory (encodeHistory specHash rs) = Inr (specHash, rs)"
proof -
  define a tl where "a = codecVersion # put_be 2 (int (length specHash))" and "tl = concat (map encodeRecord rs)"
  have enc: "encodeHistory specHash rs = a @ bytes_of_string specHash @ put_be 4 (int (length rs)) @ tl"
    by (simp add: encodeHistory_def a_def tl_def hashLenSize_def countSize_def)
  have a: "length a = 3" "hd (a @ xs) = codecVersion" "take 2 (drop 1 (a @ xs)) = put_be 2 (int (length specHash))"
      "a @ xs \<noteq> []" for xs
    by (simp_all add: a_def)
  have len: "length tl = length rs * recordSize"
    by (simp add: tl_def length_concat comp_def sum_list_triv)
  have hl: "nat (int (length specHash) mod 256 ^ 2) = length specHash"
    using assms(1) by (simp add: nat_mod_distrib)
  have cl: "nat (int (length rs) mod 256 ^ 4) = length rs"
    using assms(2) by (simp add: nat_mod_distrib)
  show ?thesis
    unfolding decodeHistory_def enc a Let_def get_put_be hl
    using cl len decodeRecords_encode [OF assms(3)] a(4) [of "[]"]
    by (simp add: versionSize_def hashLenSize_def countSize_def get_put_be a(1) tl_def)
qed

text \<open>C18: every history whose hash and record count fit their length fields, with time stamps and
  replica counts in the range of their Go types, decodes to itself.\<close>

theorem decode_encode_history:
  assumes "length specHash < 2 ^ 16" "length rs < 2 ^ 32" "\<And>r. r \<in> set rs \<Longrightarrow> wf_record r"
  shows "decodeHistory (encodeHistory specHash rs) = Inr (specHash, rs)"
  using assms by (rule decode_encode)

theorem decode_encode_history_witness:
  "decodeHistory (encodeHistory ''ab12'' [\<lparr>sample = \<lparr>Timestamp = 5 * second, Replicas = 3,
      InflightPerRep = f1, RatePerRep = F64 7\<rparr>, count = 1\<rparr>]) =
   Inr (''ab12'', [\<lparr>sample = \<lparr>Timestamp = 5 * second, Replicas = 3,
      InflightPerRep = f1, RatePerRep = F64 7\<rparr>, count = 1\<rparr>])"
  by (rule decode_encode_history) (simp_all add: wf_record_def second_def)

lemma decode_nonempty:
  assumes "b \<noteq> []" "decodeHistory b = Inr (specHash, rs)"
  shows "encodeHistory specHash rs = b \<and> length b = 7 + length specHash + length rs * recordSize"
proof -
  define hl where "hl = nat (get_be (take 2 (drop 1 b)))"
  define off where "off = versionSize + hashLenSize + hl"
  define n where "n = nat (get_be (take 4 (drop off b)))"
  have d0: "hd b = codecVersion \<and> \<not> length b < off + countSize \<and> length b = off + countSize + n * recordSize \<and>
      specHash = string_of_bytes (take hl (drop (versionSize + hashLenSize) b)) \<and>
      rs = decodeRecords n (drop (off + countSize) b)"
    using assms unfolding decodeHistory_def Let_def hl_def [symmetric] off_def [symmetric] n_def [symmetric]
    by (simp split: if_split_asm)
  have off: "off = 3 + hl"
    by (simp add: off_def versionSize_def hashLenSize_def)
  have d: "hd b = codecVersion" "3 + hl + 4 \<le> length b" "length b = 3 + hl + 4 + n * recordSize"
      "specHash = string_of_bytes (take hl (drop 3 b))" "rs = decodeRecords n (drop (3 + hl + 4) b)"
    using d0 by (simp_all add: off countSize_def versionSize_def hashLenSize_def numeral_3_eq_3)
  have len: "length specHash = hl" "length rs = n"
    using d by simp_all
  have "int hl = get_be (take 2 (drop 1 b))" "int n = get_be (take 4 (drop (3 + hl) b))"
    using get_be_range by (simp_all add: hl_def n_def off [unfolded hl_def])
  then have fields: "put_be 2 (int hl) = take 2 (drop 1 b)" "put_be 4 (int n) = take 4 (drop (3 + hl) b)"
    using get_be_take(1) [of 1 2 b] get_be_take(1) [of "3 + hl" 4 b] d by simp_all
  have body: "concat (map encodeRecord rs) = drop (3 + hl + 4) b"
    unfolding d(5) using d by (intro encode_decodeRecords) simp
  have hash: "bytes_of_string specHash = take hl (drop 3 b)"
    by (simp add: d(4))
  have split: "take k (drop m b) @ drop (m + k) b = drop m b" for k m
    by (metis append_take_drop_id drop_drop add.commute)
  have s3: "take 2 (drop 1 b) @ drop 3 b = drop 1 b"
    using split [of 2 1] by (simp add: numeral_3_eq_3)
  have "encodeHistory specHash rs =
      codecVersion # take 2 (drop 1 b) @ take hl (drop 3 b) @ take 4 (drop (3 + hl) b) @ drop (3 + hl + 4) b"
    by (simp only: encodeHistory_def len hashLenSize_def countSize_def fields body hash
        append.simps)
  also have "\<dots> = codecVersion # drop 1 b"
    by (simp only: split s3)
  also have "\<dots> = b"
    using assms(1) d(1) by (cases b) simp_all
  finally show ?thesis
    using d(3) len by (simp only:) simp
qed

text \<open>C17: a blob is accepted only when it is empty, which decodes to no hash and no records, or is,
  byte for byte, the encoding of what it decodes to: a wrong version, a truncation or trailing bytes
  are always rejected.\<close>

theorem decode_accepts_only_encodings:
  assumes "decodeHistory b = Inr (specHash, rs)"
  shows "b = [] \<and> specHash = [] \<and> rs = [] \<or>
         encodeHistory specHash rs = b \<and> length b = 7 + length specHash + length rs * recordSize"
proof (cases "b = []")
  case True
  then show ?thesis
    using assms by (simp add: decodeHistory_def)
next
  case False
  then show ?thesis
    using decode_nonempty [OF _ assms] by simp
qed

theorem decode_accepts_only_encodings_witness:
  "(let b = encodeHistory ''k'' [] in decodeHistory b = Inr (''k'', []) \<and> length b = 8 \<and>
      encodeHistory ''k'' [] = b \<and> decodeHistory (b @ [0]) = Inl (BadLength 9 8 0)) \<and>
   decodeHistory [] = Inr ([], [])"
proof -
  have dec: "decodeHistory (encodeHistory ''k'' []) = Inr (''k'', [])"
    "decodeHistory (encodeHistory ''k'' [] @ [0]) = Inl (BadLength 9 8 0)" "decodeHistory [] = Inr ([], [])"
    by code_simp+
  then show ?thesis
    using decode_accepts_only_encodings [OF dec(1)] by (simp add: Let_def)
qed

end
