(* ===== verification/ApiTypes.thy ===== *)
theory ApiTypes
  imports Prelude "HOL-Library.Finite_Map" "HOL-Library.Char_ord" "HOL-Library.List_Lexorder"
begin

text \<open>
  The data of \<open>pkg/apis/kynomesh/v1alpha1\<close> and the Kubernetes objects the controllers
  render.  Go structs are records with a prefix per type on the field names, string
  enumerations are datatypes with a constructor for every other string, Go maps are finite
  maps, pointers are options.  Kubernetes values the program only copies (affinities,
  tolerations, security contexts, ...) are opaque tokens of type \<open>k8s_value\<close>.
\<close>

type_synonym k8s_value = string
type_synonym labels = "(string, string) fmap"

section \<open>Iteration over maps\<close>

text \<open>
  Go iterates over a map in no fixed order: where the order can matter, it is an argument, under
  the contract that it lists every key once.
\<close>

locale map_order =
  fixes ord :: "'k fset \<Rightarrow> 'k list"
  assumes ord_set: "set (ord S) = fset S"
    and ord_distinct: "distinct (ord S)"

interpretation sorted_order: map_order sorted_list_of_fset
  by unfold_locales (simp_all add: sorted_list_of_fset.rep_eq)

section \<open>Constants\<close>

definition Project :: string where "Project = ''kynomesh''"
definition KeyComponent :: string where "KeyComponent = ''app.kubernetes.io/component''"
definition KeyPartOf :: string where "KeyPartOf = ''app.kubernetes.io/part-of''"
definition KeyManagedBy :: string where "KeyManagedBy = ''app.kubernetes.io/managed-by''"
definition KeyAppName :: string where "KeyAppName = ''app.kubernetes.io/name''"
definition KeyHash :: string where "KeyHash = ''kynomesh.kyno.sh/hash''"
definition KeyAgentSetName :: string where "KeyAgentSetName = ''kynomesh.kyno.sh/agentset-name''"
definition KeyAgentDeployName :: string where "KeyAgentDeployName = ''kynomesh.kyno.sh/agentdeploy-name''"
definition KeyReplica :: string where "KeyReplica = ''kynomesh.kyno.sh/replica''"
definition KeyServing :: string where "KeyServing = ''kynomesh.kyno.sh/serving''"
definition KeyEntry :: string where "KeyEntry = ''kynomesh.kyno.sh/entry''"
definition KeyServiceKind :: string where "KeyServiceKind = ''kynomesh.kyno.sh/service-kind''"
definition KeyDefaultContainer :: string where "KeyDefaultContainer = ''kubectl.kubernetes.io/default-container''"

definition EnvNamespace :: string where "EnvNamespace = ''NAMESPACE''"
definition EnvPodName :: string where "EnvPodName = ''POD_NAME''"
definition EnvAgentSetName :: string where "EnvAgentSetName = ''KYNOMESH_AGENTSET_NAME''"
definition EnvAgentDeployName :: string where "EnvAgentDeployName = ''KYNOMESH_AGENTDEPLOY_NAME''"
definition EnvAgentDeployObject :: string where "EnvAgentDeployObject = ''KYNOMESH_AGENTDEPLOY_OBJECT''"
definition EnvAgentSetObject :: string where "EnvAgentSetObject = ''KYNOMESH_AGENTSET_OBJECT''"
definition EnvTerminationGraceSeconds :: string where
"EnvTerminationGraceSeconds = ''KYNOMESH_TERMINATION_GRACE_SECONDS''"

definition ContainerNameAgent :: string where "ContainerNameAgent = ''agent''"
definition ContainerNameAgentBroker :: string where "ContainerNameAgentBroker = ''broker''"
definition ContainerNameDaemon :: string where "ContainerNameDaemon = ''daemon''"
definition ContainerNameInitRuntime :: string where "ContainerNameInitRuntime = ''init-runtime''"
definition ComponentAgent :: string where "ComponentAgent = ''agent''"
definition ComponentDaemon :: string where "ComponentDaemon = ''daemon''"
definition ServiceKindHeadless :: string where "ServiceKindHeadless = ''headless''"
definition ServiceKindClusterIP :: string where "ServiceKindClusterIP = ''clusterip''"
definition ControllerAgentDeploy :: string where "ControllerAgentDeploy = ''agentdeploy-controller''"
definition ControllerAgentSet :: string where "ControllerAgentSet = ''agentset-controller''"

definition AgentBrokerPort :: int where "AgentBrokerPort = 8490"
definition AgentBrokerIntrospectionPort :: int where "AgentBrokerIntrospectionPort = 8491"
definition DefaultTerminationGracePeriodSeconds :: int where "DefaultTerminationGracePeriodSeconds = 120"
definition DaemonAPIPort :: int where "DaemonAPIPort = 9432"
definition DaemonMetricsPort :: int where "DaemonMetricsPort = 9433"

definition VolumeNameKynomeshRun :: string where "VolumeNameKynomeshRun = ''kynomesh-run''"
definition KynomeshRunPath :: string where "KynomeshRunPath = ''/var/run/kynomesh''"
definition BrokerHTTPSocketPath :: string where "BrokerHTTPSocketPath = KynomeshRunPath @ ''/broker-http.sock''"
definition BrokerGRPCSocketPath :: string where "BrokerGRPCSocketPath = KynomeshRunPath @ ''/broker-grpc.sock''"
definition ProbeBinaryPath :: string where "ProbeBinaryPath = KynomeshRunPath @ ''/bin/kynoprobe''"
definition KynomeshBinaryPath :: string where "KynomeshBinaryPath = ''/bin/kynomesh''"

definition DefaultMinReplicas :: int where "DefaultMinReplicas = 1"
definition DefaultMaxReplicas :: int where "DefaultMaxReplicas = 50"
definition DefaultScaleUpCooldownSeconds :: int where "DefaultScaleUpCooldownSeconds = 90"
definition DefaultScaleDownCooldownSeconds :: int where "DefaultScaleDownCooldownSeconds = 90"
definition DefaultReplicasPerScaleUp :: int where "DefaultReplicasPerScaleUp = 2"
definition DefaultReplicasPerScaleDown :: int where "DefaultReplicasPerScaleDown = 2"
definition DefaultTargetSaturationPercentage :: int where "DefaultTargetSaturationPercentage = 80"

section \<open>Kubernetes objects\<close>

record OwnerReference =
  or_APIVersion :: string
  or_Kind :: string
  or_Name :: string
  or_UID :: string
  or_Controller :: "bool option"
  or_BlockOwnerDeletion :: "bool option"

text \<open>The reference \<open>metav1.NewControllerRef\<close> is documented to build, for the examples.\<close>

definition controller_ref :: "string \<Rightarrow> string \<Rightarrow> string \<Rightarrow> OwnerReference" where
"controller_ref kind n uid =
   \<lparr>or_APIVersion = ''kynomesh.kyno.sh/v1alpha1'', or_Kind = kind, or_Name = n, or_UID = uid,
    or_Controller = Some True, or_BlockOwnerDeletion = Some True\<rparr>"

record ObjectMeta =
  om_Namespace :: string
  om_Name :: string
  om_UID :: string
  om_Generation :: int
  om_Labels :: labels
  om_Annotations :: labels
  om_OwnerReferences :: "OwnerReference list"
  om_DeletionTimestamp :: "nanos option"

definition new_meta :: "string \<Rightarrow> string \<Rightarrow> ObjectMeta" where
"new_meta ns n = \<lparr>om_Namespace = ns, om_Name = n, om_UID = [], om_Generation = 0, om_Labels = fmempty,
   om_Annotations = fmempty, om_OwnerReferences = [], om_DeletionTimestamp = None\<rparr>"

datatype EnvVarSource = FieldRef string | OtherSource k8s_value

record EnvVar =
  ev_Name :: string
  ev_Value :: string
  ev_ValueFrom :: "EnvVarSource option"

record ResourceClaim =
  rc_Name :: string
  rc_Request :: string

record ResourceRequirements =
  rr_Requests :: "(string, k8s_value) fmap"
  rr_Limits :: "(string, k8s_value) fmap"
  rr_Claims :: "ResourceClaim list"

record VolumeMount =
  vm_Name :: string
  vm_MountPath :: string

datatype VolumeSource = EmptyDirMemory | OtherVolumeSource k8s_value

record Volume =
  vol_Name :: string
  vol_Source :: VolumeSource

record ContainerPort =
  cp_Name :: string
  cp_ContainerPort :: int
  cp_Protocol :: string

datatype ProbeHandler = ExecAction "string list" | HTTPGetAction string string string

record CoreProbe =
  pr_Handler :: ProbeHandler
  pr_InitialDelaySeconds :: int
  pr_PeriodSeconds :: int
  pr_TimeoutSeconds :: int
  pr_FailureThreshold :: int
  pr_SuccessThreshold :: int

record CoreContainer =
  c_Name :: string
  c_Image :: string
  c_Command :: "string list"
  c_Args :: "string list"
  c_Env :: "EnvVar list"
  c_EnvFrom :: "k8s_value list"
  c_VolumeMounts :: "VolumeMount list"
  c_Resources :: ResourceRequirements
  c_SecurityContext :: "k8s_value option"
  c_ImagePullPolicy :: string
  c_Ports :: "ContainerPort list"
  c_ReadinessProbe :: "CoreProbe option"
  c_LivenessProbe :: "CoreProbe option"
  c_StartupProbe :: "CoreProbe option"
  c_PreStop :: "string list option"
  c_RestartPolicy :: "string option"

definition no_resources :: ResourceRequirements where
"no_resources = \<lparr>rr_Requests = fmempty, rr_Limits = fmempty, rr_Claims = []\<rparr>"

definition new_container :: "string \<Rightarrow> CoreContainer" where
"new_container n = \<lparr>c_Name = n, c_Image = [], c_Command = [], c_Args = [], c_Env = [], c_EnvFrom = [],
   c_VolumeMounts = [], c_Resources = no_resources, c_SecurityContext = None, c_ImagePullPolicy = [],
   c_Ports = [], c_ReadinessProbe = None, c_LivenessProbe = None, c_StartupProbe = None,
   c_PreStop = None, c_RestartPolicy = None\<rparr>"

section \<open>Metadata, templates, probes, scaling\<close>

record Metadata =
  md_Annotations :: labels
  md_Labels :: labels

record AbstractPodTemplate =
  apt_Metadata :: "Metadata option"
  apt_NodeSelector :: labels
  apt_Tolerations :: "k8s_value list"
  apt_SecurityContext :: "k8s_value option"
  apt_ImagePullSecrets :: "k8s_value list"
  apt_PriorityClassName :: string
  apt_Priority :: "int option"
  apt_Affinity :: "k8s_value option"
  apt_ServiceAccountName :: string
  apt_RuntimeClassName :: "string option"
  apt_AutomountServiceAccountToken :: "bool option"
  apt_DNSPolicy :: string
  apt_DNSConfig :: "k8s_value option"
  apt_ResourceClaims :: "k8s_value list"
  apt_TerminationGracePeriodSeconds :: "int option"

definition empty_pod_template :: AbstractPodTemplate where
"empty_pod_template = \<lparr>apt_Metadata = None, apt_NodeSelector = fmempty, apt_Tolerations = [],
   apt_SecurityContext = None, apt_ImagePullSecrets = [], apt_PriorityClassName = [], apt_Priority = None,
   apt_Affinity = None, apt_ServiceAccountName = [], apt_RuntimeClassName = None,
   apt_AutomountServiceAccountToken = None, apt_DNSPolicy = [], apt_DNSConfig = None,
   apt_ResourceClaims = [], apt_TerminationGracePeriodSeconds = None\<rparr>"

record ContainerTemplate =
  ct_Resources :: ResourceRequirements
  ct_ImagePullPolicy :: string
  ct_SecurityContext :: "k8s_value option"
  ct_Env :: "EnvVar list"
  ct_EnvFrom :: "k8s_value list"

record Probe =
  p_InitialDelaySeconds :: "int option"
  p_TimeoutSeconds :: "int option"
  p_PeriodSeconds :: "int option"
  p_SuccessThreshold :: "int option"
  p_FailureThreshold :: "int option"

definition GetProbeInitialDelaySecondsOr :: "Probe option \<Rightarrow> int \<Rightarrow> int" where
"GetProbeInitialDelaySecondsOr probe d =
   (case probe of None \<Rightarrow> d | Some p \<Rightarrow> (case p_InitialDelaySeconds p of None \<Rightarrow> d | Some v \<Rightarrow> v))"

definition GetProbeTimeoutSecondsOr :: "Probe option \<Rightarrow> int \<Rightarrow> int" where
"GetProbeTimeoutSecondsOr probe d =
   (case probe of None \<Rightarrow> d | Some p \<Rightarrow> (case p_TimeoutSeconds p of None \<Rightarrow> d | Some v \<Rightarrow> v))"

definition GetProbePeriodSecondsOr :: "Probe option \<Rightarrow> int \<Rightarrow> int" where
"GetProbePeriodSecondsOr probe d =
   (case probe of None \<Rightarrow> d | Some p \<Rightarrow> (case p_PeriodSeconds p of None \<Rightarrow> d | Some v \<Rightarrow> v))"

definition GetProbeSuccessThresholdOr :: "Probe option \<Rightarrow> int \<Rightarrow> int" where
"GetProbeSuccessThresholdOr probe d =
   (case probe of None \<Rightarrow> d | Some p \<Rightarrow> (case p_SuccessThreshold p of None \<Rightarrow> d | Some v \<Rightarrow> v))"

definition GetProbeFailureThresholdOr :: "Probe option \<Rightarrow> int \<Rightarrow> int" where
"GetProbeFailureThresholdOr probe d =
   (case probe of None \<Rightarrow> d | Some p \<Rightarrow> (case p_FailureThreshold p of None \<Rightarrow> d | Some v \<Rightarrow> v))"

text \<open>\<open>kmv1.Container\<close>, the user's agent container.\<close>

record AgentContainer =
  uc_Image :: string
  uc_Command :: "string list"
  uc_Args :: "string list"
  uc_Env :: "EnvVar list"
  uc_EnvFrom :: "k8s_value list"
  uc_VolumeMounts :: "VolumeMount list"
  uc_Resources :: ResourceRequirements
  uc_SecurityContext :: "k8s_value option"
  uc_ImagePullPolicy :: "string option"
  uc_ReadinessProbe :: "Probe option"
  uc_LivenessProbe :: "Probe option"
  uc_StartupProbe :: "Probe option"
  uc_Ports :: "ContainerPort list"

record Scale =
  sc_Disabled :: bool
  sc_Min :: "int option"
  sc_Max :: "int option"
  sc_TargetSaturationPercentage :: "int option"
  sc_ScaleUpCooldownSeconds :: "int option"
  sc_ScaleDownCooldownSeconds :: "int option"
  sc_ReplicasPerScaleUp :: "int option"
  sc_ReplicasPerScaleDown :: "int option"

definition zero_scale :: Scale where
"zero_scale = \<lparr>sc_Disabled = False, sc_Min = None, sc_Max = None, sc_TargetSaturationPercentage = None,
   sc_ScaleUpCooldownSeconds = None, sc_ScaleDownCooldownSeconds = None,
   sc_ReplicasPerScaleUp = None, sc_ReplicasPerScaleDown = None\<rparr>"

record RateLimit =
  rl_MaxInFlight :: "int option"

record DriftReload =
  dr_Enabled :: "bool option"

definition IsEnabled :: "DriftReload option \<Rightarrow> bool" where
"IsEnabled d = (case d of None \<Rightarrow> False | Some r \<Rightarrow> (case dr_Enabled r of None \<Rightarrow> False | Some b \<Rightarrow> b))"

datatype IntOrString = IntVal int | StrVal string

record RollingUpdateStrategy =
  rus_MaxUnavailable :: "IntOrString option"

record UpdateStrategy =
  us_Type :: string
  us_RollingUpdate :: "RollingUpdateStrategy option"

definition RollingUpdateStrategyType :: string where
"RollingUpdateStrategyType = ''RollingUpdate''"

definition GetUpdateStrategyType :: "UpdateStrategy \<Rightarrow> string" where
"GetUpdateStrategyType us =
   (if us_Type us = RollingUpdateStrategyType then us_Type us else RollingUpdateStrategyType)"

definition GetRollingUpdateStrategy :: "UpdateStrategy \<Rightarrow> RollingUpdateStrategy" where
"GetRollingUpdateStrategy us =
   (case us_RollingUpdate us of None \<Rightarrow> \<lparr>rus_MaxUnavailable = None\<rparr> | Some r \<Rightarrow> r)"

definition GetMaxUnavailable :: "RollingUpdateStrategy \<Rightarrow> IntOrString" where
"GetMaxUnavailable rus =
   (case rus_MaxUnavailable rus of None \<Rightarrow> StrVal ''25%'' | Some m \<Rightarrow> m)"

end
