(* ===== verification/Templates.thy ===== *)
theory Templates
  imports ApiTypes
begin

text \<open>
  \<open>container_template.go\<close> and \<open>pod_template.go\<close>: how container and pod templates are applied
  to rendered containers and pods, and how one template supplies defaults for another.
  The Go methods update their receiver; here they return it.
\<close>

section \<open>Fill-if-unset\<close>

text \<open>The Go idiom \<open>if x is empty { x = y }\<close>, for slices and strings, maps and pointers.\<close>

definition or_list :: "'a list \<Rightarrow> 'a list \<Rightarrow> 'a list" where
"or_list x y = (if x = [] then y else x)"

definition or_map :: "('a, 'b) fmap \<Rightarrow> ('a, 'b) fmap \<Rightarrow> ('a, 'b) fmap" where
"or_map x y = (if x = fmempty then y else x)"

definition or_opt :: "'a option \<Rightarrow> 'a option \<Rightarrow> 'a option" where
"or_opt x y = (case x of None \<Rightarrow> y | Some _ \<Rightarrow> x)"

section \<open>Container templates\<close>

definition mergeResourceDefaults :: "(string, 'v) fmap \<Rightarrow> (string, 'v) fmap \<Rightarrow> (string, 'v) fmap" where
"mergeResourceDefaults own defaults = (if defaults = fmempty then own else defaults ++\<^sub>f own)"

definition mergeEnvDefaults :: "EnvVar list \<Rightarrow> EnvVar list \<Rightarrow> EnvVar list" where
"mergeEnvDefaults own defaults =
   (if defaults = [] then own
    else own @ filter (\<lambda>e. ev_Name e \<notin> ev_Name ` set own) defaults)"

definition mergeResourceList :: "(string, 'v) fmap \<Rightarrow> (string, 'v) fmap \<Rightarrow> (string, 'v) fmap" where
"mergeResourceList base override = (if override = fmempty then base else base ++\<^sub>f override)"

definition mergeResourceClaims :: "ResourceClaim list \<Rightarrow> ResourceClaim list \<Rightarrow> ResourceClaim list" where
"mergeResourceClaims own other =
   (if other = [] then own
    else own @ filter (\<lambda>c. rc_Name c \<notin> rc_Name ` set own) other)"

definition ApplyToContainer :: "ContainerTemplate \<Rightarrow> CoreContainer \<Rightarrow> CoreContainer" where
"ApplyToContainer ct c =
   c\<lparr>c_Resources :=
       \<lparr>rr_Requests = mergeResourceList (rr_Requests (c_Resources c)) (rr_Requests (ct_Resources ct)),
        rr_Limits = mergeResourceList (rr_Limits (c_Resources c)) (rr_Limits (ct_Resources ct)),
        rr_Claims = mergeResourceClaims (rr_Claims (c_Resources c)) (rr_Claims (ct_Resources ct))\<rparr>,
     c_SecurityContext := ct_SecurityContext ct,
     c_ImagePullPolicy := (if c_ImagePullPolicy c = [] then ct_ImagePullPolicy ct else c_ImagePullPolicy c),
     c_Env := (if ct_Env ct \<noteq> [] then c_Env c @ ct_Env ct else c_Env c),
     c_EnvFrom := (if ct_EnvFrom ct \<noteq> [] then c_EnvFrom c @ ct_EnvFrom ct else c_EnvFrom c)\<rparr>"

definition ApplyDefaultResourcesIfMissing :: "ResourceRequirements \<Rightarrow> CoreContainer \<Rightarrow> CoreContainer" where
"ApplyDefaultResourcesIfMissing defaults c =
   (if rr_Requests (c_Resources c) \<noteq> fmempty \<or> rr_Limits (c_Resources c) \<noteq> fmempty then c
    else c\<lparr>c_Resources := defaults\<rparr>)"

definition ContainerTemplate_ApplyDefaultsFrom ::
  "ContainerTemplate \<Rightarrow> ContainerTemplate option \<Rightarrow> ContainerTemplate" where
"ContainerTemplate_ApplyDefaultsFrom ct other =
   (case other of
      None \<Rightarrow> ct
    | Some d \<Rightarrow>
        ct\<lparr>ct_Resources :=
             \<lparr>rr_Requests = mergeResourceDefaults (rr_Requests (ct_Resources ct)) (rr_Requests (ct_Resources d)),
              rr_Limits = mergeResourceDefaults (rr_Limits (ct_Resources ct)) (rr_Limits (ct_Resources d)),
              rr_Claims = mergeResourceClaims (rr_Claims (ct_Resources ct)) (rr_Claims (ct_Resources d))\<rparr>,
           ct_ImagePullPolicy := or_list (ct_ImagePullPolicy ct) (ct_ImagePullPolicy d),
           ct_SecurityContext := or_opt (ct_SecurityContext ct) (ct_SecurityContext d),
           ct_Env := mergeEnvDefaults (ct_Env ct) (ct_Env d),
           ct_EnvFrom := or_list (ct_EnvFrom ct) (ct_EnvFrom d)\<rparr>)"

section \<open>Pod templates\<close>

record PodSpec =
  ps_Containers :: "CoreContainer list"
  ps_InitContainers :: "CoreContainer list"
  ps_Volumes :: "Volume list"
  ps_Hostname :: string
  ps_Subdomain :: string
  ps_NodeSelector :: labels
  ps_Tolerations :: "k8s_value list"
  ps_SecurityContext :: "k8s_value option"
  ps_ImagePullSecrets :: "k8s_value list"
  ps_PriorityClassName :: string
  ps_Priority :: "int option"
  ps_Affinity :: "k8s_value option"
  ps_ServiceAccountName :: string
  ps_RuntimeClassName :: "string option"
  ps_AutomountServiceAccountToken :: "bool option"
  ps_DNSPolicy :: string
  ps_DNSConfig :: "k8s_value option"
  ps_ResourceClaims :: "k8s_value list"
  ps_TerminationGracePeriodSeconds :: "int option"

record PodTemplateSpec =
  pts_Labels :: labels
  pts_Annotations :: labels
  pts_Spec :: PodSpec

definition new_pod_spec :: PodSpec where
"new_pod_spec = \<lparr>ps_Containers = [], ps_InitContainers = [], ps_Volumes = [], ps_Hostname = [], ps_Subdomain = [],
   ps_NodeSelector = fmempty, ps_Tolerations = [], ps_SecurityContext = None, ps_ImagePullSecrets = [],
   ps_PriorityClassName = [], ps_Priority = None, ps_Affinity = None, ps_ServiceAccountName = [],
   ps_RuntimeClassName = None, ps_AutomountServiceAccountToken = None, ps_DNSPolicy = [],
   ps_DNSConfig = None, ps_ResourceClaims = [], ps_TerminationGracePeriodSeconds = None\<rparr>"

definition ApplyToPodSpec :: "AbstractPodTemplate \<Rightarrow> PodSpec \<Rightarrow> PodSpec" where
"ApplyToPodSpec apt ps =
   ps\<lparr>ps_NodeSelector := or_map (ps_NodeSelector ps) (apt_NodeSelector apt),
      ps_Tolerations := or_list (ps_Tolerations ps) (apt_Tolerations apt),
      ps_SecurityContext := or_opt (ps_SecurityContext ps) (apt_SecurityContext apt),
      ps_ImagePullSecrets := or_list (ps_ImagePullSecrets ps) (apt_ImagePullSecrets apt),
      ps_PriorityClassName := or_list (ps_PriorityClassName ps) (apt_PriorityClassName apt),
      ps_Priority := or_opt (ps_Priority ps) (apt_Priority apt),
      ps_Affinity := or_opt (ps_Affinity ps) (apt_Affinity apt),
      ps_ServiceAccountName := or_list (ps_ServiceAccountName ps) (apt_ServiceAccountName apt),
      ps_RuntimeClassName := or_opt (ps_RuntimeClassName ps) (apt_RuntimeClassName apt),
      ps_AutomountServiceAccountToken :=
        or_opt (ps_AutomountServiceAccountToken ps) (apt_AutomountServiceAccountToken apt),
      ps_DNSPolicy := or_list (ps_DNSPolicy ps) (apt_DNSPolicy apt),
      ps_DNSConfig := or_opt (ps_DNSConfig ps) (apt_DNSConfig apt),
      ps_ResourceClaims := or_list (ps_ResourceClaims ps) (apt_ResourceClaims apt),
      ps_TerminationGracePeriodSeconds :=
        or_opt (ps_TerminationGracePeriodSeconds ps) (apt_TerminationGracePeriodSeconds apt)\<rparr>"

definition mergeStringMapDefaults :: "labels \<Rightarrow> labels \<Rightarrow> labels" where
"mergeStringMapDefaults own defaults = (if defaults = fmempty then own else defaults ++\<^sub>f own)"

definition mergeMetadataDefaults :: "Metadata option \<Rightarrow> Metadata option \<Rightarrow> Metadata option" where
"mergeMetadataDefaults own defaults =
   (case defaults of
      None \<Rightarrow> own
    | Some d \<Rightarrow>
        let o' = (case own of None \<Rightarrow> \<lparr>md_Annotations = fmempty, md_Labels = fmempty\<rparr> | Some m \<Rightarrow> m);
            ls = mergeStringMapDefaults (md_Labels o') (md_Labels d);
            as = mergeStringMapDefaults (md_Annotations o') (md_Annotations d)
        in if ls = fmempty \<and> as = fmempty then None
           else Some (o'\<lparr>md_Labels := ls, md_Annotations := as\<rparr>))"

definition PodTemplate_ApplyDefaultsFrom ::
  "AbstractPodTemplate \<Rightarrow> AbstractPodTemplate option \<Rightarrow> AbstractPodTemplate" where
"PodTemplate_ApplyDefaultsFrom apt other =
   (case other of
      None \<Rightarrow> apt
    | Some d \<Rightarrow>
        apt\<lparr>apt_NodeSelector := or_map (apt_NodeSelector apt) (apt_NodeSelector d),
            apt_Tolerations := or_list (apt_Tolerations apt) (apt_Tolerations d),
            apt_SecurityContext := or_opt (apt_SecurityContext apt) (apt_SecurityContext d),
            apt_ImagePullSecrets := or_list (apt_ImagePullSecrets apt) (apt_ImagePullSecrets d),
            apt_PriorityClassName := or_list (apt_PriorityClassName apt) (apt_PriorityClassName d),
            apt_Priority := or_opt (apt_Priority apt) (apt_Priority d),
            apt_Affinity := or_opt (apt_Affinity apt) (apt_Affinity d),
            apt_ServiceAccountName := or_list (apt_ServiceAccountName apt) (apt_ServiceAccountName d),
            apt_RuntimeClassName := or_opt (apt_RuntimeClassName apt) (apt_RuntimeClassName d),
            apt_AutomountServiceAccountToken :=
              or_opt (apt_AutomountServiceAccountToken apt) (apt_AutomountServiceAccountToken d),
            apt_DNSPolicy := or_list (apt_DNSPolicy apt) (apt_DNSPolicy d),
            apt_DNSConfig := or_opt (apt_DNSConfig apt) (apt_DNSConfig d),
            apt_ResourceClaims := or_list (apt_ResourceClaims apt) (apt_ResourceClaims d),
            apt_TerminationGracePeriodSeconds :=
              or_opt (apt_TerminationGracePeriodSeconds apt) (apt_TerminationGracePeriodSeconds d),
            apt_Metadata := mergeMetadataDefaults (apt_Metadata apt) (apt_Metadata d)\<rparr>)"

definition ApplyToPodTemplateSpec :: "AbstractPodTemplate \<Rightarrow> PodTemplateSpec \<Rightarrow> PodTemplateSpec" where
"ApplyToPodTemplateSpec apt p =
   (let p1 = p\<lparr>pts_Spec := ApplyToPodSpec apt (pts_Spec p)\<rparr>;
        p2 = (case apt_Metadata apt of
                None \<Rightarrow> p1
              | Some m \<Rightarrow> if md_Labels m = fmempty then p1
                          else p1\<lparr>pts_Labels := md_Labels m ++\<^sub>f pts_Labels p1\<rparr>)
    in case apt_Metadata apt of
         None \<Rightarrow> p2
       | Some m \<Rightarrow> if md_Annotations m = fmempty then p2
                   else p2\<lparr>pts_Annotations := md_Annotations m ++\<^sub>f pts_Annotations p2\<rparr>)"

section \<open>Merging laws\<close>

text \<open>Two-level override: what the callers of the various merges rely on.\<close>

locale default_merge =
  fixes merge :: "(string, 'v) fmap \<Rightarrow> (string, 'v) fmap \<Rightarrow> (string, 'v) fmap"
  assumes merge_lookup: "fmlookup (merge own d) k = (case fmlookup own k of None \<Rightarrow> fmlookup d k | Some v \<Rightarrow> Some v)"
begin

lemma merge_assoc: "merge (merge a b) c = merge a (merge b c)"
  by (rule fmap_ext) (simp add: merge_lookup split: option.split)

lemma merge_idem: "merge (merge a d) d = merge a d"
  by (rule fmap_ext) (simp add: merge_lookup split: option.split)

lemma merge_empty: "merge fmempty d = d" "merge a fmempty = a"
  by (rule fmap_ext; simp add: merge_lookup split: option.split)+

end

lemma override_lookup:
  "fmlookup (if d = fmempty then own else d ++\<^sub>f own) k =
   (case fmlookup own k of None \<Rightarrow> fmlookup d k | Some v \<Rightarrow> Some v)"
  by (auto split: option.split)

interpretation resource_defaults: default_merge mergeResourceDefaults
  by unfold_locales (simp add: mergeResourceDefaults_def override_lookup)

interpretation string_defaults: default_merge mergeStringMapDefaults
  by unfold_locales (simp add: mergeStringMapDefaults_def override_lookup)

interpretation resource_list: default_merge "\<lambda>override base. mergeResourceList base override"
  by unfold_locales (auto simp: mergeResourceList_def split: option.split)

lemma or_assoc:
  "or_list (or_list a b) c = or_list a (or_list b c)"
  "or_map (or_map m n) p = or_map m (or_map n p)"
  "or_opt (or_opt x y) z = or_opt x (or_opt y z)"
  by (simp_all add: or_list_def or_map_def or_opt_def split: option.splits)

lemma find_append: "find P (xs @ ys) = (case find P xs of None \<Rightarrow> find P ys | Some x \<Rightarrow> Some x)"
  by (induction xs) auto

lemma find_named_filter:
  "(\<And>e. e \<in> set xs \<Longrightarrow> nm e = n \<Longrightarrow> Q e) \<Longrightarrow> find (\<lambda>e. nm e = n) (filter Q xs) = find (\<lambda>e. nm e = n) xs"
  by (induction xs) auto

lemma mergeEnvDefaults_find:
  "find (\<lambda>e. ev_Name e = n) (mergeEnvDefaults own d) =
   (case find (\<lambda>e. ev_Name e = n) own of None \<Rightarrow> find (\<lambda>e. ev_Name e = n) d | Some e \<Rightarrow> Some e)"
proof (cases "find (\<lambda>e. ev_Name e = n) own")
  case None
  then have "\<And>e. e \<in> set own \<Longrightarrow> ev_Name e \<noteq> n"
    by (auto simp: find_None_iff)
  then have "find (\<lambda>e. ev_Name e = n) (filter (\<lambda>e. ev_Name e \<notin> ev_Name ` set own) d) = find (\<lambda>e. ev_Name e = n) d"
    by (intro find_named_filter) (metis imageE)
  then show ?thesis
    using None by (auto simp: mergeEnvDefaults_def find_append)
qed (auto simp: mergeEnvDefaults_def find_append)

lemma mergeEnvDefaults_distinct:
  assumes "distinct (map ev_Name own)" "distinct (map ev_Name d)"
  shows "distinct (map ev_Name (mergeEnvDefaults own d))"
  using assms by (auto simp: mergeEnvDefaults_def distinct_map_filter) (metis imageI)

lemma ApplyToPodSpec_compose:
  "ApplyToPodSpec (PodTemplate_ApplyDefaultsFrom apt (Some d)) ps = ApplyToPodSpec d (ApplyToPodSpec apt ps)"
  by (simp add: ApplyToPodSpec_def PodTemplate_ApplyDefaultsFrom_def or_assoc)

definition meta_labels :: "Metadata option \<Rightarrow> labels" where
"meta_labels m = (case m of None \<Rightarrow> fmempty | Some x \<Rightarrow> md_Labels x)"

definition meta_annotations :: "Metadata option \<Rightarrow> labels" where
"meta_annotations m = (case m of None \<Rightarrow> fmempty | Some x \<Rightarrow> md_Annotations x)"

lemma mergeMetadataDefaults_maps:
  "meta_labels (mergeMetadataDefaults own d) = mergeStringMapDefaults (meta_labels own) (meta_labels d)"
  "meta_annotations (mergeMetadataDefaults own d) = mergeStringMapDefaults (meta_annotations own) (meta_annotations d)"
  by (auto simp: mergeMetadataDefaults_def meta_labels_def meta_annotations_def Let_def
      string_defaults.merge_empty split: option.splits)

lemma ApplyToPodTemplateSpec_eq:
  "ApplyToPodTemplateSpec apt p =
   \<lparr>pts_Labels = meta_labels (apt_Metadata apt) ++\<^sub>f pts_Labels p,
    pts_Annotations = meta_annotations (apt_Metadata apt) ++\<^sub>f pts_Annotations p,
    pts_Spec = ApplyToPodSpec apt (pts_Spec p)\<rparr>"
  by (cases p) (auto simp: ApplyToPodTemplateSpec_def meta_labels_def meta_annotations_def Let_def split: option.splits)

section \<open>Properties\<close>

text \<open>C31: filling a pod template's unset fields from defaults and applying it to a pod is the same as
  applying the template and then the defaults: a value set on the pod wins over the template's, the
  template's over the default's, for every field and for each single label and annotation.\<close>

theorem pod_template_defaults_compose:
  "ApplyToPodTemplateSpec (PodTemplate_ApplyDefaultsFrom apt (Some d)) p =
   ApplyToPodTemplateSpec d (ApplyToPodTemplateSpec apt p)"
proof -
  have meta: "apt_Metadata (PodTemplate_ApplyDefaultsFrom apt (Some d)) =
      mergeMetadataDefaults (apt_Metadata apt) (apt_Metadata d)"
    by (simp add: PodTemplate_ApplyDefaultsFrom_def)
  have "mergeStringMapDefaults x y = y ++\<^sub>f x" for x y
    by (simp add: mergeStringMapDefaults_def)
  then show ?thesis
    by (simp add: ApplyToPodTemplateSpec_eq meta mergeMetadataDefaults_maps ApplyToPodSpec_compose fmadd_assoc)
qed

end
