(* ===== verification/AgentTypes.thy ===== *)
theory AgentTypes
  imports Templates
begin

text \<open>
  \<open>agentdeploy_types.go\<close>, \<open>agentset_types.go\<close>, \<open>topology.go\<close> and the encoders: the two custom
  resources, the names derived from them and the peer topology computed from an AgentSet's
  pattern.
\<close>

section \<open>Patterns, peers, topology\<close>

datatype AgentPattern = Supervisor | Handoff | Sequential | OtherPattern string

datatype PeerKind = PeerKindManaged | PeerKindExternal | OtherPeerKind string

record Peer =
  peer_Name :: string
  peer_Kind :: PeerKind
  peer_URL :: string

record Topology =
  t_Pattern :: AgentPattern
  t_IsEntry :: bool
  t_Peers :: "Peer list"

definition zero_topology :: Topology where
"zero_topology = \<lparr>t_Pattern = OtherPattern [], t_IsEntry = False, t_Peers = []\<rparr>"

section \<open>Conditions\<close>

datatype ConditionStatus = ConditionTrue | ConditionFalse | ConditionUnknown

record Condition =
  cond_Type :: string
  cond_Status :: ConditionStatus
  cond_ObservedGeneration :: int
  cond_Reason :: string
  cond_Message :: string
  cond_LastTransitionTime :: nanos

section \<open>AgentDeploy\<close>

datatype AgentDeployPhase = AgentDeployPhaseUnknown | AgentDeployPhaseRunning | AgentDeployPhaseFailed

definition AgentDeployConditionDeployed :: string where
"AgentDeployConditionDeployed = ''Deployed''"

definition AgentDeployConditionPodsHealthy :: string where
"AgentDeployConditionPodsHealthy = ''PodsHealthy''"

record AbstractAgentDeploy =
  aad_Name :: string
  aad_PodTemplate :: AbstractPodTemplate
  aad_Container :: "AgentContainer option"
  aad_InitContainer :: "ContainerTemplate option"
  aad_BrokerContainer :: "ContainerTemplate option"
  aad_Volumes :: "Volume list"
  aad_Scale :: Scale
  aad_RateLimit :: "RateLimit option"
  aad_InitContainers :: "CoreContainer list"
  aad_Sidecars :: "CoreContainer list"
  aad_UpdateStrategy :: UpdateStrategy
  aad_PublicBaseURL :: string
  aad_DriftReload :: "DriftReload option"

definition zero_update_strategy :: UpdateStrategy where
"zero_update_strategy = \<lparr>us_Type = [], us_RollingUpdate = None\<rparr>"

definition new_agent :: "string \<Rightarrow> AbstractAgentDeploy" where
"new_agent n = \<lparr>aad_Name = n, aad_PodTemplate = empty_pod_template, aad_Container = None,
   aad_InitContainer = None, aad_BrokerContainer = None, aad_Volumes = [], aad_Scale = zero_scale,
   aad_RateLimit = None, aad_InitContainers = [], aad_Sidecars = [],
   aad_UpdateStrategy = zero_update_strategy, aad_PublicBaseURL = [], aad_DriftReload = None\<rparr>"

record AgentDeploySpec =
  ads_Agent :: AbstractAgentDeploy
  ads_AgentSetName :: string
  ads_Replicas :: "int option"
  ads_Topology :: Topology

record AgentDeployStatus =
  adst_Conditions :: "Condition list"
  adst_Phase :: AgentDeployPhase
  adst_Replicas :: int
  adst_DesiredReplicas :: int
  adst_Selector :: string
  adst_Reason :: string
  adst_Message :: string
  adst_LastScaledAt :: nanos
  adst_ObservedGeneration :: int
  adst_ReadyReplicas :: int
  adst_UpdatedReplicas :: int
  adst_UpdatedReadyReplicas :: int
  adst_CurrentHash :: string
  adst_UpdateHash :: string

record AgentDeploy =
  ad_Meta :: ObjectMeta
  ad_Spec :: AgentDeploySpec
  ad_Status :: AgentDeployStatus

definition zero_status :: AgentDeployStatus where
"zero_status = \<lparr>adst_Conditions = [], adst_Phase = AgentDeployPhaseUnknown, adst_Replicas = 0,
   adst_DesiredReplicas = 0, adst_Selector = [], adst_Reason = [], adst_Message = [],
   adst_LastScaledAt = zero_time, adst_ObservedGeneration = 0, adst_ReadyReplicas = 0,
   adst_UpdatedReplicas = 0, adst_UpdatedReadyReplicas = 0, adst_CurrentHash = [], adst_UpdateHash = []\<rparr>"

abbreviation ad_agent :: "AgentDeploy \<Rightarrow> AbstractAgentDeploy" where
"ad_agent ad \<equiv> ads_Agent (ad_Spec ad)"

definition HeadlessServiceName :: "AgentDeploy \<Rightarrow> string" where
"HeadlessServiceName ad = om_Name (ad_Meta ad) @ ''-headless''"

definition ServiceName :: "AgentDeploy \<Rightarrow> string" where
"ServiceName ad = om_Name (ad_Meta ad)"

definition AgentDeploy_SimpleCopy :: "AgentDeploy \<Rightarrow> AgentDeploy" where
"AgentDeploy_SimpleCopy ad =
   \<lparr>ad_Meta = new_meta (om_Namespace (ad_Meta ad)) (om_Name (ad_Meta ad)),
    ad_Spec = (ad_Spec ad)\<lparr>
      ads_Agent := (ad_agent ad)\<lparr>
        aad_Scale := zero_scale, aad_DriftReload := None, aad_Sidecars := [],
        aad_InitContainers := [], aad_Volumes := [], aad_UpdateStrategy := zero_update_strategy\<rparr>,
      ads_Replicas := None\<rparr>,
    ad_Status = zero_status\<rparr>"

text \<open>JSON marshalling and base64 are one argument: the text of the copy.\<close>

definition EncodeAgentDeploy :: "(AgentDeploy \<Rightarrow> string) \<Rightarrow> AgentDeploy \<Rightarrow> string" where
"EncodeAgentDeploy marshal ad = marshal (AgentDeploy_SimpleCopy ad)"

record AgentDeployTemplate =
  adt_PodTemplate :: AbstractPodTemplate
  adt_InitContainer :: "ContainerTemplate option"
  adt_BrokerContainer :: "ContainerTemplate option"

section \<open>AgentSet\<close>

datatype AgentSetPhase = AgentSetPhaseUnknown | AgentSetPhaseRunning | AgentSetPhaseFailed | AgentSetPhaseDeleting

definition AgentSetConditionConfigured :: string where
"AgentSetConditionConfigured = ''Configured''"

definition AgentSetConditionDeployed :: string where
"AgentSetConditionDeployed = ''Deployed''"

definition AgentSetConditionAgentsHealthy :: string where
"AgentSetConditionAgentsHealthy = ''AgentsHealthy''"

record ExternalAgentRef =
  ext_Name :: string
  ext_URL :: string

record DaemonTemplate =
  dt_PodTemplate :: AbstractPodTemplate
  dt_Container :: "ContainerTemplate option"

record Templates =
  tm_AgentDeployTemplate :: "AgentDeployTemplate option"
  tm_DaemonTemplate :: "DaemonTemplate option"

record AgentSetSpec =
  ass_Pattern :: AgentPattern
  ass_Entry :: string
  ass_Agents :: "AbstractAgentDeploy list"
  ass_Templates :: "Templates option"
  ass_ExternalAgents :: "ExternalAgentRef list"
  ass_DriftReload :: "DriftReload option"

record AgentSetStatus =
  asst_Conditions :: "Condition list"
  asst_Phase :: AgentSetPhase
  asst_Message :: string
  asst_LastUpdated :: nanos
  asst_AgentCount :: "int option"
  asst_ExternalAgentCount :: "int option"
  asst_ObservedGeneration :: int

record AgentSet =
  as_Meta :: ObjectMeta
  as_Spec :: AgentSetSpec
  as_Status :: AgentSetStatus

definition EntryServiceSuffix :: string where
"EntryServiceSuffix = ''ingress''"

definition EntryServiceName :: "AgentSet \<Rightarrow> string" where
"EntryServiceName as = om_Name (as_Meta as) @ ''-'' @ EntryServiceSuffix"

definition DaemonSuffix :: string where
"DaemonSuffix = ''daemon''"

definition DaemonName :: "AgentSet \<Rightarrow> string" where
"DaemonName as = om_Name (as_Meta as) @ ''-'' @ DaemonSuffix"

definition ChildAgentDeployName :: "AgentSet \<Rightarrow> string \<Rightarrow> string" where
"ChildAgentDeployName as agentName = om_Name (as_Meta as) @ ''-'' @ agentName"

definition AgentSet_SimpleCopy :: "AgentSet \<Rightarrow> AgentSet" where
"AgentSet_SimpleCopy as =
   \<lparr>as_Meta = new_meta (om_Namespace (as_Meta as)) (om_Name (as_Meta as)),
    as_Spec = \<lparr>ass_Pattern = ass_Pattern (as_Spec as), ass_Entry = ass_Entry (as_Spec as),
      ass_Agents = map (\<lambda>a. new_agent (aad_Name a)) (ass_Agents (as_Spec as)),
      ass_Templates = None, ass_ExternalAgents = ass_ExternalAgents (as_Spec as), ass_DriftReload = None\<rparr>,
    as_Status = \<lparr>asst_Conditions = [], asst_Phase = AgentSetPhaseUnknown, asst_Message = [],
      asst_LastUpdated = zero_time, asst_AgentCount = None, asst_ExternalAgentCount = None,
      asst_ObservedGeneration = 0\<rparr>\<rparr>"

definition EncodeAgentSet :: "(AgentSet \<Rightarrow> string) \<Rightarrow> AgentSet \<Rightarrow> string" where
"EncodeAgentSet marshal as = marshal (AgentSet_SimpleCopy as)"

section \<open>Topology\<close>

definition managed_peer :: "AbstractAgentDeploy \<Rightarrow> Peer" where
"managed_peer a = \<lparr>peer_Name = aad_Name a, peer_Kind = PeerKindManaged, peer_URL = []\<rparr>"

definition external_peer :: "ExternalAgentRef \<Rightarrow> Peer" where
"external_peer e = \<lparr>peer_Name = ext_Name e, peer_Kind = PeerKindExternal, peer_URL = ext_URL e\<rparr>"

text \<open>
  The initial capacity of the slice is not modelled.  It is negative (a panic) only for a set
  with no agents and no externals; the controller computes a topology only for a listed agent.
\<close>

definition peersExcluding :: "AbstractAgentDeploy list \<Rightarrow> ExternalAgentRef list \<Rightarrow> string \<Rightarrow> Peer list" where
"peersExcluding agents externalAgents self =
   map managed_peer (filter (\<lambda>a. aad_Name a \<noteq> self) agents) @ map external_peer externalAgents"

fun nextAgent :: "AbstractAgentDeploy list \<Rightarrow> ExternalAgentRef list \<Rightarrow> string \<Rightarrow> Peer option" where
"nextAgent [] externalAgents self = None" |
"nextAgent (a # rest) externalAgents self =
   (if aad_Name a \<noteq> self then nextAgent rest externalAgents self
    else case rest of
           b # _ \<Rightarrow> Some (managed_peer b)
         | [] \<Rightarrow> (case externalAgents of e # _ \<Rightarrow> Some (external_peer e) | [] \<Rightarrow> None))"

definition ComputeTopology :: "AgentSet option \<Rightarrow> string \<Rightarrow> Topology" where
"ComputeTopology as0 agentName =
   (case as0 of
      None \<Rightarrow> zero_topology
    | Some as \<Rightarrow>
        let spec = as_Spec as;
            isEntry = (agentName = ass_Entry spec);
            t = \<lparr>t_Pattern = ass_Pattern spec, t_IsEntry = isEntry, t_Peers = []\<rparr>
        in case ass_Pattern spec of
             Handoff \<Rightarrow> t\<lparr>t_Peers := peersExcluding (ass_Agents spec) (ass_ExternalAgents spec) agentName\<rparr>
           | Supervisor \<Rightarrow>
               if isEntry then t\<lparr>t_Peers := peersExcluding (ass_Agents spec) (ass_ExternalAgents spec) agentName\<rparr>
               else t
           | Sequential \<Rightarrow>
               (case nextAgent (ass_Agents spec) (ass_ExternalAgents spec) agentName of
                  Some next \<Rightarrow> t\<lparr>t_Peers := [next]\<rparr> | None \<Rightarrow> t)
           | OtherPattern _ \<Rightarrow> t)"

end
