(* ===== verification/Kube.thy ===== *)
theory Kube
  imports Prelude
begin

text \<open>
  The Kubernetes client the controllers call.  It is not part of the repository: the
  operations are the fields of a record that every definition using the API takes as an
  argument, over an abstract world \<open>'w\<close>.  What the callers rely on is the locale \<open>kube\<close>:
  a read returns what is stored, a successful write is stored and touches no other
  object, a failed call changes nothing, and a delete leaves the object either gone or
  in the state that the relation \<open>dele\<close> allows (a pod with a grace period stays, marked
  as terminating).  The locale is interpreted on an in-memory API server whose calls may
  be made to fail by a fault script.

  That a read returns what is stored is an idealisation: the managers read through a
  cache that informers fill, which may lag behind the server.  The laws describe a pass
  whose cache has caught up with the writes before it.
\<close>

section \<open>Calls and errors\<close>

datatype api_error = NotFound | AlreadyExists | Conflict | OtherErr string

record NamespacedName =
  Namespace :: string
  Name :: string

record ('k, 'o, 'w) kclient =
  kget :: "'k \<Rightarrow> 'w \<Rightarrow> (api_error + 'o) \<times> 'w"
  kcreate :: "'k \<Rightarrow> 'o \<Rightarrow> 'w \<Rightarrow> (api_error + unit) \<times> 'w"
  kupdate :: "'k \<Rightarrow> 'o \<Rightarrow> 'w \<Rightarrow> (api_error + unit) \<times> 'w"
  kdelete :: "'k \<Rightarrow> 'w \<Rightarrow> (api_error + unit) \<times> 'w"
  klist :: "('k \<Rightarrow> 'o \<Rightarrow> bool) \<Rightarrow> 'w \<Rightarrow> (api_error + ('k \<times> 'o) list) \<times> 'w"

text \<open>A loop whose body may fail: the first error ends it.\<close>

fun for_each :: "('a \<Rightarrow> 's \<Rightarrow> ('e + unit) \<times> 's) \<Rightarrow> 'a list \<Rightarrow> 's \<Rightarrow> ('e + unit) \<times> 's" where
"for_each f [] s = (Inr (), s)" |
"for_each f (x # xs) s = (case f x s of (Inl e, s') \<Rightarrow> (Inl e, s') | (Inr _, s') \<Rightarrow> for_each f xs s')"

lemma for_each_invariant:
  assumes "for_each f xs s = (r, s')" "I s"
    and "\<And>x s r s'. x \<in> set xs \<Longrightarrow> f x s = (r, s') \<Longrightarrow> I s \<Longrightarrow> I s'"
  shows "I s'"
  using assms
proof (induction xs arbitrary: s)
  case (Cons x xs)
  obtain r1 s1 where f: "f x s = (r1, s1)"
    by (cases "f x s")
  then have "I s1"
    using Cons.prems(2,3) by (meson list.set_intros(1))
  show ?case
  proof (cases r1)
    case (Inr u)
    then have loop: "for_each f xs s1 = (r, s')"
      using f Cons.prems(1) by simp
    have step: "y \<in> set xs \<Longrightarrow> f y t = (rt, t') \<Longrightarrow> I t \<Longrightarrow> I t'" for y t rt t'
      using Cons.prems(3) by (meson list.set_intros(2))
    show ?thesis
      by (rule Cons.IH [OF loop \<open>I s1\<close> step])
  qed (use f Cons.prems(1) \<open>I s1\<close> in simp)
qed simp

lemma for_each_succeeds:
  assumes "\<And>x s. x \<in> set xs \<Longrightarrow> I s \<Longrightarrow> \<exists>s'. f x s = (Inr (), s') \<and> I s'" "I s"
  shows "\<exists>s'. for_each f xs s = (Inr (), s') \<and> I s'"
  using assms
proof (induction xs arbitrary: s)
  case (Cons x xs)
  obtain s1 where "f x s = (Inr (), s1)" "I s1"
    using Cons.prems by (meson list.set_intros(1))
  moreover have "\<exists>s'. for_each f xs s1 = (Inr (), s') \<and> I s'"
    using Cons.prems(1) \<open>I s1\<close> by (intro Cons.IH) auto
  ultimately show ?case
    by simp
qed simp

section \<open>The contract\<close>

locale kube =
  fixes cl :: "('k, 'o, 'w) kclient"
    and stored :: "'w \<Rightarrow> 'k \<Rightarrow> 'o option"
    and dele :: "'o \<Rightarrow> 'o option \<Rightarrow> bool"
  assumes get_result: "kget cl k w = (r, w') \<Longrightarrow> r = Inr obj \<Longrightarrow> stored w k = Some obj"
    and get_missing: "kget cl k w = (r, w') \<Longrightarrow> r = Inl NotFound \<Longrightarrow> stored w k = None"
    and get_frame: "kget cl k w = (r, w') \<Longrightarrow> stored w' = stored w"
    and create_ok: "kcreate cl k obj w = (Inr (), w') \<Longrightarrow>
                      stored w k = None \<and> stored w' = (stored w)(k \<mapsto> obj)"
    and create_exists: "kcreate cl k obj w = (Inl AlreadyExists, w') \<Longrightarrow> stored w k \<noteq> None"
    and create_err: "kcreate cl k obj w = (Inl e, w') \<Longrightarrow> stored w' = stored w"
    and update_ok: "kupdate cl k obj w = (Inr (), w') \<Longrightarrow>
                      stored w k \<noteq> None \<and> stored w' = (stored w)(k \<mapsto> obj)"
    and update_err: "kupdate cl k obj w = (Inl e, w') \<Longrightarrow> stored w' = stored w"
    and delete_ok: "kdelete cl k w = (Inr (), w') \<Longrightarrow>
                      (\<exists>obj rest. stored w k = Some obj \<and> dele obj rest \<and>
                         stored w' = (stored w)(k := rest))"
    and delete_missing: "kdelete cl k w = (Inl NotFound, w') \<Longrightarrow> stored w k = None"
    and delete_err: "kdelete cl k w = (Inl e, w') \<Longrightarrow> stored w' = stored w"
    and list_result: "klist cl P w = (Inr kos, w') \<Longrightarrow>
                        distinct (map fst kos) \<and>
                        (\<forall>k obj. (k, obj) \<in> set kos \<longleftrightarrow> stored w k = Some obj \<and> P k obj)"
    and list_frame: "klist cl P w = (r', w') \<Longrightarrow> stored w' = stored w"
begin

lemmas frames = get_frame create_err update_err delete_err list_frame

lemma create_cases:
  assumes "kcreate cl k obj w = (r, w')"
  obtains (created) "r = Inr ()" "stored w k = None" "stored w' = (stored w)(k \<mapsto> obj)"
  | (failed) e where "r = Inl e" "stored w' = stored w"
  using assms create_ok create_err by (cases r) (metis old.unit.exhaust)+

lemma update_cases:
  assumes "kupdate cl k obj w = (r, w')"
  obtains (updated) "r = Inr ()" "stored w k \<noteq> None" "stored w' = (stored w)(k \<mapsto> obj)"
  | (failed) e where "r = Inl e" "stored w' = stored w"
  using assms update_ok update_err by (cases r) (metis old.unit.exhaust)+

lemma delete_cases:
  assumes "kdelete cl k w = (r, w')"
  obtains (deleted) obj rest where "r = Inr ()" "stored w k = Some obj" "dele obj rest"
      "stored w' = (stored w)(k := rest)"
  | (failed) e where "r = Inl e" "stored w' = stored w"
  using assms delete_ok delete_err by (cases r) (metis old.unit.exhaust)+

end

text \<open>A server that serves every call in the worlds of \<open>Q\<close>: a create fails only on an existing object, a
  delete or update only on a missing one.\<close>

locale reliable_kube = kube cl stored dele
  for cl :: "('k, 'o, 'w) kclient" and stored and dele +
  fixes Q :: "'w \<Rightarrow> bool"
  assumes create_serves: "Q w \<Longrightarrow> kcreate cl k obj w = (r, w') \<Longrightarrow> Q w' \<and> (r = Inr () \<or> r = Inl AlreadyExists)"
    and update_serves: "Q w \<Longrightarrow> kupdate cl k obj w = (r, w') \<Longrightarrow> Q w' \<and> (r = Inr () \<or> r = Inl NotFound)"
    and delete_serves: "Q w \<Longrightarrow> kdelete cl k w = (r, w') \<Longrightarrow> Q w' \<and> (r = Inr () \<or> r = Inl NotFound)"
    and list_serves: "Q w \<Longrightarrow> klist cl P w = (rl, w') \<Longrightarrow> Q w' \<and> (\<exists>items. rl = Inr items)"

section \<open>An in-memory API server\<close>

text \<open>Objects in creation order, and a script of faults: the head decides whether the next
  call fails before it takes effect.\<close>

record ('k, 'o) mem =
  objects :: "('k \<times> 'o) list"
  faults :: "api_error option list"

fun next_fault :: "('k, 'o) mem \<Rightarrow> api_error option \<times> ('k, 'o) mem" where
"next_fault m = (case faults m of [] \<Rightarrow> (None, m) | f # fs \<Rightarrow> (f, m\<lparr>faults := fs\<rparr>))"

definition mem_stored :: "('k, 'o) mem \<Rightarrow> 'k \<Rightarrow> 'o option" where
"mem_stored m = map_of (objects m)"

text \<open>A fault script may not forge the answers that carry information about the state.\<close>

definition scripted :: "api_error option \<Rightarrow> api_error option" where
"scripted f = (case f of Some NotFound \<Rightarrow> None | Some AlreadyExists \<Rightarrow> None | _ \<Rightarrow> f)"

definition with_fault ::
  "(('k, 'o) mem \<Rightarrow> (api_error + 'a) \<times> ('k, 'o) mem) \<Rightarrow> ('k, 'o) mem \<Rightarrow> (api_error + 'a) \<times> ('k, 'o) mem" where
"with_fault f m =
   (case next_fault m of (flt, m') \<Rightarrow>
      (case scripted flt of Some e \<Rightarrow> (Inl e, m') | None \<Rightarrow> f m'))"

definition mem_get :: "'k \<Rightarrow> ('k, 'o) mem \<Rightarrow> (api_error + 'o) \<times> ('k, 'o) mem" where
"mem_get k = with_fault (\<lambda>m.
   (case map_of (objects m) k of None \<Rightarrow> Inl NotFound | Some obj \<Rightarrow> Inr obj, m))"

definition mem_create :: "'k \<Rightarrow> 'o \<Rightarrow> ('k, 'o) mem \<Rightarrow> (api_error + unit) \<times> ('k, 'o) mem" where
"mem_create k obj = with_fault (\<lambda>m.
   if map_of (objects m) k \<noteq> None then (Inl AlreadyExists, m)
   else (Inr (), m\<lparr>objects := objects m @ [(k, obj)]\<rparr>))"

definition mem_update :: "'k \<Rightarrow> 'o \<Rightarrow> ('k, 'o) mem \<Rightarrow> (api_error + unit) \<times> ('k, 'o) mem" where
"mem_update k obj = with_fault (\<lambda>m.
   if map_of (objects m) k = None then (Inl NotFound, m)
   else (Inr (), m\<lparr>objects := map (\<lambda>(k', o'). (k', if k' = k then obj else o')) (objects m)\<rparr>))"

definition mem_delete :: "('o \<Rightarrow> 'o option) \<Rightarrow> 'k \<Rightarrow> ('k, 'o) mem \<Rightarrow> (api_error + unit) \<times> ('k, 'o) mem" where
"mem_delete grace k = with_fault (\<lambda>m.
   case map_of (objects m) k of
     None \<Rightarrow> (Inl NotFound, m)
   | Some obj \<Rightarrow>
       (case grace obj of
          None \<Rightarrow> (Inr (), m\<lparr>objects := filter (\<lambda>(k', o'). k' \<noteq> k) (objects m)\<rparr>)
        | Some obj' \<Rightarrow>
            (Inr (), m\<lparr>objects := map (\<lambda>(k', o'). (k', if k' = k then obj' else o')) (objects m)\<rparr>)))"

text \<open>Listing yields every key once, with the value a get would return.\<close>

fun first_bindings :: "('k \<times> 'o) list \<Rightarrow> ('k \<times> 'o) list" where
"first_bindings [] = []" |
"first_bindings ((k, v) # kvs) = (k, v) # filter (\<lambda>(k', _). k' \<noteq> k) (first_bindings kvs)"

definition mem_list ::
  "('k \<Rightarrow> 'o \<Rightarrow> bool) \<Rightarrow> ('k, 'o) mem \<Rightarrow> (api_error + ('k \<times> 'o) list) \<times> ('k, 'o) mem" where
"mem_list P = with_fault (\<lambda>m. (Inr (filter (\<lambda>(k, obj). P k obj) (first_bindings (objects m))), m))"

definition mem_client :: "('o \<Rightarrow> 'o option) \<Rightarrow> ('k, 'o, ('k, 'o) mem) kclient" where
"mem_client grace = \<lparr>kget = mem_get, kcreate = mem_create, kupdate = mem_update,
               kdelete = mem_delete grace, klist = mem_list\<rparr>"

lemma distinct_first_bindings: "distinct (map fst (first_bindings kvs))"
  by (induction kvs rule: first_bindings.induct) (auto simp: distinct_map_filter)

lemma in_first_bindings: "(k, v) \<in> set (first_bindings kvs) \<longleftrightarrow> map_of kvs k = Some v"
  by (induction kvs rule: first_bindings.induct) auto

lemma map_of_replace:
  "map_of (map (\<lambda>(k', o'). (k', if k' = k then obj else o')) kvs) x =
   (if x = k \<and> map_of kvs k \<noteq> None then Some obj else map_of kvs x)"
  by (induction kvs) auto

lemma map_of_remove: "map_of (filter (\<lambda>(k', o'). k' \<noteq> k) kvs) x = (if x = k then None else map_of kvs x)"
  by (induction kvs) auto

lemma map_of_snoc: "m k = None \<Longrightarrow> [k \<mapsto> obj] ++ m = m(k \<mapsto> obj)"
  by (auto simp: fun_eq_iff map_add_def split: option.splits)

lemma with_fault_cases:
  assumes "with_fault f m = (r, m')"
  obtains (fault) e where "r = Inl e" "e \<noteq> NotFound" "e \<noteq> AlreadyExists" "objects m' = objects m"
  | (served) m1 where "objects m1 = objects m" "f m1 = (r, m')"
proof -
  obtain f0 m1 where m1: "next_fault m = (f0, m1)"
    by (cases "next_fault m")
  then have objs: "objects m1 = objects m"
    by (auto split: list.splits)
  show thesis
  proof (cases "scripted f0")
    case None
    then show thesis
      using assms m1 objs by (auto simp: with_fault_def simp del: next_fault.simps intro: served)
  next
    case (Some e)
    then have "e \<noteq> NotFound" "e \<noteq> AlreadyExists"
      by (auto simp: scripted_def split: option.splits api_error.splits)
    then show thesis
      using assms m1 objs Some by (auto simp: with_fault_def simp del: next_fault.simps intro: fault)
  qed
qed

lemma mem_get_law:
  assumes "mem_get k m = (r, m')"
  shows "objects m' = objects m" and "r = Inr obj \<Longrightarrow> mem_stored m k = Some obj"
    and "r = Inl NotFound \<Longrightarrow> mem_stored m k = None"
  using assms unfolding mem_get_def
  by (auto elim!: with_fault_cases simp: mem_stored_def split: option.splits)

lemma mem_create_law:
  assumes "mem_create k obj m = (r, m')"
  shows "r = Inr () \<Longrightarrow> mem_stored m k = None \<and> mem_stored m' = (mem_stored m)(k \<mapsto> obj)"
    and "r = Inl AlreadyExists \<Longrightarrow> mem_stored m k \<noteq> None"
    and "r = Inl e \<Longrightarrow> mem_stored m' = mem_stored m"
  using assms unfolding mem_create_def
  by (auto elim!: with_fault_cases simp: mem_stored_def map_of_snoc split: if_splits)

lemma mem_update_law:
  assumes "mem_update k obj m = (r, m')"
  shows "r = Inr () \<Longrightarrow> mem_stored m k \<noteq> None \<and> mem_stored m' = (mem_stored m)(k \<mapsto> obj)"
    and "r = Inl e \<Longrightarrow> mem_stored m' = mem_stored m"
  using assms unfolding mem_update_def
  by (auto elim!: with_fault_cases simp: mem_stored_def map_of_replace fun_eq_iff split: if_splits)

lemma mem_delete_law:
  assumes "mem_delete grace k m = (r, m')"
  shows "r = Inr () \<Longrightarrow> \<exists>obj. mem_stored m k = Some obj \<and> mem_stored m' = (mem_stored m)(k := grace obj)"
    and "r = Inl NotFound \<Longrightarrow> mem_stored m k = None"
    and "r = Inl e \<Longrightarrow> mem_stored m' = mem_stored m"
  using assms unfolding mem_delete_def
  by (auto elim!: with_fault_cases simp: mem_stored_def map_of_remove map_of_replace fun_eq_iff
      split: if_splits option.splits)

lemma mem_list_law:
  assumes "mem_list P m = (r, m')"
  shows "mem_stored m' = mem_stored m"
    and "r = Inr kos \<Longrightarrow> distinct (map fst kos)"
    and "r = Inr kos \<Longrightarrow> (k, obj) \<in> set kos \<longleftrightarrow> mem_stored m k = Some obj \<and> P k obj"
  using assms unfolding mem_list_def
  by (auto elim!: with_fault_cases
      simp: mem_stored_def in_first_bindings distinct_map_filter [OF distinct_first_bindings])

lemma mem_client_sel [simp]:
  "kget (mem_client grace) = mem_get" "kcreate (mem_client grace) = mem_create" "kupdate (mem_client grace) = mem_update"
  "kdelete (mem_client grace) = mem_delete grace" "klist (mem_client grace) = mem_list"
  by (simp_all add: mem_client_def)

interpretation mem: kube "mem_client grace" mem_stored "\<lambda>obj rest. rest = grace obj" for grace
proof (unfold_locales, goal_cases)
  case (3 k w r w')
  then show ?case
    using mem_get_law(1) by (fastforce simp: mem_stored_def)
qed (simp_all add: mem_get_law mem_create_law mem_update_law mem_delete_law mem_list_law)

interpretation mem_reliable: reliable_kube "mem_client grace" mem_stored "\<lambda>obj rest. rest = grace obj" "\<lambda>m. faults m = []" for grace
  by unfold_locales
    (auto simp: mem_create_def mem_update_def mem_delete_def mem_list_def with_fault_def scripted_def
      split: option.splits if_splits)

text \<open>A weaker relation for deletes keeps the contract.\<close>

lemma kube_dele_mono:
  assumes "kube cl stored d" "\<And>obj rest. d obj rest \<Longrightarrow> d' obj rest"
  shows "kube cl stored d'"
proof -
  have "kdelete cl k w = (Inr (), w') \<Longrightarrow>
      \<exists>obj rest. stored w k = Some obj \<and> d' obj rest \<and> stored w' = (stored w)(k := rest)" for k w w'
    using kube.delete_ok [OF assms(1)] assms(2) by blast
  then show ?thesis
    using assms(1) unfolding kube_def by simp
qed

section \<open>Servers of one kind of object inside a larger world\<close>

definition on_part :: "('w \<Rightarrow> 'v) \<Rightarrow> ('v \<Rightarrow> 'w \<Rightarrow> 'w) \<Rightarrow> ('k, 'o, 'v) kclient \<Rightarrow> ('k, 'o, 'w) kclient" where
"on_part get put cl =
   \<lparr>kget = (\<lambda>k w. case kget cl k (get w) of (r, v) \<Rightarrow> (r, put v w)),
    kcreate = (\<lambda>k obj w. case kcreate cl k obj (get w) of (r, v) \<Rightarrow> (r, put v w)),
    kupdate = (\<lambda>k obj w. case kupdate cl k obj (get w) of (r, v) \<Rightarrow> (r, put v w)),
    kdelete = (\<lambda>k w. case kdelete cl k (get w) of (r, v) \<Rightarrow> (r, put v w)),
    klist = (\<lambda>P w. case klist cl P (get w) of (r, v) \<Rightarrow> (r, put v w))\<rparr>"

lemma kube_on_part:
  assumes "kube cl stored dele" and [simp]: "\<And>v w. get (put v w) = v"
  shows "kube (on_part get put cl) (\<lambda>w. stored (get w)) dele"
proof (unfold_locales, goal_cases)
  case (9 k w w')
  then show ?case
    using kube.delete_ok [OF assms(1)] by (fastforce simp: on_part_def split: prod.splits)
qed (auto simp: on_part_def split: prod.splits
    dest: kube.get_result [OF assms(1)] kube.get_missing [OF assms(1)] kube.get_frame [OF assms(1)]
      kube.create_ok [OF assms(1)] kube.create_exists [OF assms(1)] kube.create_err [OF assms(1)]
      kube.update_ok [OF assms(1)] kube.update_err [OF assms(1)] kube.delete_missing [OF assms(1)]
      kube.delete_err [OF assms(1)] kube.list_result [OF assms(1)] kube.list_frame [OF assms(1)])

end
