(* ===== verification/HistoryStore.thy ===== *)
theory HistoryStore
  imports HistoryCodec AgentTypes Kube
begin

text \<open>
  \<open>pkg/reconciler/agentdeploy/scaling/history/store.go\<close> and \<open>registry.go\<close>: the history of one
  AgentDeploy in memory and in its ConfigMap, and the registry of stores.  The API server is the
  client argument of \<open>Kube\<close>; the controller reference Kubernetes builds for an owner is an
  argument.  The mutexes make every method below one step; a store is reached through its key,
  as the pointer the registry hands out.
\<close>

section \<open>The ConfigMap store\<close>

record ConfigMap =
  cm_Meta :: ObjectMeta
  cm_BinaryData :: "(string, bytes) fmap"

definition HistoryKey :: string where
"HistoryKey = ''history''"

record ConfigMapStore =
  st_namespace :: string
  st_name :: string
  st_ownerRef :: OwnerReference
  st_labels :: labels
  st_buf :: buffer
  st_lastFlush :: nanos
  st_specHash :: string

datatype store_error =
    GetFailed api_error
  | DecodeFailed codec_error
  | CreateFailed api_error
  | UpdateFailed api_error

type_synonym 'w cm_client = "(NamespacedName, ConfigMap, 'w) kclient"

abbreviation st_key :: "ConfigMapStore \<Rightarrow> NamespacedName" where
"st_key s \<equiv> \<lparr>Namespace = st_namespace s, Name = st_name s\<rparr>"

definition HistoryConfigMapName :: "string \<Rightarrow> string" where
"HistoryConfigMapName adName = adName @ ''-scaling''"

definition NewConfigMapStore :: "(AgentDeploy \<Rightarrow> OwnerReference) \<Rightarrow> AgentDeploy \<Rightarrow> bufferOption list \<Rightarrow> ConfigMapStore" where
"NewConfigMapStore controllerRef ad opts =
   \<lparr>st_namespace = om_Namespace (ad_Meta ad),
    st_name = HistoryConfigMapName (om_Name (ad_Meta ad)),
    st_ownerRef = controllerRef ad,
    st_labels = fmap_of_list [(KeyManagedBy, ControllerAgentDeploy), (KeyAgentSetName, ads_AgentSetName (ad_Spec ad)),
                              (KeyAgentDeployName, aad_Name (ad_agent ad)), (KeyComponent, ComponentAgent)],
    st_buf = newBuffer opts, st_lastFlush = zero_time, st_specHash = []\<rparr>"

definition Record :: "Sample \<Rightarrow> string \<Rightarrow> ConfigMapStore \<Rightarrow> ConfigMapStore" where
"Record smp specHash s =
   (let changed = (st_specHash s \<noteq> [] \<and> st_specHash s \<noteq> specHash);
        buf = (if changed then reset (st_buf s) else st_buf s)
    in s\<lparr>st_specHash := specHash, st_buf := add smp buf\<rparr>)"

definition HistoryOf :: "nanos \<Rightarrow> ConfigMapStore \<Rightarrow> Sample list \<times> ConfigMapStore" where
"HistoryOf now s = (let (out, b) = samples now (st_buf s) in (out, s\<lparr>st_buf := b\<rparr>))"

definition Load :: "'w cm_client \<Rightarrow> ConfigMapStore \<Rightarrow> 'w \<Rightarrow> store_error option \<times> ConfigMapStore \<times> 'w" where
"Load cl s w =
   (case kget cl (st_key s) w of
      (Inl NotFound, w') \<Rightarrow> (None, s, w')
    | (Inl e, w') \<Rightarrow> (Some (GetFailed e), s, w')
    | (Inr cm, w') \<Rightarrow>
        let blob = (case fmlookup (cm_BinaryData cm) HistoryKey of None \<Rightarrow> [] | Some b \<Rightarrow> b)
        in case decodeHistory blob of
             Inl e \<Rightarrow> (Some (DecodeFailed e), s, w')
           | Inr (h, rs) \<Rightarrow> (None, s\<lparr>st_specHash := h, st_buf := load rs (st_buf s)\<rparr>, w'))"

function upsert :: "'w cm_client \<Rightarrow> ConfigMapStore \<Rightarrow> bytes \<Rightarrow> bool \<Rightarrow> 'w \<Rightarrow> store_error option \<times> 'w" where
"upsert cl s blob retry w =
   (case kget cl (st_key s) w of
      (Inl NotFound, w1) \<Rightarrow>
        (let cm = \<lparr>cm_Meta = (new_meta (st_namespace s) (st_name s))\<lparr>om_Labels := st_labels s,
                                om_OwnerReferences := [st_ownerRef s]\<rparr>,
                   cm_BinaryData = fmap_of_list [(HistoryKey, blob)]\<rparr>
         in case kcreate cl (st_key s) cm w1 of
              (Inr _, w2) \<Rightarrow> (None, w2)
            | (Inl e, w2) \<Rightarrow> (if e = AlreadyExists then None else Some (CreateFailed e), w2))
    | (Inl e, w1) \<Rightarrow> (Some (GetFailed e), w1)
    | (Inr cm, w1) \<Rightarrow>
        (case kupdate cl (st_key s) (cm\<lparr>cm_BinaryData := fmupd HistoryKey blob (cm_BinaryData cm)\<rparr>) w1 of
           (Inr _, w2) \<Rightarrow> (None, w2)
         | (Inl e, w2) \<Rightarrow>
             if e = Conflict \<and> retry then upsert cl s blob False w2 else (Some (UpdateFailed e), w2)))"
  by pat_completeness auto

termination
  by (relation "measure (\<lambda>(cl, s, blob, retry, w). if retry then 1 else 0)") auto

definition Flush :: "'w cm_client \<Rightarrow> ConfigMapStore \<Rightarrow> 'w \<Rightarrow> store_error option \<times> 'w" where
"Flush cl s w = upsert cl s (encodeHistory (st_specHash s) (snapshot (st_buf s))) True w"

definition FlushIfDue ::
  "'w cm_client \<Rightarrow> ConfigMapStore \<Rightarrow> nanos \<Rightarrow> nanos \<Rightarrow> 'w \<Rightarrow> store_error option \<times> ConfigMapStore \<times> 'w" where
"FlushIfDue cl s now interval w =
   (let due = (time_sub now (st_lastFlush s) \<ge> interval) in
    if \<not> due then (None, s, w)
    else case Flush cl s w of
           (Some e, w') \<Rightarrow> (Some e, s, w')
         | (None, w') \<Rightarrow> (None, s\<lparr>st_lastFlush := now\<rparr>, w'))"

section \<open>The registry\<close>

record Registry =
  rg_opts :: "bufferOption list"
  rg_stores :: "(NamespacedName, ConfigMapStore) fmap"

definition NewRegistry :: "bufferOption list \<Rightarrow> Registry" where
"NewRegistry opts = \<lparr>rg_opts = opts, rg_stores = fmempty\<rparr>"

definition ad_key :: "AgentDeploy \<Rightarrow> NamespacedName" where
"ad_key ad = \<lparr>Namespace = om_Namespace (ad_Meta ad), Name = om_Name (ad_Meta ad)\<rparr>"

definition StoreFor ::
  "'w cm_client \<Rightarrow> (AgentDeploy \<Rightarrow> OwnerReference) \<Rightarrow> AgentDeploy \<Rightarrow> Registry \<Rightarrow> 'w \<Rightarrow>
   store_error option \<times> Registry \<times> 'w" where
"StoreFor cl controllerRef ad r w =
   (let k = ad_key ad in
    case fmlookup (rg_stores r) k of
      Some _ \<Rightarrow> (None, r, w)
    | None \<Rightarrow>
        (case Load cl (NewConfigMapStore controllerRef ad (rg_opts r)) w of
           (err, s, w') \<Rightarrow> (err, r\<lparr>rg_stores := fmupd k s (rg_stores r)\<rparr>, w')))"

definition Registry_Get :: "NamespacedName \<Rightarrow> Registry \<Rightarrow> ConfigMapStore option" where
"Registry_Get k r = fmlookup (rg_stores r) k"

definition Registry_Forget :: "NamespacedName \<Rightarrow> Registry \<Rightarrow> Registry" where
"Registry_Forget k r = r\<lparr>rg_stores := fmdrop k (rg_stores r)\<rparr>"

definition Registry_Keys :: "Registry \<Rightarrow> NamespacedName fset" where
"Registry_Keys r = fmdom (rg_stores r)"

text \<open>Recording through the pointer the registry holds.\<close>

definition record_at :: "NamespacedName \<Rightarrow> Sample \<Rightarrow> string \<Rightarrow> Registry \<Rightarrow> Registry" where
"record_at k smp h r =
   (case fmlookup (rg_stores r) k of
      None \<Rightarrow> r | Some s \<Rightarrow> r\<lparr>rg_stores := fmupd k (Record smp h s) (rg_stores r)\<rparr>)"

text \<open>An example: an AgentDeploy, one observation, and the API server holding its history.\<close>

definition demo_deploy :: AgentDeploy where
"demo_deploy = \<lparr>ad_Meta = new_meta ''ns'' ''set-a'',
   ad_Spec = \<lparr>ads_Agent = new_agent ''a'', ads_AgentSetName = ''set'', ads_Replicas = None, ads_Topology = zero_topology\<rparr>,
   ad_Status = zero_status\<rparr>"

definition demo_ref :: "AgentDeploy \<Rightarrow> OwnerReference" where
"demo_ref ad = controller_ref ''AgentDeploy'' (om_Name (ad_Meta ad)) (om_UID (ad_Meta ad))"

definition demo_sample :: "nanos \<Rightarrow> Sample" where
"demo_sample t = \<lparr>Timestamp = t, Replicas = 1, InflightPerRep = f1, RatePerRep = f1\<rparr>"

definition demo_store :: ConfigMapStore where
"demo_store = Record (demo_sample 5) ''h1'' (NewConfigMapStore demo_ref demo_deploy [])"

declare upsert.simps [simp del]

section \<open>Flush writes exactly the snapshot\<close>

text \<open>What a flush may do to the cluster: fail and leave it alone, or write the blob under the
  store's key, keeping the metadata of an existing object and owning a new one.\<close>

definition flush_outcome ::
  "('w \<Rightarrow> NamespacedName \<Rightarrow> ConfigMap option) \<Rightarrow> ConfigMapStore \<Rightarrow> bytes \<Rightarrow> 'w \<Rightarrow> store_error option \<Rightarrow> 'w \<Rightarrow> bool" where
"flush_outcome stored s blob w r w' \<longleftrightarrow>
   (case r of
      Some _ \<Rightarrow> stored w' = stored w
    | None \<Rightarrow> (\<exists>cm. stored w' = (stored w)(st_key s \<mapsto> cm) \<and> fmlookup (cm_BinaryData cm) HistoryKey = Some blob \<and>
         (case stored w (st_key s) of
            None \<Rightarrow> om_OwnerReferences (cm_Meta cm) = [st_ownerRef s] \<and> om_Labels (cm_Meta cm) = st_labels s
          | Some old \<Rightarrow> cm_Meta cm = cm_Meta old)))"

lemma flush_outcome_cong: "stored w1 = stored w \<Longrightarrow> flush_outcome stored s blob w1 = flush_outcome stored s blob w"
  by (intro ext) (simp add: flush_outcome_def split: option.split)

lemma upsert_step:
  assumes "kube cl stored dele" "upsert cl s blob retry w = (r, w')"
    and again: "\<And>w1. retry \<Longrightarrow> upsert cl s blob False w1 = (r, w') \<Longrightarrow> flush_outcome stored s blob w1 r w'"
  shows "flush_outcome stored s blob w r w'"
proof -
  obtain g w1 where g: "kget cl (st_key s) w = (g, w1)"
    by fastforce
  note w1 = kube.get_frame [OF assms(1) g]
  note run = assms(2) [unfolded upsert.simps [of cl s blob retry w] g prod.case]
  show ?thesis
  proof (cases g)
    case (Inr cm)
    define cm' where "cm' = cm\<lparr>cm_BinaryData := fmupd HistoryKey blob (cm_BinaryData cm)\<rparr>"
    have old: "stored w (st_key s) = Some cm"
      using kube.get_result [OF assms(1) g Inr] .
    obtain u w2 where u: "kupdate cl (st_key s) cm' w1 = (u, w2)"
      by fastforce
    show ?thesis
    proof (rule kube.update_cases [OF assms(1) u], goal_cases updated failed)
      case updated
      then have "r = None" "w' = w2"
        using run u Inr by (simp_all add: cm'_def)
      then show ?thesis
        using updated w1 old by (auto simp: flush_outcome_def cm'_def intro!: exI [of _ cm'])
    next
      case (failed e)
      then have "flush_outcome stored s blob w2 r w'" if "e = Conflict \<and> retry"
        using run u Inr that again [of w2] by (simp add: cm'_def)
      moreover have "r = Some (UpdateFailed e) \<and> w' = w2" if "\<not> (e = Conflict \<and> retry)"
        using run u Inr that failed(1) by (simp add: cm'_def split: if_split_asm)
      ultimately show ?thesis
        using failed(2) w1 flush_outcome_cong [of stored w2 w] by (cases "e = Conflict \<and> retry") (auto simp: flush_outcome_def)
    qed
  next
    case (Inl e)
    show ?thesis
    proof (cases "e = NotFound")
      case True
      define cm where "cm = \<lparr>cm_Meta = (new_meta (st_namespace s) (st_name s))\<lparr>om_Labels := st_labels s,
          om_OwnerReferences := [st_ownerRef s]\<rparr>, cm_BinaryData = fmap_of_list [(HistoryKey, blob)]\<rparr>"
      have new: "stored w (st_key s) = None"
        using kube.get_missing [OF assms(1) g] Inl True by simp
      obtain c w2 where c: "kcreate cl (st_key s) cm w1 = (c, w2)"
        by fastforce
      have eq: "(case c of Inr _ \<Rightarrow> (None, w2)
           | Inl e \<Rightarrow> (if e = AlreadyExists then None else Some (CreateFailed e), w2)) = (r, w')"
        using run c Inl True by (simp add: cm_def)
      show ?thesis
      proof (rule kube.create_cases [OF assms(1) c], goal_cases created failed)
        case created
        then show ?thesis
          using eq w1 new by (auto simp: flush_outcome_def cm_def new_meta_def)
      next
        case (failed e')
        have "e' \<noteq> AlreadyExists"
          using kube.create_exists [OF assms(1), of "st_key s" cm w1 w2] c failed(1) new w1 by auto
        then show ?thesis
          using eq w1 failed by (auto simp: flush_outcome_def)
      qed
    next
      case False
      then have "r = Some (GetFailed e) \<and> w' = w1"
        using run Inl by (cases e) simp_all
      then show ?thesis
        using w1 by (simp add: flush_outcome_def)
    qed
  qed
qed

lemma upsert_outcome: "kube cl stored dele \<Longrightarrow> upsert cl s blob retry w = (r, w') \<Longrightarrow> flush_outcome stored s blob w r w'"
  using upsert_step [where retry = False] upsert_step by metis

text \<open>
  C3. History survives a restart.  When a flush reports success, every other object is untouched
  and a store created later for the same AgentDeploy whose load succeeds holds exactly the records
  and the spec hash that were flushed; when it reports an error the cluster is unchanged.
\<close>

theorem flush_load_roundtrip:
  assumes kb: "kube cl stored dele"
    and "length (st_specHash s) < 2 ^ 16" "length (records (st_buf s)) < 2 ^ 32" "\<And>r. r \<in> set (records (st_buf s)) \<Longrightarrow> wf_record r"
    and flush: "Flush cl s w = (err, w')"
    and fresh: "st_key s' = st_key s" and load: "Load cl s' w' = (err', s'', w'')"
  shows "(err \<noteq> None \<longrightarrow> stored w' = stored w) \<and>
         (\<forall>k. k \<noteq> st_key s \<longrightarrow> stored w' k = stored w k) \<and>
         (err = None \<and> err' = None \<longrightarrow>
            records (st_buf s'') = records (st_buf s) \<and> st_specHash s'' = st_specHash s)"
proof -
  have out: "flush_outcome stored s (encodeHistory (st_specHash s) (records (st_buf s))) w err w'"
    using upsert_outcome [OF kb] flush by (simp add: Flush_def snapshot_def)
  have dec: "decodeHistory (encodeHistory (st_specHash s) (records (st_buf s))) = Inr (st_specHash s, records (st_buf s))"
    using decode_encode assms(2-4) by blast
  have "records (st_buf s'') = records (st_buf s) \<and> st_specHash s'' = st_specHash s" if ok: "err = None" "err' = None"
  proof -
    obtain cm where cm: "stored w' (st_key s) = Some cm"
        "fmlookup (cm_BinaryData cm) HistoryKey = Some (encodeHistory (st_specHash s) (records (st_buf s)))"
      using out ok(1) by (auto simp: flush_outcome_def)
    obtain g w1 where g: "kget cl (st_key s) w' = (g, w1)"
      by fastforce
    have "g = Inr cm"
    proof (cases g)
      case (Inl e)
      then show ?thesis
        using load g fresh ok(2) kube.get_missing [OF kb g] cm(1) by (cases e) (auto simp: Load_def)
    next
      case (Inr cm')
      then show ?thesis
        using kube.get_result [OF kb g] cm(1) by simp
    qed
    then show ?thesis
      using load g fresh cm(2) dec by (auto simp: Load_def load_def)
  qed
  then show ?thesis
    using out by (auto simp: flush_outcome_def split: option.splits)
qed

section \<open>History is learned under one spec\<close>

text \<open>The observations since the spec hash last changed.\<close>

definition same_spec_run :: "(Sample \<times> string) list \<Rightarrow> (Sample \<times> string) list" where
"same_spec_run obs = rev (takeWhile (\<lambda>(_, h). h = snd (last obs)) (rev obs))"

lemma same_spec_run_snoc:
  "same_spec_run (obs @ [(s, h)]) = (if obs \<noteq> [] \<and> snd (last obs) = h then same_spec_run obs else []) @ [(s, h)]"
  by (cases obs rule: rev_cases) (auto simp: same_spec_run_def)

lemma set_add: "sample ` set (records (add s b)) \<subseteq> insert s (sample ` set (records b))"
  by (auto simp: add_def evictLocked_def Let_def dest!: in_set_dropD set_dropWhileD)

lemma record_all_run:
  assumes "\<And>s h. (s, h) \<in> set obs \<Longrightarrow> h \<noteq> []" "records (st_buf st) = []" "st_specHash st = []"
  defines "st' \<equiv> fold (\<lambda>(s, h). Record s h) obs st"
  shows "sample ` set (records (st_buf st')) \<subseteq> fst ` set (same_spec_run obs) \<and>
         st_specHash st' = (if obs = [] then [] else snd (last obs))"
  using assms(1) unfolding st'_def
proof (induction obs rule: rev_induct)
  case Nil
  then show ?case
    using assms(2,3) by (simp add: same_spec_run_def)
next
  case (snoc o1 obs)
  obtain s h where [simp]: "o1 = (s, h)"
    by fastforce
  define st1 where "st1 = fold (\<lambda>(s, h). Record s h) obs st"
  have "h' \<noteq> []" if "(s', h') \<in> set obs" for s' h'
    using that snoc.prems [of s' h'] by simp
  then have IH: "sample ` set (records (st_buf st1)) \<subseteq> fst ` set (same_spec_run obs)"
      "st_specHash st1 = (if obs = [] then [] else snd (last obs))"
    using snoc.IH unfolding st1_def by blast+
  have ne: "obs \<noteq> [] \<Longrightarrow> snd (last obs) \<noteq> []"
    using snoc.prems [of "fst (last obs)" "snd (last obs)"] by simp
  have rec: "sample ` set (records (st_buf (Record s h st1))) \<subseteq>
      insert s (if st_specHash st1 \<noteq> [] \<and> st_specHash st1 \<noteq> h then {} else sample ` set (records (st_buf st1)))"
    using set_add [of s "st_buf st1"] set_add [of s "reset (st_buf st1)"] by (auto simp: Record_def Let_def reset_def)
  have empty: "obs = [] \<Longrightarrow> records (st_buf st1) = []"
    using assms(2) by (simp add: st1_def)
  have "sample ` set (records (st_buf (Record s h st1))) \<subseteq> fst ` set (same_spec_run (obs @ [(s, h)]))"
    using rec IH empty ne by (auto simp: same_spec_run_snoc split: if_splits)
  moreover have "fold (\<lambda>(s, h). Record s h) (obs @ [o1]) st = Record s h st1" "st_specHash (Record s h st1) = h"
    by (simp_all add: st1_def Record_def Let_def)
  ultimately show ?case
    by simp
qed

text \<open>
  C7. Capacity learned under an old pod spec does not leak into a new one.  After any sequence of
  recorded observations, each tagged with a pod-spec hash, the history the estimator sees consists
  of observations made since the hash last changed, and the store carries the current hash.
\<close>

theorem history_of_current_spec_only:
  fixes controllerRef :: "AgentDeploy \<Rightarrow> OwnerReference" and ad :: AgentDeploy and opts :: "bufferOption list"
  assumes "\<And>s h. (s, h) \<in> set obs \<Longrightarrow> h \<noteq> []" "obs \<noteq> []"
  defines "st \<equiv> fold (\<lambda>(s, h). Record s h) obs (NewConfigMapStore controllerRef ad opts)"
  shows "set (fst (HistoryOf now st)) \<subseteq> fst ` set (same_spec_run obs) \<and> st_specHash st = snd (last obs)"
proof -
  have "set (fst (HistoryOf now st)) \<subseteq> sample ` set (records (st_buf st))"
    by (auto simp: HistoryOf_def samples_def evictLocked_def Let_def dest!: in_set_dropD set_dropWhileD)
  moreover have "sample ` set (records (st_buf st)) \<subseteq> fst ` set (same_spec_run obs) \<and>
      st_specHash st = (if obs = [] then [] else snd (last obs))"
    unfolding st_def by (rule record_all_run) (use assms(1) in \<open>auto simp: NewConfigMapStore_def\<close>)
  ultimately show ?thesis
    using assms(2) by auto
qed

theorem history_of_current_spec_only_witness:
  "let st = fold (\<lambda>(s, h). Record s h) [(demo_sample 1, ''h1''), (demo_sample 2, ''h2''), (demo_sample 3, ''h2'')]
              (NewConfigMapStore demo_ref demo_deploy [])
   in set (fst (HistoryOf 3 st)) \<subseteq> {demo_sample 2, demo_sample 3} \<and> st_specHash st = ''h2''"
proof -
  define obs where "obs = [(demo_sample 1, ''h1''), (demo_sample 2, ''h2''), (demo_sample 3, ''h2'')]"
  have "set (fst (HistoryOf 3 (fold (\<lambda>(s, h). Record s h) obs (NewConfigMapStore demo_ref demo_deploy [])))) \<subseteq>
        fst ` set (same_spec_run obs) \<and>
      st_specHash (fold (\<lambda>(s, h). Record s h) obs (NewConfigMapStore demo_ref demo_deploy [])) = snd (last obs)"
    by (rule history_of_current_spec_only) (auto simp: obs_def)
  then show ?thesis
    by (simp add: Let_def obs_def same_spec_run_def)
qed

theorem flush_load_roundtrip_witness:
  "let cl = mem_client (\<lambda>_. None); w = \<lparr>objects = [], faults = []\<rparr>;
       (err, w') = Flush cl demo_store w;
       (err', s, _) = Load cl (NewConfigMapStore demo_ref demo_deploy []) w'
   in err = None \<and> err' = None \<and> records (st_buf s) = [\<lparr>sample = demo_sample 5, count = 1\<rparr>]"
proof -
  define cl :: "(NamespacedName, ConfigMap) mem cm_client" where "cl = mem_client (\<lambda>_. None)"
  define w :: "(NamespacedName, ConfigMap) mem" where "w = \<lparr>objects = [], faults = []\<rparr>"
  obtain err w' err' s w'' where run: "Flush cl demo_store w = (err, w')"
      "Load cl (NewConfigMapStore demo_ref demo_deploy []) w' = (err', s, w'')"
    by (metis prod.exhaust)
  have recs: "records (st_buf demo_store) = [\<lparr>sample = demo_sample 5, count = 1\<rparr>]" "st_specHash demo_store = ''h1''"
    by (simp_all add: demo_store_def Record_def Let_def NewConfigMapStore_def add_def evictLocked_def newBuffer_def
        demo_sample_def defaultMaxAge_def defaultMaxRecords_def minute_def second_def)
  have "decodeHistory (encodeHistory ''h1'' [\<lparr>sample = demo_sample 5, count = 1\<rparr>]) = Inr (''h1'', [\<lparr>sample = demo_sample 5, count = 1\<rparr>])"
    by (rule decode_encode) (simp_all add: wf_record_def demo_sample_def)
  moreover have "st_key (NewConfigMapStore demo_ref demo_deploy []) = st_key demo_store"
    by (simp add: demo_store_def Record_def Let_def)
  ultimately have "err = None" "err' = None"
    using run recs
    by (auto simp: Flush_def snapshot_def Load_def upsert.simps cl_def w_def mem_get_def mem_create_def with_fault_def scripted_def)
  moreover have "st_key (NewConfigMapStore demo_ref demo_deploy []) = st_key demo_store"
    by (simp add: demo_store_def Record_def Let_def)
  then have "err = None \<and> err' = None \<longrightarrow> records (st_buf s) = records (st_buf demo_store) \<and> st_specHash s = st_specHash demo_store"
    using flush_load_roundtrip [OF mem.kube_axioms [of "\<lambda>_. None"] _ _ _ run(1) [unfolded cl_def] _ run(2) [unfolded cl_def]] recs
    by (auto simp: wf_record_def demo_sample_def)
  ultimately show ?thesis
    using run recs by (simp add: Let_def cl_def w_def)
qed

section \<open>Two ways to lose history\<close>

text \<open>
  C37. A flush that loses the creation race reports success without writing.  When the object
  appears between the read and the create, \<^const>\<open>FlushIfDue\<close> returns no error and postpones the
  next flush by a full interval, and the cluster ends in the same state whatever the history is.
\<close>

theorem lost_create_race_reports_success:
  assumes "kget cl (st_key s) w = (Inl NotFound, w1)" "\<And>cm. kcreate cl (st_key s) cm w1 = (Inl AlreadyExists, w2)"
    and "interval \<le> time_sub now (st_lastFlush s)"
  shows "FlushIfDue cl s now interval w = (None, s\<lparr>st_lastFlush := now\<rparr>, w2)"
  using assms by (simp add: FlushIfDue_def Flush_def Let_def upsert.simps)

theorem lost_create_race_reports_success_witness:
  "let other = \<lparr>cm_Meta = new_meta ''ns'' ''set-a-scaling'', cm_BinaryData = fmempty\<rparr>;
       racing = (mem_client (\<lambda>_. None))\<lparr>kget := \<lambda>k m. (Inl NotFound, m\<lparr>objects := [(k, other)]\<rparr>)\<rparr>;
       (err, s, w) = FlushIfDue racing demo_store (60 * minute) minute \<lparr>objects = [], faults = []\<rparr>
   in err = None \<and> st_lastFlush s = 60 * minute \<and> objects w = [(st_key demo_store, other)]"
proof -
  define other where "other = \<lparr>cm_Meta = new_meta ''ns'' ''set-a-scaling'', cm_BinaryData = fmempty :: (string, bytes) fmap\<rparr>"
  define racing :: "(NamespacedName, ConfigMap) mem cm_client" where "racing = (mem_client (\<lambda>_. None))\<lparr>kget := \<lambda>k m. (Inl NotFound, m\<lparr>objects := [(k, other)]\<rparr>)\<rparr>"
  define w1 :: "(NamespacedName, ConfigMap) mem" where "w1 = \<lparr>objects = [(st_key demo_store, other)], faults = []\<rparr>"
  have "kget racing (st_key demo_store) \<lparr>objects = [], faults = []\<rparr> = (Inl NotFound, w1)"
    by (simp add: racing_def w1_def)
  moreover have "kcreate racing (st_key demo_store) cm w1 = (Inl AlreadyExists, w1)" for cm
    by (simp add: racing_def w1_def mem_client_def mem_create_def with_fault_def scripted_def)
  moreover have "minute \<le> time_sub (60 * minute) (st_lastFlush demo_store)"
    by code_simp
  ultimately have "FlushIfDue racing demo_store (60 * minute) minute \<lparr>objects = [], faults = []\<rparr> =
      (None, demo_store\<lparr>st_lastFlush := 60 * minute\<rparr>, w1)"
    by (rule lost_create_race_reports_success)
  then show ?thesis
    by (simp add: Let_def racing_def other_def w1_def)
qed

text \<open>
  C36. A failed hydration is never retried.  When the load behind the first \<^const>\<open>StoreFor\<close> fails, the
  empty store stays registered: later calls return it without an error and without a read, and a
  flush that succeeds replaces the persisted history by an empty one.
\<close>

theorem failed_load_discards_history:
  assumes kb: "kube cl stored dele" and "fmlookup (rg_stores r) (ad_key ad) = None"
    and "kget cl (st_key (NewConfigMapStore controllerRef ad (rg_opts r))) w = (Inl e, w1)" "e \<noteq> NotFound"
  shows "\<exists>s r'. StoreFor cl controllerRef ad r w = (Some (GetFailed e), r', w1) \<and>
           Registry_Get (ad_key ad) r' = Some s \<and> records (st_buf s) = [] \<and>
           (\<forall>w2. StoreFor cl controllerRef ad r' w2 = (None, r', w2)) \<and>
           (\<forall>w2 w3. Flush cl s w2 = (None, w3) \<longrightarrow>
              (\<exists>cm b. stored w3 (st_key s) = Some cm \<and> fmlookup (cm_BinaryData cm) HistoryKey = Some b \<and>
                      decodeHistory b = Inr ([], [])))"
proof -
  define s where "s = NewConfigMapStore controllerRef ad (rg_opts r)"
  have load: "Load cl s w = (Some (GetFailed e), s, w1)"
    using assms(3,4) by (cases e) (simp_all add: Load_def s_def)
  have s: "records (st_buf s) = []" "st_specHash s = []"
    by (simp_all add: s_def NewConfigMapStore_def)
  have "\<exists>cm b. stored w3 (st_key s) = Some cm \<and> fmlookup (cm_BinaryData cm) HistoryKey = Some b \<and> decodeHistory b = Inr ([], [])"
    if "Flush cl s w2 = (None, w3)" for w2 w3
  proof -
    have "flush_outcome stored s (encodeHistory [] []) w2 None w3"
      using upsert_outcome [OF kb] that s by (simp add: Flush_def snapshot_def)
    moreover have "decodeHistory (encodeHistory [] []) = Inr ([], [])"
      by (rule decode_encode) simp_all
    ultimately show ?thesis
      by (auto simp: flush_outcome_def)
  qed
  then show ?thesis
    using assms(2) load s by (auto simp: StoreFor_def Registry_Get_def Let_def s_def [symmetric])
qed

theorem failed_load_discards_history_witness:
  "let cl = mem_client (\<lambda>_. None);
       (_, w) = Flush cl demo_store \<lparr>objects = [], faults = []\<rparr>;
       (err, r, _) = StoreFor cl demo_ref demo_deploy (NewRegistry []) (w\<lparr>faults := [Some (OtherErr ''timeout'')]\<rparr>)
   in err = Some (GetFailed (OtherErr ''timeout'')) \<and> StoreFor cl demo_ref demo_deploy r w = (None, r, w)"
proof -
  define cl :: "(NamespacedName, ConfigMap) mem cm_client" where "cl = mem_client (\<lambda>_. None)"
  obtain e0 w where w: "Flush cl demo_store \<lparr>objects = [], faults = []\<rparr> = (e0, w)"
    by fastforce
  have get: "kget cl k (w\<lparr>faults := [Some (OtherErr ''timeout'')]\<rparr>) = (Inl (OtherErr ''timeout''), w\<lparr>faults := []\<rparr>)" for k
    by (simp add: cl_def mem_get_def with_fault_def scripted_def)
  have kb: "kube cl mem_stored (\<lambda>obj rest. rest = None)"
    unfolding cl_def using mem.kube_axioms [of "\<lambda>_. None"] .
  have "fmlookup (rg_stores (NewRegistry [])) (ad_key demo_deploy) = None"
    by (simp add: NewRegistry_def)
  then have "\<exists>s r'. StoreFor cl demo_ref demo_deploy (NewRegistry []) (w\<lparr>faults := [Some (OtherErr ''timeout'')]\<rparr>) =
        (Some (GetFailed (OtherErr ''timeout'')), r', w\<lparr>faults := []\<rparr>) \<and>
      (\<forall>w2. StoreFor cl demo_ref demo_deploy r' w2 = (None, r', w2))"
    using failed_load_discards_history [OF kb _ get] by blast
  then show ?thesis
    using w by (auto simp: Let_def cl_def)
qed

end
