(* ===== verification/Float64_Bounds.thy ===== *)
theory Float64_Bounds
  imports Float64_Rounding
begin

text \<open>
  Interval reasoning for binary64 operations.  An exact result between two representable reals
  is rounded to a finite value between them; the operations inherit this.  The lemmas are the
  rules with which the client theories bound weights, estimates, rates and targets.
\<close>

section \<open>Representable reals\<close>

definition representable :: "real \<Rightarrow> bool" where
"representable x \<longleftrightarrow> (\<exists>g. is_fin g \<and> fval g = x)"

definition fin_in :: "real \<Rightarrow> real \<Rightarrow> f64 \<Rightarrow> bool" where
"fin_in lo hi f \<longleftrightarrow> is_fin f \<and> lo \<le> fval f \<and> fval f \<le> hi"

lemma representable_fval [simp]: "is_fin f \<Longrightarrow> representable (fval f)"
  by (auto simp: representable_def)

lemma representable_int: "\<bar>n\<bar> \<le> 2 ^ 53 \<Longrightarrow> representable (of_int n)"
  using f_of_int_exact by (auto simp: representable_def)

lemma representable_numeral [simp]:
  "numeral n \<le> (2 ^ 53 :: int) \<Longrightarrow> representable (numeral n)"
  "representable 0" "representable 1"
  using representable_int [of "numeral n"] representable_int [of 0] representable_int [of 1] by simp_all

lemma representable_minus [simp]: "representable (- x) \<longleftrightarrow> representable x"
proof -
  have "representable x \<Longrightarrow> representable (- x)" for x
    by (metis fneg_facts(2,5) representable_def)
  from this [of x] this [of "- x"] show ?thesis
    by auto
qed

lemma mval_normal: "1 \<le> x \<Longrightarrow> mval (x * 2 ^ 52) = 2 powr (of_int x - 1023)"
proof -
  assume "1 \<le> x"
  then have "mval (x * 2 ^ 52) = 2 ^ 52 * 2 powr of_int (x - 1075)"
    by (simp add: mval_def Let_def)
  also have "\<dots> = 2 powr (of_int (x - 1075) + 52)"
    by (rule two_powr_add(1) [symmetric])
  finally show ?thesis
    by simp
qed

lemma representable_powr:
  assumes "- 1022 \<le> e" "e \<le> 1023"
  shows "representable (2 powr of_int e)"
proof -
  define m where "m = (e + 1023) * 2 ^ 52"
  have m: "0 \<le> m" "m < inf_mag" "m < 2 ^ 63"
    using assms by (simp_all add: m_def inf_mag_def)
  then have "is_fin (mk_f64 False m)"
    by (simp add: is_fin_def mk_f64_fields)
  moreover have "fval (mk_f64 False m) = 2 powr of_int e"
    using m assms mval_normal [of "e + 1023"] by (simp add: fval_def mk_f64_fields m_def)
  ultimately show ?thesis
    by (auto simp: representable_def)
qed

lemma representable_power: "n \<le> 1023 \<Longrightarrow> representable (2 ^ n)"
  using representable_powr [of "int n"] by (simp add: powr_realpow)

section \<open>Intervals\<close>

lemma fin_in_srnd:
  assumes "\<not> is_nan r" "fkey r = srnd v" "representable lo" "representable hi" "lo \<le> v" "v \<le> hi"
  shows "fin_in lo hi r"
proof -
  obtain l h where l: "is_fin l" "fval l = lo" and h: "is_fin h" "fval h = hi"
    using assms by (auto simp: representable_def)
  have "fkey l \<le> fkey r" "fkey r \<le> fkey h"
    using srnd_ge_fkey [OF l(1)] srnd_le_fkey [OF h(1)] l h assms by auto
  moreover have "- inf_mag < fkey l" "fkey h < inf_mag"
    using l h by (simp_all add: is_fin_iff)
  ultimately have "is_fin r"
    by (simp add: is_fin_iff)
  then show ?thesis
    using \<open>fkey l \<le> fkey r\<close> \<open>fkey r \<le> fkey h\<close> fval_le_iff [OF l(1)] fval_le_iff [OF _ h(1)] l h
    by (auto simp: fin_in_def)
qed

lemma fadd_in:
  assumes "is_fin a" "is_fin b" "representable lo" "representable hi" "lo \<le> fval a + fval b" "fval a + fval b \<le> hi"
  shows "fin_in lo hi (fadd a b)"
  using assms fadd_fin [of a b] by (intro fin_in_srnd [of _ "fval a + fval b"]) simp_all

lemma fsub_in:
  assumes "is_fin a" "is_fin b" "representable lo" "representable hi" "lo \<le> fval a - fval b" "fval a - fval b \<le> hi"
  shows "fin_in lo hi (fsub a b)"
  using assms fsub_fin [of a b] by (intro fin_in_srnd [of _ "fval a - fval b"]) simp_all

lemma fmul_in:
  assumes "is_fin a" "is_fin b" "representable lo" "representable hi" "lo \<le> fval a * fval b" "fval a * fval b \<le> hi"
  shows "fin_in lo hi (fmul a b)"
  using assms fmul_fin [of a b] by (intro fin_in_srnd [of _ "fval a * fval b"]) simp_all

lemma fval_nonzero_key: "is_fin b \<Longrightarrow> fval b \<noteq> 0 \<Longrightarrow> fkey b \<noteq> 0"
proof
  assume "fval b \<noteq> 0" "fkey b = 0"
  then show False
    using fval_key [of b] by (simp add: mval_def)
qed

lemma fdiv_in:
  assumes "is_fin a" "is_fin b" "fval b \<noteq> 0" "representable lo" "representable hi"
    "lo \<le> fval a / fval b" "fval a / fval b \<le> hi"
  shows "fin_in lo hi (fdiv a b)"
  using assms fdiv_fin [of a b] fval_nonzero_key [of b]
  by (intro fin_in_srnd [of _ "fval a / fval b"]) simp_all

lemmas f_ops_in = fadd_in fsub_in fmul_in fdiv_in

lemma fmax_in:
  assumes "is_fin a" "is_fin b"
  shows "is_fin (fmax a b)" "fval (fmax a b) = max (fval a) (fval b)"
proof -
  have k: "fkey (fmax a b) = max (fkey a) (fkey b)"
    using assms by (simp add: fmax_key is_fin_not)
  then show fin: "is_fin (fmax a b)"
    using assms by (auto simp: is_fin_iff max_def)
  show "fval (fmax a b) = max (fval a) (fval b)"
    using k assms fval_le_iff [OF assms] fval_le_iff [OF assms(2,1)]
    by (auto simp: fval_key max_def)
qed

lemma fmin_in:
  assumes "is_fin a" "is_fin b"
  shows "is_fin (fmin a b)" "fval (fmin a b) = min (fval a) (fval b)"
proof -
  have k: "fkey (fmin a b) = min (fkey a) (fkey b)"
    using assms by (simp add: fmin_key is_fin_not)
  then show fin: "is_fin (fmin a b)"
    using assms by (auto simp: is_fin_iff min_def)
  show "fval (fmin a b) = min (fval a) (fval b)"
    using k assms fval_le_iff [OF assms] fval_le_iff [OF assms(2,1)]
    by (auto simp: fval_key min_def)
qed

lemma flt_fval: "is_fin a \<Longrightarrow> is_fin b \<Longrightarrow> flt a b \<longleftrightarrow> fval a < fval b"
  by (simp add: flt_def is_fin_not fval_less_iff)

lemma fle_fval: "is_fin a \<Longrightarrow> is_fin b \<Longrightarrow> fle a b \<longleftrightarrow> fval a \<le> fval b"
  by (simp add: fle_def is_fin_not fval_le_iff)

lemma fin_inD: "fin_in lo hi f \<Longrightarrow> is_fin f" "fin_in lo hi f \<Longrightarrow> lo \<le> fval f" "fin_in lo hi f \<Longrightarrow> fval f \<le> hi"
  by (simp_all add: fin_in_def)

section \<open>Differences do not vanish\<close>

lemma fval_granular: "\<exists>n :: int. fval f = of_int n * 2 powr - 1074"
proof -
  define s where "s = (if fneg_bit f then - 1 else 1) * fman f * 2 ^ nat (fexp f + 1074)"
  have "0 \<le> fexp f + 1074"
    by (simp add: fexp_def)
  then have "(2 :: real) ^ nat (fexp f + 1074) = 2 powr of_int (fexp f + 1074)"
    by (simp add: powr_realpow [symmetric])
  then have "real_of_int s * 2 powr - 1074 = (if fneg_bit f then - 1 else 1) * of_int (fman f) *
      (2 powr of_int (fexp f + 1074) * 2 powr - 1074)"
    by (simp add: s_def)
  also have "\<dots> = fval f"
    by (simp only: powr_add [symmetric] fval_man_exp) simp
  finally show ?thesis
    by metis
qed

lemma srnd_pos: "2 powr - 1074 \<le> v \<Longrightarrow> 0 < srnd v"
proof -
  assume v: "2 powr - 1074 \<le> v"
  have "rmag (mval 1) \<le> rmag v"
    using v by (intro rm_mono) (simp add: mval_def)
  moreover have "rmag (mval 1) = 1"
    by (rule rm_mval) (simp_all add: inf_mag_def)
  moreover have "(0 :: real) < 2 powr - 1074"
    by simp
  then have "0 < v"
    using v by linarith
  ultimately show ?thesis
    by (simp add: srnd_def)
qed

lemma fsub_pos:
  assumes "is_fin a" "is_fin b" "fval b < fval a"
  shows "0 < fkey (fsub a b)"
proof -
  obtain m n where m: "fval a = of_int m * 2 powr - 1074" and n: "fval b = of_int n * 2 powr - 1074"
    using fval_granular by metis
  then have "n < m"
    using assms(3) by simp
  then have "1 * 2 powr - 1074 \<le> (of_int (m - n) :: real) * 2 powr - 1074"
    by (intro mult_right_mono) simp_all
  then have "2 powr - 1074 \<le> fval a - fval b"
    by (simp add: m n left_diff_distrib)
  then show ?thesis
    using assms by (simp add: fsub_fin srnd_pos)
qed

end
