(* ===== verification/Estimator.thy ===== *)
theory Estimator
  imports Samples Float64_Bounds
begin

text \<open>
  \<open>pkg/reconciler/agentdeploy/scaling/decision/estimator.go\<close>: learning the per-replica
  saturation knee from the history.  A Go panic (an index out of range) is \<open>None\<close>.  The two
  sorts and the platform (\<open>math.Exp\<close>, out-of-range conversions) are arguments.  The arithmetic
  rounds after every operation; the fused multiply-add some architectures allow is not modelled.
\<close>

section \<open>Estimates\<close>

record Estimate =
  KneePerReplica :: f64
  IsLowerBound :: bool
  Confidence :: f64

definition decayHalfLife :: nanos where
"decayHalfLife = 6 * 60 * minute"

definition minSamplesToLearn :: nat where
"minSamplesToLearn = 8"

definition fullConfidenceWindow :: nanos where
"fullConfidenceWindow = 10 * minute"

definition numBuckets :: nat where
"numBuckets = 10"

definition plateauFraction :: f64 where
"plateauFraction = f_lit 2 10"

definition lowerBoundPenalty :: f64 where
"lowerBoundPenalty = f_lit 4 10"

text \<open>\<open>math.Ln2\<close> as a \<open>float64\<close>.\<close>

definition ln2 :: f64 where
"ln2 = f_lit 693147180559945309417232121458176568 1000000000000000000000000000000000000"

definition clampF :: "f64 \<Rightarrow> f64 \<Rightarrow> f64 \<Rightarrow> f64" where
"clampF v lo hi = fmax lo (fmin hi v)"

definition recencyWeight :: "platform \<Rightarrow> nanos \<Rightarrow> f64" where
"recencyWeight pf age =
   (if age < 0 then f1
    else let tau = fdiv (f_of_int decayHalfLife) ln2
         in pf_exp pf (fdiv (fneg (f_of_int age)) tau))"

section \<open>Buckets\<close>

record bucket =
  b_inflight :: f64
  b_rate :: f64
  b_weight :: f64

record acc =
  wInflight :: f64
  wRate :: f64
  w_total :: f64

definition zero_acc :: acc where
"zero_acc = \<lparr>wInflight = f0, wRate = f0, w_total = f0\<rparr>"

definition bucket_index :: "platform \<Rightarrow> f64 \<Rightarrow> f64 \<Rightarrow> f64 \<Rightarrow> int" where
"bucket_index pf minI width x =
   (let idx = f_to_int64 pf (fmul (fdiv (fsub x minI) width) (f_of_int (int numBuckets)))
    in if idx \<ge> int numBuckets then int numBuckets - 1 else idx)"

definition acc_add :: "Sample \<Rightarrow> f64 \<Rightarrow> acc \<Rightarrow> acc" where
"acc_add s w a =
   \<lparr>wInflight = fadd (wInflight a) (fmul (InflightPerRep s) w),
    wRate = fadd (wRate a) (fmul (RatePerRep s) w),
    w_total = fadd (w_total a) w\<rparr>"

fun bucket_loop :: "platform \<Rightarrow> nanos \<Rightarrow> f64 \<Rightarrow> f64 \<Rightarrow> Sample list \<Rightarrow> acc list \<Rightarrow> acc list option" where
"bucket_loop pf now minI width [] accs = Some accs" |
"bucket_loop pf now minI width (s # rest) accs =
   (let idx = bucket_index pf minI width (InflightPerRep s);
        w = recencyWeight pf (time_sub now (Timestamp s))
    in if idx < 0 \<or> idx \<ge> int (length accs) then None
       else bucket_loop pf now minI width rest (accs[nat idx := acc_add s w (accs ! nat idx)]))"

definition bucket_of :: "acc \<Rightarrow> bucket" where
"bucket_of a = \<lparr>b_inflight = fdiv (wInflight a) (w_total a), b_rate = fdiv (wRate a) (w_total a),
                b_weight = w_total a\<rparr>"

definition bucketize ::
  "platform \<Rightarrow> (bucket list \<Rightarrow> bucket list) \<Rightarrow> Sample list \<Rightarrow> nanos \<Rightarrow> bucket list option" where
"bucketize pf srtB clean now =
   (case clean of
      [] \<Rightarrow> None
    | s0 # _ \<Rightarrow>
        let minI = foldl (\<lambda>m s. fmin m (InflightPerRep s)) (InflightPerRep s0) clean;
            maxI = foldl (\<lambda>m s. fmax m (InflightPerRep s)) (InflightPerRep s0) clean
        in if fle maxI minI
           then Some [\<lparr>b_inflight = maxI, b_rate = f0, b_weight = f1\<rparr>]
           else case bucket_loop pf now minI (fsub maxI minI) clean (replicate numBuckets zero_acc) of
                  None \<Rightarrow> None
                | Some accs \<Rightarrow> Some (srtB (map bucket_of (filter (\<lambda>a. \<not> fle (w_total a) f0) accs))))"

section \<open>The knee\<close>

fun knee_loop :: "f64 \<Rightarrow> bucket \<Rightarrow> bucket list \<Rightarrow> f64 \<times> bool" where
"knee_loop ref prev [] = (b_inflight prev, True)" |
"knee_loop ref prev (b # rest) =
   (let dIn = fsub (b_inflight b) (b_inflight prev) in
    if fle dIn f0 then knee_loop ref b rest
    else if flt (fdiv (fsub (b_rate b) (b_rate prev)) dIn) (fmul plateauFraction ref)
    then (b_inflight prev, False)
    else knee_loop ref b rest)"

definition findKnee :: "bucket list \<Rightarrow> (f64 \<times> bool) option" where
"findKnee buckets =
   (case buckets of
      [] \<Rightarrow> None
    | b0 # rest \<Rightarrow>
        let ref = fdiv (b_rate b0) (b_inflight b0)
        in Some (if fle ref f0 then (b_inflight (last buckets), True) else knee_loop ref b0 rest))"

definition timeSpanFactor :: "Sample list \<Rightarrow> f64" where
"timeSpanFactor clean =
   (if length clean < 2 then f0
    else let width = time_sub (Timestamp (last clean)) (Timestamp (hd clean))
         in clampF (fdiv (f_of_int width) (f_of_int fullConfidenceWindow)) f0 f1)"

definition coverageFactor :: "bucket list \<Rightarrow> f64" where
"coverageFactor buckets =
   (let lo = b_inflight (hd buckets); hi = b_inflight (last buckets)
    in if fle hi f0 then f0 else clampF (fdiv (fsub hi lo) hi) f0 f1)"

definition confidence :: "Sample list \<Rightarrow> bucket list \<Rightarrow> bool \<Rightarrow> f64" where
"confidence clean buckets isLowerBound =
   (let c = fmul (timeSpanFactor clean) (coverageFactor buckets);
        c' = (if isLowerBound then fmul c lowerBoundPenalty else c)
    in clampF c' f0 f1)"

definition EstimateKnee ::
  "platform \<Rightarrow> (Sample list \<Rightarrow> Sample list) \<Rightarrow> (bucket list \<Rightarrow> bucket list) \<Rightarrow> Sample list \<Rightarrow> nanos \<Rightarrow>
   Estimate option" where
"EstimateKnee pf srt srtB hist now =
   (let clean = Sanitize srt hist in
    if length clean < minSamplesToLearn
    then Some \<lparr>KneePerReplica = f0, IsLowerBound = False, Confidence = f0\<rparr>
    else case bucketize pf srtB clean now of
      None \<Rightarrow> None
    | Some buckets \<Rightarrow>
        if length buckets < 2
        then (if buckets = [] then None
              else Some \<lparr>KneePerReplica = b_inflight (last buckets), IsLowerBound = True,
                         Confidence = fmul lowerBoundPenalty (timeSpanFactor clean)\<rparr>)
        else case findKnee buckets of
               None \<Rightarrow> None
             | Some (knee, isLowerBound) \<Rightarrow>
                 Some \<lparr>KneePerReplica = knee, IsLowerBound = isLowerBound,
                       Confidence = confidence clean buckets isLowerBound\<rparr>)"

section \<open>Assumptions on the environment\<close>

text \<open>\<open>math.Exp\<close> on the weights' range: positive and at most one, up to its rounding.\<close>

definition exp_ok :: "platform \<Rightarrow> bool" where
"exp_ok pf \<longleftrightarrow> (\<forall>x. fin_in (- 20) 0 x \<longrightarrow> fin_in (2 powr - 30) 1 (pf_exp pf x))"

text \<open>A concrete platform: a rational stand-in for the exponential, saturating conversions.\<close>

definition demo_platform :: platform where
"demo_platform = \<lparr>pf_exp = (\<lambda>x. fdiv f1 (fsub f1 x)), pf_int32 = (\<lambda>_. - (2 ^ 31)), pf_int64 = (\<lambda>_. - (2 ^ 63))\<rparr>"

definition sane :: "nanos \<Rightarrow> Sample \<Rightarrow> bool" where
"sane now s \<longleftrightarrow> is_fin (InflightPerRep s) \<and> fval (InflightPerRep s) \<le> 2 ^ 30 \<and>
                is_fin (RatePerRep s) \<and> fval (RatePerRep s) \<le> 2 ^ 30 \<and>
                now - Timestamp s \<le> defaultMaxAge"

definition by_inflight :: "bucket \<Rightarrow> bucket \<Rightarrow> bool" where
"by_inflight x y \<longleftrightarrow> flt (b_inflight x) (b_inflight y)"

abbreviation "bucket_sort srtB \<equiv> slice_sort srtB by_inflight (\<lambda>b. \<not> is_nan (b_inflight b))"

interpretation key_bucket: slice_sort "sort_key (\<lambda>b. fkey (b_inflight b))" by_inflight "\<lambda>b. \<not> is_nan (b_inflight b)"
proof unfold_locales
  fix xs :: "bucket list"
  have "sorted_wrt (\<le>) (map (\<lambda>b. fkey (b_inflight b)) (sort_key (\<lambda>b. fkey (b_inflight b)) xs))"
    using sorted_sort_key by blast
  then show "sorted_wrt (\<lambda>x y. \<not> by_inflight y x) (sort_key (\<lambda>b. fkey (b_inflight b)) xs)"
    unfolding sorted_wrt_map by (rule sorted_wrt_mono_rel [rotated]) (simp add: by_inflight_def flt_def)
qed simp

section \<open>Sanitized samples\<close>

lemma dedup_step_facts: "set (dedup_step out s) \<subseteq> set out \<union> {s}" "length (dedup_step out s) \<le> Suc (length out)"
  by (auto simp: dedup_step_def dest: in_set_butlastD)

lemma dedup_facts: "set (dedupByTimestamp ss) \<subseteq> set ss" "length (dedupByTimestamp ss) \<le> length ss"
proof -
  have "set (foldl dedup_step out ss) \<subseteq> set out \<union> set ss \<and> length (foldl dedup_step out ss) \<le> length out + length ss" for out
  proof (induction ss arbitrary: out)
    case (Cons s ss)
    show ?case
      using dedup_step_facts [of out s] Cons.IH [of "dedup_step out s"] by auto
  qed simp
  from this [of "[]"] show "set (dedupByTimestamp ss) \<subseteq> set ss" "length (dedupByTimestamp ss) \<le> length ss"
    by (simp_all add: dedupByTimestamp_def)
qed

lemma sanitize_loop_facts:
  "set (sanitize_loop b lc pr ss) \<subseteq> {s \<in> set ss. valid s}" "length (sanitize_loop b lc pr ss) \<le> length ss"
proof -
  have "set (sanitize_loop b lc pr ss) \<subseteq> {s \<in> set ss. valid s} \<and> length (sanitize_loop b lc pr ss) \<le> length ss"
  proof (induction ss arbitrary: b lc pr)
    case (Cons s ss)
    define lc' where "lc' = (if \<not> b \<and> Replicas s \<noteq> pr then Timestamp s else lc)"
    show ?case
      using Cons.IH [of False lc' "Replicas s"] by (auto simp: Let_def lc'_def [symmetric] le_SucI)
  qed simp
  then show "set (sanitize_loop b lc pr ss) \<subseteq> {s \<in> set ss. valid s}" "length (sanitize_loop b lc pr ss) \<le> length ss"
    by simp_all
qed

lemma Sanitize_facts:
  assumes "time_sort srt"
  shows "set (Sanitize srt hist) \<subseteq> {s \<in> set hist. valid s}" "length (Sanitize srt hist) \<le> length hist"
proof -
  define ss where "ss = dedupByTimestamp (srt hist)"
  have ss: "set ss \<subseteq> set hist" "length ss \<le> length hist"
    using dedup_facts [of "srt hist"] slice_sort.set_srt [OF assms, of hist]
      slice_sort.length_srt [OF assms, of hist] by (simp_all add: ss_def)
  then show "set (Sanitize srt hist) \<subseteq> {s \<in> set hist. valid s}" "length (Sanitize srt hist) \<le> length hist"
    using sanitize_loop_facts [of True zero_time "Replicas (hd ss)" ss]
    by (auto simp: Sanitize_def Let_def ss_def [symmetric])
qed

lemma valid_pos: "valid s \<Longrightarrow> is_fin (InflightPerRep s) \<Longrightarrow> 0 < fval (InflightPerRep s)"
  "valid s \<Longrightarrow> is_fin (RatePerRep s) \<Longrightarrow> 0 < fval (RatePerRep s)"
  by (simp_all add: valid_def flt_fval)

section \<open>Bucket indices\<close>

lemma bucket_index_range:
  assumes "is_fin x" "is_fin lo" "is_fin hi" "fval lo \<le> fval x" "fval x \<le> fval hi" "fval lo < fval hi"
    and "is_fin (fsub hi lo)"
  shows "0 \<le> bucket_index pf lo (fsub hi lo) x \<and> bucket_index pf lo (fsub hi lo) x < int numBuckets"
proof -
  define w a where "w = fsub hi lo" and "a = fsub x lo"
  have w: "is_fin w" "0 < fval w"
    using assms fsub_pos [of hi lo] by (simp_all add: w_def fkey_sign)
  have a: "fin_in 0 (fval w) a"
  proof -
    have "fkey a \<le> fkey w" "0 \<le> fkey a" "\<not> is_nan a"
      using assms srnd_mono [of "fval x - fval lo" "fval hi - fval lo"] srnd_sign(1) [of "fval x - fval lo"]
      by (simp_all add: a_def w_def fsub_fin)
    then have "is_fin a"
      using w(1) inf_mag_range by (simp add: is_fin_iff)
    then show ?thesis
      using \<open>fkey a \<le> fkey w\<close> \<open>0 \<le> fkey a\<close> w(1) by (simp add: fin_in_def fkey_sign fval_le_iff)
  qed
  have q: "fin_in 0 1 (fdiv a w)"
    using a w by (intro fdiv_in) (simp_all add: fin_in_def)
  have ten: "is_fin (f_of_int (int numBuckets))" "fval (f_of_int (int numBuckets)) = 10"
    using f_of_int_exact [of 10] by (simp_all add: numBuckets_def)
  have p: "fin_in 0 10 (fmul (fdiv a w) (f_of_int (int numBuckets)))"
    using q ten by (intro fmul_in) (simp_all add: fin_in_def)
  then have "0 \<le> f_trunc (fmul (fdiv a w) (f_of_int (int numBuckets)))"
      "f_trunc (fmul (fdiv a w) (f_of_int (int numBuckets))) \<le> 10"
    by (simp_all add: f_trunc_val fin_in_def floor_le_iff)
  then show ?thesis
    using p by (simp add: bucket_index_def a_def [symmetric] w_def [symmetric] f_to_int64_def fin_in_def
        Let_def numBuckets_def)
qed

section \<open>Weights\<close>

lemma tau_bounds: "is_fin (fdiv (f_of_int decayHalfLife) ln2)" "31000000000000 \<le> fval (fdiv (f_of_int decayHalfLife) ln2)"
proof -
  show tau: "is_fin (fdiv (f_of_int decayHalfLife) ln2)"
    by code_simp
  have "fkey (f_of_int 31000000000000) \<le> fkey (fdiv (f_of_int decayHalfLife) ln2)"
    by code_simp
  then show "31000000000000 \<le> fval (fdiv (f_of_int decayHalfLife) ln2)"
    using fval_le_iff [OF _ tau, of "f_of_int 31000000000000"] f_of_int_exact [of 31000000000000] by simp
qed

lemma recencyWeight_in:
  assumes "exp_ok pf" "age \<le> defaultMaxAge"
  shows "fin_in (2 powr - 30) 1 (recencyWeight pf age)"
proof (cases "age < 0")
  case True
  have "(2 :: real) powr - 30 \<le> 2 powr 0"
    by (rule powr_mono) simp_all
  then show ?thesis
    using True by (simp add: recencyWeight_def fin_in_def)
next
  case False
  define tau where "tau = fdiv (f_of_int decayHalfLife) ln2"
  have age: "is_fin (f_of_int age)" "fval (f_of_int age) = of_int age"
    using False assms(2) f_of_int_exact [of age]
    by (simp_all add: defaultMaxAge_def minute_def second_def)
  have tau: "is_fin tau" "31000000000000 \<le> fval tau"
    using tau_bounds by (simp_all add: tau_def)
  have "real_of_int age \<le> 604800000000000"
    using assms(2) by (simp add: defaultMaxAge_def minute_def second_def)
  then have "of_int age \<le> 20 * fval tau"
    using tau(2) by simp
  then have "fin_in (- 20) 0 (fdiv (fneg (f_of_int age)) tau)"
    using age tau False by (intro fdiv_in) (simp_all add: divide_le_eq le_divide_eq)
  then show ?thesis
    using False assms(1) by (simp add: recencyWeight_def exp_ok_def Let_def tau_def)
qed

section \<open>Accumulators\<close>

definition acc_ok :: "nat \<Rightarrow> acc \<Rightarrow> bool" where
"acc_ok k a \<longleftrightarrow>
   fin_in 0 (of_nat k * 2 ^ 30) (wInflight a) \<and> fin_in 0 (of_nat k * 2 ^ 30) (wRate a) \<and>
   fin_in 0 (of_nat k) (w_total a) \<and> (fval (w_total a) = 0 \<or> 2 powr - 30 \<le> fval (w_total a))"

lemma acc_ok_mono: "acc_ok k a \<Longrightarrow> k \<le> k' \<Longrightarrow> acc_ok k' a"
proof -
  assume a: "acc_ok k a" "k \<le> k'"
  then have "real k \<le> real k'" "real k * 2 ^ 30 \<le> real k' * 2 ^ 30"
    by simp_all
  then show ?thesis
    using a(1) unfolding acc_ok_def fin_in_def by linarith
qed

lemma zero_acc_ok: "acc_ok 0 zero_acc"
  by (simp add: acc_ok_def zero_acc_def fin_in_def)

lemma representable_scaled: "k \<le> 2 ^ 20 \<Longrightarrow> representable (of_nat k * 2 ^ 30)" "k \<le> 2 ^ 20 \<Longrightarrow> representable (of_nat k)"
proof -
  assume k: "k \<le> 2 ^ 20"
  show "representable (of_nat k)"
    using k representable_int [of "int k"] by simp
  have "\<bar>int k * 2 ^ 30\<bar> \<le> 2 ^ 53"
    using k by simp
  then show "representable (of_nat k * 2 ^ 30)"
    using representable_int [of "int k * 2 ^ 30"] by simp
qed

lemma acc_add_ok:
  assumes "acc_ok k a" "Suc k \<le> 2 ^ 20" "fin_in (2 powr - 30) 1 w"
    and "fin_in 0 (2 ^ 30) (InflightPerRep s)" "fin_in 0 (2 ^ 30) (RatePerRep s)"
  shows "acc_ok (Suc k) (acc_add s w a)" and "2 powr - 30 \<le> fval (w_total (acc_add s w a))"
proof -
  have w0: "0 \<le> fval w"
    using assms(3) by (smt (verit) fin_in_def powr_ge_zero)
  have scaled: "fin_in 0 (2 ^ 30) (fmul x w)" if "fin_in 0 (2 ^ 30) x" for x
    using that assms(3) w0 mult_mono [of "fval x" "2 ^ 30" "fval w" 1]
    by (intro fmul_in) (simp_all add: fin_in_def)
  have sum: "fin_in 0 (of_nat (Suc k) * 2 ^ 30) (fadd x y)"
    if "fin_in 0 (of_nat k * 2 ^ 30) x" "fin_in 0 (2 ^ 30) y" for x y
    using that representable_scaled(1) [OF assms(2)] by (intro fadd_in) (simp_all add: fin_in_def algebra_simps)
  have "fin_in (2 powr - 30) (of_nat (Suc k)) (fadd (w_total a) w)"
    using assms(1,3) representable_scaled(2) [OF assms(2)] representable_powr [of "- 30"]
    by (intro fadd_in) (simp_all add: fin_in_def acc_ok_def)
  then show "acc_ok (Suc k) (acc_add s w a)" and "2 powr - 30 \<le> fval (w_total (acc_add s w a))"
    using assms sum scaled by (auto simp: acc_ok_def acc_add_def fin_in_def intro: order_trans [of 0 "2 powr - 30"])
qed

lemma bucket_of_in:
  assumes "acc_ok k a" "k \<le> 2 ^ 20" "\<not> fle (w_total a) f0"
  shows "fin_in 0 (2 ^ 80) (b_inflight (bucket_of a))" "fin_in 0 (2 ^ 80) (b_rate (bucket_of a))"
proof -
  have w: "is_fin (w_total a)" "2 powr - 30 \<le> fval (w_total a)"
    using assms by (auto simp: acc_ok_def fin_in_def fle_fval)
  have pos: "0 < fval (w_total a)"
    using w(2) by (smt (verit) powr_gt_zero)
  have "fin_in 0 (2 ^ 80) (fdiv x (w_total a))" if "fin_in 0 (of_nat k * 2 ^ 30) x" for x
  proof -
    have "fval x \<le> 2 ^ 50"
      using that assms(2) by (auto simp: fin_in_def intro: order_trans)
    also have "(2 :: real) ^ 50 = 2 ^ 80 * 2 powr - 30"
      by (simp add: powr_minus powr_numeral)
    also have "\<dots> \<le> 2 ^ 80 * fval (w_total a)"
      using w(2) by simp
    finally show ?thesis
      using that w pos representable_power [of 80] by (intro fdiv_in) (simp_all add: fin_in_def divide_le_eq)
  qed
  then show "fin_in 0 (2 ^ 80) (b_inflight (bucket_of a))" "fin_in 0 (2 ^ 80) (b_rate (bucket_of a))"
    using assms(1) by (simp_all add: bucket_of_def acc_ok_def)
qed

section \<open>Folds and clamps\<close>

lemma foldl_fmin:
  assumes "is_fin m" "\<And>s. s \<in> set ss \<Longrightarrow> is_fin (f s)"
  shows "is_fin (foldl (\<lambda>m s. fmin m (f s)) m ss) \<and> fval (foldl (\<lambda>m s. fmin m (f s)) m ss) \<le> fval m \<and>
         (\<forall>s \<in> set ss. fval (foldl (\<lambda>m s. fmin m (f s)) m ss) \<le> fval (f s)) \<and>
         fval (foldl (\<lambda>m s. fmin m (f s)) m ss) \<in> insert (fval m) ((\<lambda>s. fval (f s)) ` set ss)"
  using assms
proof (induction ss arbitrary: m)
  case (Cons s ss)
  have *: "is_fin (fmin m (f s))" "fval (fmin m (f s)) = min (fval m) (fval (f s))"
    using Cons.prems fmin_in [of m "f s"] by simp_all
  show ?case
    using Cons.IH [OF *(1)] Cons.prems * by (auto simp: min_def split: if_splits)
qed simp

lemma foldl_fmax:
  assumes "is_fin m" "\<And>s. s \<in> set ss \<Longrightarrow> is_fin (f s)"
  shows "is_fin (foldl (\<lambda>m s. fmax m (f s)) m ss) \<and> fval m \<le> fval (foldl (\<lambda>m s. fmax m (f s)) m ss) \<and>
         (\<forall>s \<in> set ss. fval (f s) \<le> fval (foldl (\<lambda>m s. fmax m (f s)) m ss)) \<and>
         fval (foldl (\<lambda>m s. fmax m (f s)) m ss) \<in> insert (fval m) ((\<lambda>s. fval (f s)) ` set ss)"
  using assms
proof (induction ss arbitrary: m)
  case (Cons s ss)
  have *: "is_fin (fmax m (f s))" "fval (fmax m (f s)) = max (fval m) (fval (f s))"
    using Cons.prems fmax_in [of m "f s"] by simp_all
  show ?case
    using Cons.IH [OF *(1)] Cons.prems * by (auto simp: max_def split: if_splits)
qed simp

lemma clampF_unit: "\<not> is_nan v \<Longrightarrow> fin_in 0 1 (clampF v f0 f1)"
proof -
  assume v: "\<not> is_nan v"
  have nan: "\<not> is_nan (fmin f1 v)"
    using v by (auto simp: fmin_def)
  have k: "fkey (clampF v f0 f1) = max (fkey f0) (min (fkey f1) (fkey v))"
    using v nan by (simp add: clampF_def fmax_key fmin_key)
  have fin: "is_fin (clampF v f0 f1)"
    using k is_fin_iff [of f0] is_fin_iff [of f1] is_fin_iff [of "clampF v f0 f1"] by auto
  have "fkey f0 \<le> fkey (clampF v f0 f1)" "fkey (clampF v f0 f1) \<le> fkey f1"
    unfolding k by (auto simp: fval_le_iff [symmetric])
  then show ?thesis
    using fin fval_le_iff [of f0 "clampF v f0 f1"] fval_le_iff [of "clampF v f0 f1" f1] by (simp add: fin_in_def)
qed

lemma unit_fmul: "fin_in 0 1 a \<Longrightarrow> fin_in 0 1 b \<Longrightarrow> fin_in 0 1 (fmul a b)"
  by (intro fmul_in) (auto simp: fin_in_def intro: mult_le_one)

section \<open>The loop over the samples\<close>

definition weighable :: "platform \<Rightarrow> nanos \<Rightarrow> f64 \<Rightarrow> f64 \<Rightarrow> Sample \<Rightarrow> bool" where
"weighable pf now minI width s \<longleftrightarrow>
   fin_in 0 (2 ^ 30) (InflightPerRep s) \<and> fin_in 0 (2 ^ 30) (RatePerRep s) \<and>
   0 \<le> bucket_index pf minI width (InflightPerRep s) \<and>
   bucket_index pf minI width (InflightPerRep s) < int numBuckets \<and>
   fin_in (2 powr - 30) 1 (recencyWeight pf (time_sub now (Timestamp s)))"

lemma bucket_loop_ok:
  assumes "list_all (weighable pf now minI width) ss" "length accs = numBuckets"
    and "\<forall>a \<in> set accs. acc_ok k a" "k + length ss \<le> 2 ^ 20"
  shows "\<exists>accs'. bucket_loop pf now minI width ss accs = Some accs' \<and>
                 (\<forall>a \<in> set accs'. acc_ok (k + length ss) a) \<and>
                 (ss \<noteq> [] \<or> (\<exists>a \<in> set accs. 2 powr - 30 \<le> fval (w_total a)) \<longrightarrow>
                  (\<exists>a \<in> set accs'. 2 powr - 30 \<le> fval (w_total a)))"
  using assms
proof (induction ss arbitrary: accs k)
  case (Cons s ss)
  define i where "i = nat (bucket_index pf minI width (InflightPerRep s))"
  define w where "w = recencyWeight pf (time_sub now (Timestamp s))"
  define accs1 where "accs1 = accs[i := acc_add s w (accs ! i)]"
  have s: "weighable pf now minI width s" and ss: "list_all (weighable pf now minI width) ss"
    using Cons.prems(1) by simp_all
  have i: "i < length accs" "0 \<le> bucket_index pf minI width (InflightPerRep s)"
    using s Cons.prems(2) by (auto simp: weighable_def i_def)
  have "acc_ok k (accs ! i)"
    using Cons.prems(3) i(1) by simp
  then have new: "acc_ok (Suc k) (acc_add s w (accs ! i))" "2 powr - 30 \<le> fval (w_total (acc_add s w (accs ! i)))"
    using acc_add_ok [of k "accs ! i" w s] s Cons.prems(4) by (simp_all add: weighable_def w_def)
  have "set accs1 \<subseteq> insert (acc_add s w (accs ! i)) (set accs)"
    by (simp add: accs1_def set_update_subset_insert)
  moreover have "acc_ok (Suc k) a" if "a \<in> set accs" for a
    by (rule acc_ok_mono [of k a]) (use that Cons.prems(3) in simp_all)
  ultimately have "\<forall>a \<in> set accs1. acc_ok (Suc k) a"
    using new(1) by auto
  moreover have "length accs1 = numBuckets" "Suc k + length ss \<le> 2 ^ 20"
    using Cons.prems(2,4) by (simp_all add: accs1_def)
  ultimately obtain accs' where accs': "bucket_loop pf now minI width ss accs1 = Some accs'"
      "\<forall>a \<in> set accs'. acc_ok (Suc k + length ss) a"
      "ss \<noteq> [] \<or> (\<exists>a \<in> set accs1. 2 powr - 30 \<le> fval (w_total a)) \<longrightarrow> (\<exists>a \<in> set accs'. 2 powr - 30 \<le> fval (w_total a))"
    using Cons.IH [OF ss, of accs1 "Suc k"] by blast
  have "acc_add s w (accs ! i) \<in> set accs1"
    using set_update_memI [OF i(1), of "acc_add s w (accs ! i)"] by (simp add: accs1_def)
  then have some: "\<exists>a \<in> set accs'. 2 powr - 30 \<le> fval (w_total a)"
    using new(2) accs'(3) by blast
  have "bucket_loop pf now minI width (s # ss) accs = bucket_loop pf now minI width ss accs1"
    using i Cons.prems(2) s by (simp add: Let_def accs1_def i_def w_def weighable_def)
  then show ?case
    using accs'(1,2) some by (intro exI [of _ accs']) (simp del: bucket_loop.simps)
qed auto

definition good_bucket :: "bucket \<Rightarrow> bool" where
"good_bucket b \<longleftrightarrow> fin_in 0 (2 ^ 80) (b_inflight b) \<and> fin_in 0 (2 ^ 80) (b_rate b)"

definition good_sample :: "nanos \<Rightarrow> Sample \<Rightarrow> bool" where
"good_sample now s \<longleftrightarrow> fin_in 0 (2 ^ 30) (InflightPerRep s) \<and> fin_in 0 (2 ^ 30) (RatePerRep s) \<and>
   time_sub now (Timestamp s) \<le> defaultMaxAge"

lemma good_sampleI: "valid s \<Longrightarrow> sane now s \<Longrightarrow> good_sample now s"
  using valid_pos [of s]
  by (auto simp: good_sample_def sane_def fin_in_def time_sub_def defaultMaxAge_def minute_def second_def)

lemma bucketize_ok:
  assumes "exp_ok pf" "bucket_sort srtB" "clean \<noteq> []" "list_all (good_sample now) clean" "length clean \<le> 2 ^ 20"
  shows "\<exists>bs. bucketize pf srtB clean now = Some bs \<and> bs \<noteq> [] \<and> list_all good_bucket bs"
proof -
  define lo where "lo = foldl (\<lambda>m s. fmin m (InflightPerRep s)) (InflightPerRep (hd clean)) clean"
  define hi where "hi = foldl (\<lambda>m s. fmax m (InflightPerRep s)) (InflightPerRep (hd clean)) clean"
  have good: "fin_in 0 (2 ^ 30) (InflightPerRep s)" if "s \<in> set clean" for s
    using that assms(4) by (auto simp: list_all_iff good_sample_def)
  have lo: "is_fin lo" "\<forall>s \<in> set clean. fval lo \<le> fval (InflightPerRep s)" "0 \<le> fval lo"
    using foldl_fmin [of "InflightPerRep (hd clean)" clean InflightPerRep] good hd_in_set [OF assms(3)]
    by (auto simp: lo_def fin_in_def)
  have hi: "is_fin hi" "\<forall>s \<in> set clean. fval (InflightPerRep s) \<le> fval hi" "fval hi \<le> 2 ^ 30" "0 \<le> fval hi"
    using foldl_fmax [of "InflightPerRep (hd clean)" clean InflightPerRep] good hd_in_set [OF assms(3)]
    by (auto simp: hi_def fin_in_def)
  have unfold: "bucketize pf srtB clean now =
      (if fle hi lo then Some [\<lparr>b_inflight = hi, b_rate = f0, b_weight = f1\<rparr>]
       else case bucket_loop pf now lo (fsub hi lo) clean (replicate numBuckets zero_acc) of
              None \<Rightarrow> None
            | Some accs \<Rightarrow> Some (srtB (map bucket_of (filter (\<lambda>a. \<not> fle (w_total a) f0) accs))))"
    using assms(3) by (cases clean) (simp_all add: bucketize_def Let_def lo_def hi_def)
  show ?thesis
  proof (cases "fle hi lo")
    case True
    then show ?thesis
      using hi by (simp add: unfold good_bucket_def fin_in_def)
  next
    case False
    then have lt: "fval lo < fval hi"
      using lo hi by (simp add: fle_fval)
    have "is_fin (fsub hi lo)"
      using lo hi fsub_in [of hi lo 0 "fval hi"] lt by (simp add: fin_in_def)
    then have "list_all (weighable pf now lo (fsub hi lo)) clean"
      using assms(1,4) lo hi lt bucket_index_range [of _ lo hi] recencyWeight_in [of pf]
      by (auto simp: list_all_iff weighable_def good_sample_def fin_in_def)
    then obtain accs where accs: "bucket_loop pf now lo (fsub hi lo) clean (replicate numBuckets zero_acc) = Some accs"
        "\<forall>a \<in> set accs. acc_ok (length clean) a" "\<exists>a \<in> set accs. 2 powr - 30 \<le> fval (w_total a)"
      using bucket_loop_ok [of pf now lo "fsub hi lo" clean "replicate numBuckets zero_acc" 0] assms(3,5) zero_acc_ok
      by auto
    define kept where "kept = filter (\<lambda>a. \<not> fle (w_total a) f0) accs"
    have "kept \<noteq> []"
    proof -
      obtain a where a: "a \<in> set accs" "2 powr - 30 \<le> fval (w_total a)" "is_fin (w_total a)"
        using accs by (auto simp: acc_ok_def fin_in_def)
      have "0 < fval (w_total a)"
        using a(2) by (rule less_le_trans [rotated]) simp
      then have "a \<in> set kept"
        using a by (simp add: kept_def fle_fval)
      then show ?thesis
        by auto
    qed
    moreover have "list_all good_bucket (map bucket_of kept)"
      using accs(2) assms(5) bucket_of_in by (auto simp: list_all_iff kept_def good_bucket_def)
    ultimately show ?thesis
      using False accs(1) slice_sort.set_srt [OF assms(2), of "map bucket_of kept"]
        slice_sort.length_srt [OF assms(2), of "map bucket_of kept"]
      by (auto simp: unfold kept_def list_all_iff)
  qed
qed

section \<open>The estimate is always usable\<close>

lemma timeSpanFactor_unit: "fin_in 0 1 (timeSpanFactor clean)"
proof -
  define q where "q = fdiv (f_of_int (time_sub (Timestamp (last clean)) (Timestamp (hd clean)))) (f_of_int fullConfidenceWindow)"
  have "is_fin (f_of_int fullConfidenceWindow)" "fval (f_of_int fullConfidenceWindow) \<noteq> 0"
    using f_of_int_exact [of fullConfidenceWindow] by (simp_all add: fullConfidenceWindow_def minute_def second_def)
  moreover have "is_fin (f_of_int d)" if "- (2 ^ 63) \<le> d" "d < 2 ^ 63" for d
    using that representable_power [of 63]
    by (intro fin_inD(1) [of "- (2 ^ 63)" "2 ^ 63"] fin_in_srnd [of _ "of_int d"]) (simp_all add: f_of_int_key)
  then have "is_fin (f_of_int (time_sub (Timestamp (last clean)) (Timestamp (hd clean))))"
    by (simp add: time_sub_def)
  ultimately have "\<not> is_nan q"
    using fdiv_fin fval_nonzero_key by (simp add: q_def)
  then show ?thesis
    using clampF_unit by (auto simp: timeSpanFactor_def Let_def q_def fin_in_def)
qed

lemma coverageFactor_unit:
  assumes "bs \<noteq> []" "list_all good_bucket bs"
  shows "fin_in 0 1 (coverageFactor bs)"
proof -
  define lo hi where "lo = b_inflight (hd bs)" and "hi = b_inflight (last bs)"
  have b: "fin_in 0 (2 ^ 80) lo" "fin_in 0 (2 ^ 80) hi"
    using assms hd_in_set [OF assms(1)] last_in_set [OF assms(1)]
    by (auto simp: list_all_iff good_bucket_def lo_def hi_def)
  have "\<not> is_nan (fdiv (fsub hi lo) hi)" if "\<not> fle hi f0"
  proof -
    have "is_fin (fsub hi lo)"
      using b fsub_in [of hi lo "- (2 ^ 80)" "2 ^ 80"] representable_power [of 80] by (auto simp: fin_in_def)
    moreover have "fval hi \<noteq> 0" "is_fin hi"
      using that b by (auto simp: fle_fval fin_in_def)
    ultimately show ?thesis
      using fdiv_fin fval_nonzero_key by simp
  qed
  then show ?thesis
    using clampF_unit by (auto simp: coverageFactor_def Let_def lo_def [symmetric] hi_def [symmetric] fin_in_def)
qed

lemma lowerBoundPenalty_unit: "fin_in 0 1 lowerBoundPenalty"
  unfolding lowerBoundPenalty_def by (rule fin_in_srnd [of _ "4 / 10"]) (simp_all add: f_lit_key)

lemma confidence_unit:
  assumes "bs \<noteq> []" "list_all good_bucket bs"
  shows "fin_in 0 1 (confidence clean bs lb)"
proof -
  define c where "c = fmul (timeSpanFactor clean) (coverageFactor bs)"
  have "fin_in 0 1 c" "fin_in 0 1 (fmul c lowerBoundPenalty)"
    using assms by (simp_all add: c_def unit_fmul timeSpanFactor_unit coverageFactor_unit lowerBoundPenalty_unit)
  then show ?thesis
    using clampF_unit [of c] clampF_unit [of "fmul c lowerBoundPenalty"] fin_inD(1) is_fin_not(1)
    by (auto simp: confidence_def Let_def c_def [symmetric])
qed

lemma knee_loop_in: "fst (knee_loop ref b bs) \<in> b_inflight ` set (b # bs)"
  by (induction ref b bs rule: knee_loop.induct) (auto simp: Let_def)

lemma findKnee_in: "bs \<noteq> [] \<Longrightarrow> \<exists>b lb. findKnee bs = Some (b_inflight b, lb) \<and> b \<in> set bs"
proof (cases bs)
  case (Cons b rest)
  obtain k lb where k: "knee_loop (fdiv (b_rate b) (b_inflight b)) b rest = (k, lb)"
    by fastforce
  then have "k \<in> b_inflight ` set bs"
    using knee_loop_in [of "fdiv (b_rate b) (b_inflight b)" b rest] Cons by simp
  then show ?thesis
    using k Cons last_in_set [of bs] by (auto simp: findKnee_def Let_def simp del: set_simps)
qed simp

text \<open>The slope of a segment falls below the plateau threshold.\<close>

definition plateau_at :: "bucket list \<Rightarrow> nat \<Rightarrow> bool" where
"plateau_at bs i \<longleftrightarrow>
   (let ref = fdiv (b_rate (hd bs)) (b_inflight (hd bs));
        dIn = fsub (b_inflight (bs ! Suc i)) (b_inflight (bs ! i))
    in \<not> fle dIn f0 \<and> flt (fdiv (fsub (b_rate (bs ! Suc i)) (b_rate (bs ! i))) dIn) (fmul plateauFraction ref))"

lemma knee_loop_find:
  assumes "bs \<noteq> []" "i < length bs"
  shows "knee_loop (fdiv (b_rate (hd bs)) (b_inflight (hd bs))) (bs ! i) (drop (Suc i) bs) =
         (case find (plateau_at bs) [i..<length bs - 1] of
            None \<Rightarrow> (b_inflight (last bs), True) | Some j \<Rightarrow> (b_inflight (bs ! j), False))"
  using assms
proof (induction "length bs - i" arbitrary: i)
  case (Suc n)
  show ?case
  proof (cases "Suc i < length bs")
    case True
    then have *: "drop (Suc i) bs = bs ! Suc i # drop (Suc (Suc i)) bs" "[i..<length bs - 1] = i # [Suc i..<length bs - 1]"
      by (simp_all add: Cons_nth_drop_Suc upt_conv_Cons)
    show ?thesis
      using Suc.hyps(1) [of "Suc i"] Suc.hyps(2) Suc.prems(1) True unfolding *
      by (simp add: Let_def plateau_at_def)
  next
    case False
    then have "i = length bs - 1"
      using Suc.prems by linarith
    then show ?thesis
      using Suc.prems(1) by (simp add: last_conv_nth)
  qed
qed simp

text \<open>
  C25. The knee is read off the first plateau.  When the first bucket has a positive slope,
  \<^const>\<open>findKnee\<close> returns the inflight of the bucket before the first segment whose slope drops
  under the plateau fraction of that slope; when there is none it returns the last bucket's
  inflight, flagged as a lower bound.
\<close>

theorem knee_is_first_plateau:
  assumes "bs \<noteq> []" and "flt f0 (fdiv (b_rate (hd bs)) (b_inflight (hd bs)))"
  shows "findKnee bs =
         Some (case find (plateau_at bs) [0..<length bs - 1] of
                 None \<Rightarrow> (b_inflight (last bs), True)
               | Some i \<Rightarrow> (b_inflight (bs ! i), False))"
proof -
  have "\<not> fle (fdiv (b_rate (hd bs)) (b_inflight (hd bs))) f0"
    using assms(2) by (auto simp: flt_def fle_def)
  then show ?thesis
    using knee_loop_find [of bs 0] assms(1) by (cases bs) (simp_all add: findKnee_def Let_def)
qed

theorem knee_is_first_plateau_witness:
  "findKnee [\<lparr>b_inflight = f1, b_rate = f1, b_weight = f1\<rparr>,
             \<lparr>b_inflight = f_of_int 2, b_rate = f_of_int 2, b_weight = f1\<rparr>,
             \<lparr>b_inflight = f_of_int 3, b_rate = f_of_int 2, b_weight = f1\<rparr>] = Some (f_of_int 2, False)"
proof -
  define bs where "bs = [\<lparr>b_inflight = f1, b_rate = f1, b_weight = f1\<rparr>,
             \<lparr>b_inflight = f_of_int 2, b_rate = f_of_int 2, b_weight = f1\<rparr>,
             \<lparr>b_inflight = f_of_int 3, b_rate = f_of_int 2, b_weight = f1\<rparr>]"
  have "flt f0 (fdiv f1 f1)"
    by code_simp
  then have "findKnee bs = Some (case find (plateau_at bs) [0..<length bs - 1] of
                 None \<Rightarrow> (b_inflight (last bs), True) | Some i \<Rightarrow> (b_inflight (bs ! i), False))"
    by (intro knee_is_first_plateau) (simp_all add: bs_def)
  moreover have "\<not> plateau_at bs 0" "plateau_at bs 1"
    unfolding bs_def by code_simp+
  ultimately show ?thesis
    by (simp add: bs_def upt_conv_Cons numeral_2_eq_2 split: if_splits)
qed

lemma estimate_usable:
  assumes "time_sort srt" "bucket_sort srtB" "exp_ok pf"
    and "\<And>s. s \<in> set hist \<Longrightarrow> sane now s" and "length hist \<le> 2 ^ 20"
  shows "\<exists>e. EstimateKnee pf srt srtB hist now = Some e \<and>
             fin_in 0 (2 ^ 80) (KneePerReplica e) \<and> fin_in 0 1 (Confidence e)"
proof -
  define clean where "clean = Sanitize srt hist"
  have clean: "list_all (good_sample now) clean" "length clean \<le> 2 ^ 20"
    using Sanitize_facts [OF assms(1), of hist] assms(4,5) good_sampleI by (auto simp: clean_def list_all_iff)
  have zero: "fin_in 0 (2 ^ 80) f0" "fin_in 0 1 f0"
    by (simp_all add: fin_in_def)
  show ?thesis
  proof (cases "length clean < minSamplesToLearn")
    case True
    then show ?thesis
      using zero by (simp add: EstimateKnee_def Let_def clean_def)
  next
    case False
    then have "clean \<noteq> []"
      by (auto simp: minSamplesToLearn_def)
    then obtain bs where bs: "bucketize pf srtB clean now = Some bs" "bs \<noteq> []" "list_all good_bucket bs"
      using bucketize_ok [OF assms(3,2) _ clean] by blast
    obtain b lb where b: "findKnee bs = Some (b_inflight b, lb)" "b \<in> set bs"
      using findKnee_in [OF bs(2)] by blast
    have knee: "fin_in 0 (2 ^ 80) (b_inflight b)" if "b \<in> set bs" for b
      using that bs(3) by (simp add: list_all_iff good_bucket_def)
    have conf: "fin_in 0 1 (confidence clean bs lb)" "fin_in 0 1 (fmul lowerBoundPenalty (timeSpanFactor clean))"
      using bs(2,3) by (simp_all add: confidence_unit unit_fmul lowerBoundPenalty_unit timeSpanFactor_unit)
    have "EstimateKnee pf srt srtB hist now = Some
        (if length bs < 2 then \<lparr>KneePerReplica = b_inflight (last bs), IsLowerBound = True,
                               Confidence = fmul lowerBoundPenalty (timeSpanFactor clean)\<rparr>
         else \<lparr>KneePerReplica = b_inflight b, IsLowerBound = lb, Confidence = confidence clean bs lb\<rparr>)"
      using False bs(1,2) b(1) by (simp add: EstimateKnee_def clean_def [symmetric])
    then show ?thesis
      using knee [OF last_in_set [OF bs(2)]] knee [OF b(2)] conf by auto
  qed
qed

text \<open>
  C15. The estimator is total and its output is in range.  On any history of at most \<open>2 ^ 20\<close>
  samples with finite readings of at most \<open>2 ^ 30\<close>, none older than \<^const>\<open>defaultMaxAge\<close> (seven
  days), in any order and with any mixture of invalid samples, \<^const>\<open>EstimateKnee\<close> does not panic, the knee is finite,
  not negative and at most \<open>2 ^ 80\<close>, and the confidence is a number between 0 and 1.
\<close>

theorem estimate_total_and_bounded:
  assumes "time_sort srt" "bucket_sort srtB" "exp_ok pf"
    and "\<And>s. s \<in> set hist \<Longrightarrow> sane now s" and "length hist \<le> 2 ^ 20"
  shows "\<exists>e. EstimateKnee pf srt srtB hist now = Some e \<and>
             fin_in 0 (2 ^ 80) (KneePerReplica e) \<and> fin_in 0 1 (Confidence e)"
  using assms by (rule estimate_usable)

lemma demo_exp_ok: "exp_ok demo_platform"
proof -
  have "fin_in (2 powr - 30) 1 (fdiv f1 (fsub f1 x))" if x: "fin_in (- 20) 0 x" for x
  proof -
    have d: "fin_in 1 21 (fsub f1 x)"
      using x by (intro fsub_in) (simp_all add: fin_in_def)
    have "2 powr - 30 \<le> (1 / 21 :: real)"
      by (simp add: powr_minus)
    also have "\<dots> \<le> 1 / fval (fsub f1 x)"
      using d by (simp add: fin_in_def divide_left_mono)
    finally show ?thesis
      using d representable_powr [of "- 30"] by (intro fdiv_in) (simp_all add: fin_in_def)
  qed
  then show ?thesis
    by (simp add: exp_ok_def demo_platform_def)
qed

theorem estimate_total_and_bounded_witness:
  "let hist = map (\<lambda>i. \<lparr>Timestamp = int i * minute, Replicas = 2, InflightPerRep = f_of_int (int i),
                       RatePerRep = f_of_int (2 * int i)\<rparr>) [0..<20];
       e = EstimateKnee demo_platform (sort_key Timestamp) (sort_key (\<lambda>b. fkey (b_inflight b))) hist (20 * minute)
   in e \<noteq> None \<and> fin_in 0 1 (Confidence (the e))"
proof -
  define hist where "hist = map (\<lambda>i. \<lparr>Timestamp = int i * minute, Replicas = 2, InflightPerRep = f_of_int (int i),
                       RatePerRep = f_of_int (2 * int i)\<rparr>) [0..<20]"
  have "sane (20 * minute) s" if "s \<in> set hist" for s
    using that f_of_int_exact
    by (auto simp: hist_def sane_def defaultMaxAge_def minute_def second_def)
  then have "\<exists>e. EstimateKnee demo_platform (sort_key Timestamp) (sort_key (\<lambda>b. fkey (b_inflight b))) hist (20 * minute) =
      Some e \<and> fin_in 0 (2 ^ 80) (KneePerReplica e) \<and> fin_in 0 1 (Confidence e)"
    by (intro estimate_total_and_bounded stable_time.slice_sort_axioms key_bucket.slice_sort_axioms demo_exp_ok)
      (simp_all add: hist_def)
  then show ?thesis
    by (auto simp: Let_def hist_def)
qed

end
