(* ===== verification/Decision.thy ===== *)
theory Decision
  imports Estimator ApiTypes
begin

text \<open>
  \<open>pkg/reconciler/agentdeploy/scaling/decision/decision.go\<close>: the next replica count.  Replica
  counts are \<open>int32\<close> and the spec's steps are \<open>uint32\<close> values converted to \<open>int32\<close>, so the
  arithmetic wraps where the code's does.  \<open>None\<close> is a panic of the estimator.
\<close>

section \<open>Inputs and outputs\<close>

datatype Reason =
    ReasonMinEqualsMax
  | ReasonCooldownUp
  | ReasonCooldownDown
  | ReasonManualOutRange
  | ReasonScaleUp
  | ReasonScaleDown
  | ReasonSurge
  | ReasonNoChange
  | ReasonDriftToMin
  | ReasonRateLimited

record Inputs =
  CurrentReplicas :: int
  ReadyReplicas :: int
  History :: "Sample list"
  Current :: Sample
  Spec :: Scale
  MaxInFlight :: int
  Now :: nanos
  LastScaledAt :: nanos

record Decision =
  DesiredReplicas :: int
  dec_Reason :: Reason
  Skip :: bool
  dec_Estimate :: Estimate

definition zero_estimate :: Estimate where
"zero_estimate = \<lparr>KneePerReplica = f0, IsLowerBound = False, Confidence = f0\<rparr>"

section \<open>Resolving the spec\<close>

definition defaultKneePerReplica :: f64 where
"defaultKneePerReplica = f_of_int 20"

definition confFloor :: f64 where
"confFloor = f_lit 6 10"

text \<open>The untyped constant expression \<open>1 - confFloor\<close>, exact before it becomes a \<open>float64\<close>.\<close>

definition confRange :: f64 where
"confRange = f_lit 4 10"

definition surgeRatio :: f64 where
"surgeRatio = f_lit 15 10"

definition GetOr :: "int option \<Rightarrow> int \<Rightarrow> int" where
"GetOr p fallback = (case p of None \<Rightarrow> fallback | Some v \<Rightarrow> v)"

definition clamp :: "int \<Rightarrow> int \<Rightarrow> int \<Rightarrow> int" where
"clamp v lo hi = (if v < lo then lo else if v > hi then hi else v)"

definition minMax :: "Scale \<Rightarrow> int \<times> int" where
"minMax s =
   (let minR = (case sc_Min s of
                  Some m \<Rightarrow> if m > DefaultMinReplicas then m else DefaultMinReplicas
                | None \<Rightarrow> DefaultMinReplicas);
        maxR = (case sc_Max s of Some m \<Rightarrow> m | None \<Rightarrow> DefaultMaxReplicas)
    in (minR, if maxR < minR then minR else maxR))"

definition targetSaturation :: "Scale \<Rightarrow> f64" where
"targetSaturation s =
   (let pct = GetOr (sc_TargetSaturationPercentage s) DefaultTargetSaturationPercentage;
        pct = (if pct = 0 then DefaultTargetSaturationPercentage else pct);
        pct = (if pct > 100 then 100 else pct)
    in fdiv (f_of_int pct) (f_of_int 100))"

definition lerp :: "f64 \<Rightarrow> f64 \<Rightarrow> f64 \<Rightarrow> f64" where
"lerp a b t = fadd a (fmul (fsub b a) (clampF t f0 f1))"

definition inflightBasis :: "Inputs \<Rightarrow> int" where
"inflightBasis inp =
   (if Replicas (Current inp) > 0 then Replicas (Current inp)
    else if ReadyReplicas inp > 0 then ReadyReplicas inp
    else CurrentReplicas inp)"

definition isSurge :: "Inputs \<Rightarrow> f64 \<Rightarrow> f64 \<Rightarrow> bool" where
"isSurge inp target totalInflight =
   (let capacity = fmul (f_of_int (CurrentReplicas inp)) target
    in flt f0 capacity \<and> fle surgeRatio (fdiv totalInflight capacity))"

definition scalingTarget :: "Inputs \<Rightarrow> Estimate \<Rightarrow> f64" where
"scalingTarget inp est =
   (let knee = lerp defaultKneePerReplica (KneePerReplica est) (Confidence est);
        s = targetSaturation (Spec inp);
        effectiveS = fmul s (fadd confFloor (fmul confRange (clampF (Confidence est) f0 f1)))
    in fmax (fmul knee effectiveS) (f_lit 1 1000000000))"

section \<open>The decision\<close>

definition scaleUp ::
  "Inputs \<Rightarrow> Estimate \<Rightarrow> int \<Rightarrow> f64 \<Rightarrow> f64 \<Rightarrow> int \<Rightarrow> nanos \<Rightarrow> nanos \<Rightarrow> Decision" where
"scaleUp inp est desired target totalInflight stepUp cooldown sinceLast =
   (if MaxInFlight inp > 0 \<and> fle (f_of_int (MaxInFlight inp)) totalInflight
    then \<lparr>DesiredReplicas = CurrentReplicas inp, dec_Reason = ReasonRateLimited, Skip = True, dec_Estimate = est\<rparr>
    else if sinceLast < cooldown
    then \<lparr>DesiredReplicas = CurrentReplicas inp, dec_Reason = ReasonCooldownUp, Skip = True, dec_Estimate = est\<rparr>
    else let reason = (if isSurge inp target totalInflight then ReasonSurge else ReasonScaleUp);
             diff = min (int32 (desired - CurrentReplicas inp)) stepUp
         in \<lparr>DesiredReplicas = int32 (CurrentReplicas inp + diff), dec_Reason = reason, Skip = False,
             dec_Estimate = est\<rparr>)"

definition scaleDown :: "Inputs \<Rightarrow> Estimate \<Rightarrow> int \<Rightarrow> int \<Rightarrow> nanos \<Rightarrow> nanos \<Rightarrow> Decision" where
"scaleDown inp est desired stepDown cooldown sinceLast =
   (if sinceLast < cooldown
    then \<lparr>DesiredReplicas = CurrentReplicas inp, dec_Reason = ReasonCooldownDown, Skip = True, dec_Estimate = est\<rparr>
    else let diff = min (int32 (CurrentReplicas inp - desired)) stepDown
         in \<lparr>DesiredReplicas = int32 (CurrentReplicas inp - diff), dec_Reason = ReasonScaleDown, Skip = False,
             dec_Estimate = est\<rparr>)"

definition Decide ::
  "platform \<Rightarrow> (Sample list \<Rightarrow> Sample list) \<Rightarrow> (bucket list \<Rightarrow> bucket list) \<Rightarrow> Inputs \<Rightarrow> Decision option" where
"Decide pf srt srtB inp =
   (let (minR, maxR) = minMax (Spec inp);
        cur = CurrentReplicas inp
    in if minR = maxR
       then Some \<lparr>DesiredReplicas = minR, dec_Reason = ReasonMinEqualsMax, Skip = (cur = minR),
                  dec_Estimate = zero_estimate\<rparr>
       else if cur < minR \<or> cur > maxR
       then Some \<lparr>DesiredReplicas = clamp cur minR maxR, dec_Reason = ReasonManualOutRange, Skip = False,
                  dec_Estimate = zero_estimate\<rparr>
       else
         let scaleUpCooldown = GetOr (sc_ScaleUpCooldownSeconds (Spec inp)) DefaultScaleUpCooldownSeconds * second;
             scaleDownCooldown = GetOr (sc_ScaleDownCooldownSeconds (Spec inp)) DefaultScaleDownCooldownSeconds * second;
             stepUp = int32 (GetOr (sc_ReplicasPerScaleUp (Spec inp)) DefaultReplicasPerScaleUp);
             stepDown = int32 (GetOr (sc_ReplicasPerScaleDown (Spec inp)) DefaultReplicasPerScaleDown);
             sinceLast = time_sub (Now inp) (LastScaledAt inp);
             totalInflight = fmul (InflightPerRep (Current inp)) (f_of_int (inflightBasis inp))
         in if fle totalInflight f0
            then (if cur \<le> minR
                  then Some \<lparr>DesiredReplicas = cur, dec_Reason = ReasonNoChange, Skip = True,
                             dec_Estimate = zero_estimate\<rparr>
                  else if sinceLast < scaleDownCooldown
                  then Some \<lparr>DesiredReplicas = cur, dec_Reason = ReasonCooldownDown, Skip = True,
                             dec_Estimate = zero_estimate\<rparr>
                  else Some \<lparr>DesiredReplicas = max (int32 (cur - stepDown)) minR, dec_Reason = ReasonDriftToMin,
                             Skip = False, dec_Estimate = zero_estimate\<rparr>)
            else case EstimateKnee pf srt srtB (History inp) (Now inp) of
                   None \<Rightarrow> None
                 | Some est \<Rightarrow>
                     let target = scalingTarget inp est;
                         desired = clamp (f_to_int32 pf (fceil (fdiv totalInflight target))) minR maxR
                     in if desired = cur
                        then Some \<lparr>DesiredReplicas = desired, dec_Reason = ReasonNoChange, Skip = True,
                                   dec_Estimate = est\<rparr>
                        else if desired > cur
                        then Some (scaleUp inp est desired target totalInflight stepUp scaleUpCooldown sinceLast)
                        else Some (scaleDown inp est desired stepDown scaleDownCooldown sinceLast))"

text \<open>An example: two replicas with 40 requests in flight each, no history.\<close>

definition demo_inputs :: "Scale \<Rightarrow> Inputs" where
"demo_inputs s =
   \<lparr>CurrentReplicas = 2, ReadyReplicas = 2, History = [],
    Current = \<lparr>Timestamp = 600 * second, Replicas = 2, InflightPerRep = f_of_int 40, RatePerRep = f1\<rparr>,
    Spec = s, MaxInFlight = 0, Now = 600 * second, LastScaledAt = zero_time\<rparr>"

lemmas demo_simps = demo_inputs_def zero_scale_def GetOr_def minMax_def DefaultReplicasPerScaleUp_def
  DefaultReplicasPerScaleDown_def DefaultMinReplicas_def DefaultMaxReplicas_def

lemma zero_scale_sels [simp]:
  "sc_Min zero_scale = None" "sc_Max zero_scale = None" "sc_TargetSaturationPercentage zero_scale = None"
  "sc_ScaleUpCooldownSeconds zero_scale = None"
  by (simp_all add: zero_scale_def)

section \<open>The envelope\<close>

abbreviation min_replicas :: "Inputs \<Rightarrow> int" where
"min_replicas inp \<equiv> fst (minMax (Spec inp))"

abbreviation max_replicas :: "Inputs \<Rightarrow> int" where
"max_replicas inp \<equiv> snd (minMax (Spec inp))"

abbreviation up_step :: "Inputs \<Rightarrow> int" where
"up_step inp \<equiv> GetOr (sc_ReplicasPerScaleUp (Spec inp)) DefaultReplicasPerScaleUp"

abbreviation down_step :: "Inputs \<Rightarrow> int" where
"down_step inp \<equiv> GetOr (sc_ReplicasPerScaleDown (Spec inp)) DefaultReplicasPerScaleDown"

abbreviation up_cooldown :: "Inputs \<Rightarrow> nanos" where
"up_cooldown inp \<equiv> GetOr (sc_ScaleUpCooldownSeconds (Spec inp)) DefaultScaleUpCooldownSeconds * second"

abbreviation down_cooldown :: "Inputs \<Rightarrow> nanos" where
"down_cooldown inp \<equiv> GetOr (sc_ScaleDownCooldownSeconds (Spec inp)) DefaultScaleDownCooldownSeconds * second"

abbreviation since_last :: "Inputs \<Rightarrow> nanos" where
"since_last inp \<equiv> time_sub (Now inp) (LastScaledAt inp)"

abbreviation total_inflight :: "Inputs \<Rightarrow> f64" where
"total_inflight inp \<equiv> fmul (InflightPerRep (Current inp)) (f_of_int (inflightBasis inp))"

text \<open>The fields hold values of their Go types.\<close>

definition typed_inputs :: "Inputs \<Rightarrow> bool" where
"typed_inputs inp \<longleftrightarrow>
   - (2 ^ 31) \<le> CurrentReplicas inp \<and> CurrentReplicas inp < 2 ^ 31 \<and>
   pred_option (\<lambda>m. m < 2 ^ 31) (sc_Min (Spec inp)) \<and> pred_option (\<lambda>m. m < 2 ^ 31) (sc_Max (Spec inp)) \<and>
   0 \<le> up_step inp \<and> up_step inp < 2 ^ 32 \<and> 0 \<le> down_step inp \<and> down_step inp < 2 ^ 32"

lemma minMax_range:
  "1 \<le> min_replicas inp" "min_replicas inp \<le> max_replicas inp"
  "typed_inputs inp \<Longrightarrow> max_replicas inp < 2 ^ 31"
  by (auto simp: minMax_def Let_def DefaultMinReplicas_def DefaultMaxReplicas_def typed_inputs_def
      split: option.splits)

lemma clamp_range: "lo \<le> hi \<Longrightarrow> lo \<le> clamp v lo hi \<and> clamp v lo hi \<le> hi"
  by (auto simp: clamp_def)

lemma Decide_cases [consumes 2, case_names fixed manual stay idle up down]:
  assumes d: "Decide pf srt srtB inp = Some d" and typed: "typed_inputs inp"
  obtains
    (fixed) "min_replicas inp = max_replicas inp" "DesiredReplicas d = min_replicas inp"
      "Skip d \<longleftrightarrow> CurrentReplicas inp = min_replicas inp" "dec_Reason d = ReasonMinEqualsMax"
  | (manual) "min_replicas inp < max_replicas inp"
      "CurrentReplicas inp < min_replicas inp \<or> max_replicas inp < CurrentReplicas inp"
      "DesiredReplicas d = clamp (CurrentReplicas inp) (min_replicas inp) (max_replicas inp)" "\<not> Skip d"
      "dec_Reason d = ReasonManualOutRange"
  | (stay) "min_replicas inp < max_replicas inp" "min_replicas inp \<le> CurrentReplicas inp"
      "CurrentReplicas inp \<le> max_replicas inp" "DesiredReplicas d = CurrentReplicas inp" "Skip d"
      "dec_Reason d \<in> {ReasonNoChange, ReasonCooldownUp, ReasonCooldownDown, ReasonRateLimited}"
  | (idle) "min_replicas inp < CurrentReplicas inp" "CurrentReplicas inp \<le> max_replicas inp"
      "down_cooldown inp \<le> since_last inp" "\<not> Skip d" "dec_Reason d = ReasonDriftToMin"
      "DesiredReplicas d = max (int32 (CurrentReplicas inp - int32 (down_step inp))) (min_replicas inp)"
  | (up) n where "min_replicas inp \<le> CurrentReplicas inp" "CurrentReplicas inp < n" "n \<le> max_replicas inp"
      "up_cooldown inp \<le> since_last inp" "\<not> Skip d" "dec_Reason d \<in> {ReasonScaleUp, ReasonSurge}"
      "\<not> (MaxInFlight inp > 0 \<and> fle (f_of_int (MaxInFlight inp)) (total_inflight inp))"
      "DesiredReplicas d = int32 (CurrentReplicas inp + min (n - CurrentReplicas inp) (int32 (up_step inp)))"
  | (down) n where "min_replicas inp \<le> n" "n < CurrentReplicas inp" "CurrentReplicas inp \<le> max_replicas inp"
      "down_cooldown inp \<le> since_last inp" "\<not> Skip d" "dec_Reason d = ReasonScaleDown"
      "DesiredReplicas d = int32 (CurrentReplicas inp - min (CurrentReplicas inp - n) (int32 (down_step inp)))"
proof -
  define cur mn mx where "cur = CurrentReplicas inp" and "mn = min_replicas inp" and "mx = max_replicas inp"
  have r: "1 \<le> mn" "mn \<le> mx" "mx < 2 ^ 31"
    using minMax_range typed by (simp_all add: mn_def mx_def)
  have mm: "minMax (Spec inp) = (mn, mx)"
    by (simp add: mn_def mx_def)
  note unf = Decide_def mm prod.case Let_def cur_def [symmetric] mn_def [symmetric] mx_def [symmetric]
  consider "mn = mx" | "mn < mx" "cur < mn \<or> mx < cur" | "mn < mx" "mn \<le> cur" "cur \<le> mx" "fle (total_inflight inp) f0"
    | "mn < mx" "mn \<le> cur" "cur \<le> mx" "\<not> fle (total_inflight inp) f0"
    using r(2) by linarith
  then show ?thesis
  proof cases
    case 1
    then show ?thesis
      using d that(1) by (auto simp: unf)
  next
    case 2
    then show ?thesis
      using d that(2) by (auto simp: unf)
  next
    case 3
    then show ?thesis
      using d that(3,4) by (auto simp: unf not_less split: if_splits)
  next
    case 4
    then obtain est where e: "EstimateKnee pf srt srtB (History inp) (Now inp) = Some est"
      using d by (auto simp: unf split: option.splits)
    define n where "n = clamp (f_to_int32 pf (fceil (fdiv (total_inflight inp) (scalingTarget inp est)))) mn mx"
    have n: "mn \<le> n" "n \<le> mx"
      using clamp_range [OF r(2)] by (simp_all add: n_def)
    have w: "int32 (n - cur) = n - cur" "int32 (cur - n) = cur - n"
      using n r 4 by simp_all
    have "d = (if n = cur then \<lparr>DesiredReplicas = n, dec_Reason = ReasonNoChange, Skip = True, dec_Estimate = est\<rparr>
        else if n > cur then scaleUp inp est n (scalingTarget inp est) (total_inflight inp) (int32 (up_step inp))
          (up_cooldown inp) (since_last inp)
        else scaleDown inp est n (int32 (down_step inp)) (down_cooldown inp) (since_last inp))"
      using d 4 e by (simp add: unf n_def split: if_split_asm)
    then show ?thesis
      using 4 n w that(3) that(5) [of n] that(6) [of n]
      by (auto simp: scaleUp_def scaleDown_def Let_def cur_def [symmetric] mn_def [symmetric] mx_def [symmetric]
          not_less split: if_splits)
  qed
qed

section \<open>An example\<close>

lemma demo_target: "scalingTarget (demo_inputs zero_scale) zero_estimate = F64 4621593937607602995"
proof -
  have "lerp defaultKneePerReplica f0 f0 = F64 4626322717216342016"
    by code_simp
  moreover have "targetSaturation zero_scale = F64 4605380978949069210"
    by code_simp
  moreover have "fadd confFloor (fmul confRange (clampF f0 f0 f1)) = F64 4603579539098121011"
    by code_simp
  moreover have "fmul (F64 4605380978949069210) (F64 4603579539098121011) = F64 4602318531202457272"
    by code_simp
  moreover have "fmul (F64 4626322717216342016) (F64 4602318531202457272) = F64 4621593937607602995"
    by code_simp
  moreover have "fmax (F64 4621593937607602995) (f_lit 1 1000000000) = F64 4621593937607602995"
    by code_simp
  ultimately show ?thesis
    by (simp only: scalingTarget_def Let_def zero_estimate_def demo_inputs_def Estimate.select_convs Inputs.select_convs)
qed

lemma demo_total: "fmul (f_of_int 40) (f_of_int 2) = F64 4635329916471083008"
  by code_simp

lemma demo_count:
  "f_to_int32 demo_platform (fceil (fdiv (fmul (f_of_int 40) (f_of_int 2)) (scalingTarget (demo_inputs zero_scale) zero_estimate))) = 9"
proof -
  have "fdiv (F64 4635329916471083008) (F64 4621593937607602995) = F64 4620880867666602667"
    by code_simp
  moreover have "f_to_int32 demo_platform (fceil (F64 4620880867666602667)) = 9"
    by code_simp
  ultimately show ?thesis
    by (simp only: demo_target demo_total)
qed

lemma demo_loaded: "\<not> fle (fmul (f_of_int 40) (f_of_int 2)) f0"
  unfolding demo_total by code_simp

lemma demo_decide:
  assumes "sc_Min s = None" "sc_Max s = None" "sc_TargetSaturationPercentage s = None"
  shows "Decide demo_platform (sort_key Timestamp) (sort_key (\<lambda>b. fkey (b_inflight b))) (demo_inputs s) =
         Some (scaleUp (demo_inputs s) zero_estimate 9 (scalingTarget (demo_inputs s) zero_estimate)
                 (total_inflight (demo_inputs s)) (int32 (up_step (demo_inputs s))) (up_cooldown (demo_inputs s))
                 (since_last (demo_inputs s)))"
proof -
  have est: "EstimateKnee demo_platform (sort_key Timestamp) (sort_key (\<lambda>b. fkey (b_inflight b))) [] now = Some zero_estimate" for now
    by (simp add: EstimateKnee_def Sanitize_def dedupByTimestamp_def zero_estimate_def minSamplesToLearn_def)
  have "scalingTarget (demo_inputs s) zero_estimate = scalingTarget (demo_inputs zero_scale) zero_estimate"
    using assms by (simp add: scalingTarget_def targetSaturation_def demo_inputs_def zero_scale_def)
  then show ?thesis
    using assms demo_count demo_loaded est
    by (simp add: Decide_def Let_def demo_inputs_def minMax_def DefaultMinReplicas_def DefaultMaxReplicas_def
        inflightBasis_def clamp_def)
qed

lemma demo_scaleUp:
  assumes "sc_ScaleUpCooldownSeconds s = None"
  shows "DesiredReplicas (scaleUp (demo_inputs s) e 9 g f n (up_cooldown (demo_inputs s)) (since_last (demo_inputs s))) =
         int32 (2 + min 7 n)"
    "dec_Reason (scaleUp (demo_inputs s) e 9 g f n (up_cooldown (demo_inputs s)) (since_last (demo_inputs s))) \<in>
     {ReasonScaleUp, ReasonSurge}"
proof -
  have "up_cooldown (demo_inputs s) \<le> since_last (demo_inputs s)" "MaxInFlight (demo_inputs s) = 0" "CurrentReplicas (demo_inputs s) = 2"
    using assms by (simp_all add: demo_inputs_def GetOr_def DefaultScaleUpCooldownSeconds_def second_def zero_time_def time_sub_def)
  then show "DesiredReplicas (scaleUp (demo_inputs s) e 9 g f n (up_cooldown (demo_inputs s)) (since_last (demo_inputs s))) =
         int32 (2 + min 7 n)"
    "dec_Reason (scaleUp (demo_inputs s) e 9 g f n (up_cooldown (demo_inputs s)) (since_last (demo_inputs s))) \<in>
     {ReasonScaleUp, ReasonSurge}"
    by (simp_all add: scaleUp_def Let_def)
qed

text \<open>
  C2. No decision leaves the envelope the operator configured.  Whatever the platform, the sorts
  and the history are, when the steps fit into \<open>int32\<close> the decided count is between min and max, a
  skipped decision keeps the current count, and from a count inside the range the change is at
  most the step of its direction, waits for the cooldown of its direction, and is not upward
  while the fleet is at its rate limit.  From a count outside the range the decision is the
  nearest bound, reached at once: neither the step nor the cooldown applies there.
\<close>

theorem decide_within_envelope:
  assumes "Decide pf srt srtB inp = Some d" "typed_inputs inp" "up_step inp < 2 ^ 31" "down_step inp < 2 ^ 31"
  shows "min_replicas inp \<le> DesiredReplicas d \<and> DesiredReplicas d \<le> max_replicas inp \<and>
         (Skip d \<longrightarrow> DesiredReplicas d = CurrentReplicas inp) \<and>
         (min_replicas inp \<le> CurrentReplicas inp \<and> CurrentReplicas inp \<le> max_replicas inp \<longrightarrow>
            DesiredReplicas d \<le> CurrentReplicas inp + up_step inp \<and>
            CurrentReplicas inp - down_step inp \<le> DesiredReplicas d \<and>
            (CurrentReplicas inp < DesiredReplicas d \<longrightarrow> up_cooldown inp \<le> since_last inp \<and>
               (MaxInFlight inp > 0 \<longrightarrow> \<not> fle (f_of_int (MaxInFlight inp)) (total_inflight inp))) \<and>
            (DesiredReplicas d < CurrentReplicas inp \<longrightarrow> down_cooldown inp \<le> since_last inp)) \<and>
         (CurrentReplicas inp < min_replicas inp \<longrightarrow> DesiredReplicas d = min_replicas inp) \<and>
         (max_replicas inp < CurrentReplicas inp \<longrightarrow> DesiredReplicas d = max_replicas inp)"
proof -
  have steps: "0 \<le> up_step inp" "0 \<le> down_step inp" "int32 (up_step inp) = up_step inp" "int32 (down_step inp) = down_step inp"
    using assms(2-4) by (simp_all add: typed_inputs_def)
  note r = minMax_range(1) [of inp] minMax_range(2) [of inp] minMax_range(3) [OF assms(2)]
  show ?thesis
    using assms(1,2)
  proof (cases rule: Decide_cases)
    case idle
    then have "int32 (CurrentReplicas inp - down_step inp) = CurrentReplicas inp - down_step inp"
      using steps r assms(4) by simp
    then show ?thesis
      using idle steps r by auto
  next
    case (up n)
    then have "int32 (CurrentReplicas inp + min (n - CurrentReplicas inp) (up_step inp)) =
        CurrentReplicas inp + min (n - CurrentReplicas inp) (up_step inp)"
      using steps r by simp
    then show ?thesis
      using up steps r by auto
  next
    case (down n)
    then have "int32 (CurrentReplicas inp - min (CurrentReplicas inp - n) (down_step inp)) =
        CurrentReplicas inp - min (CurrentReplicas inp - n) (down_step inp)"
      using steps r by simp
    then show ?thesis
      using down steps r by auto
  qed (use r steps clamp_range [OF r(2)] in \<open>auto simp: clamp_def\<close>)
qed

theorem decide_within_envelope_witness:
  "let d = the (Decide demo_platform (sort_key Timestamp) (sort_key (\<lambda>b. fkey (b_inflight b))) (demo_inputs zero_scale))
   in 1 \<le> DesiredReplicas d \<and> DesiredReplicas d \<le> 50 \<and> DesiredReplicas d = 4"
proof -
  obtain d where d: "Decide demo_platform (sort_key Timestamp) (sort_key (\<lambda>b. fkey (b_inflight b))) (demo_inputs zero_scale) = Some d"
      "DesiredReplicas d = 4"
  proof -
    have "up_step (demo_inputs zero_scale) = 2"
      by (simp add: demo_simps)
    then show ?thesis
      using demo_decide [of zero_scale] demo_scaleUp(1) [of zero_scale] that by simp
  qed
  have "typed_inputs (demo_inputs zero_scale)" "minMax (Spec (demo_inputs zero_scale)) = (1, 50)"
    by (simp_all add: demo_simps typed_inputs_def)
  then show ?thesis
    using decide_within_envelope [OF d(1)] d by (simp add: Let_def demo_simps)
qed

section \<open>The target\<close>

lemma targetSaturation_in:
  assumes "pred_option (\<lambda>p. 0 \<le> p) (sc_TargetSaturationPercentage s)"
  shows "fin_in 0 1 (targetSaturation s)"
proof -
  define pct where "pct = min 100 (if GetOr (sc_TargetSaturationPercentage s) 80 = 0 then 80 else GetOr (sc_TargetSaturationPercentage s) 80)"
  have pct: "0 \<le> pct" "pct \<le> 100"
    using assms by (auto simp: pct_def GetOr_def split: option.splits)
  have "targetSaturation s = fdiv (f_of_int pct) (f_of_int 100)"
    by (auto simp: targetSaturation_def Let_def pct_def DefaultTargetSaturationPercentage_def)
  moreover have "fin_in 0 1 (fdiv (f_of_int pct) (f_of_int 100))"
    using pct f_of_int_exact [of pct] f_of_int_exact [of 100] by (intro fdiv_in) simp_all
  ultimately show ?thesis
    by simp
qed

lemma confidence_factor_in: "fin_in 0 1 c \<Longrightarrow> fin_in 0 2 (fadd confFloor (fmul confRange (clampF c f0 f1)))"
proof -
  assume c: "fin_in 0 1 c"
  have "fin_in 0 1 confFloor" "fin_in 0 1 confRange"
    unfolding confFloor_def confRange_def
    by (rule fin_in_srnd [of _ "6 / 10"] fin_in_srnd [of _ "4 / 10"]; simp add: f_lit_key)+
  moreover have "fin_in 0 1 (clampF c f0 f1)"
    using c by (intro clampF_unit) (simp add: fin_in_def is_fin_not)
  ultimately have "fin_in 0 1 confFloor" "fin_in 0 1 (fmul confRange (clampF c f0 f1))"
    using unit_fmul by auto
  then show ?thesis
    by (intro fadd_in) (simp_all add: fin_in_def)
qed

lemma lerp_in:
  assumes "fin_in 0 (2 ^ 80) k" "fin_in 0 1 c"
  shows "fin_in 0 (2 ^ 81) (lerp defaultKneePerReplica k c)"
proof -
  have d: "is_fin defaultKneePerReplica" "fval defaultKneePerReplica = 20"
    using f_of_int_exact [of 20] by (simp_all add: defaultKneePerReplica_def)
  have c: "fin_in 0 1 (clampF c f0 f1)"
    using assms(2) by (intro clampF_unit) (simp add: fin_in_def is_fin_not)
  have "fin_in (- 20) (2 ^ 80) (fsub k defaultKneePerReplica)"
    using assms(1) d representable_power [of 80] by (intro fsub_in) (simp_all add: fin_in_def)
  moreover have "- 20 \<le> a * b \<and> a * b \<le> 2 ^ 80" if "- 20 \<le> a" "a \<le> 2 ^ 80" "0 \<le> b" "b \<le> 1" for a b :: real
  proof (cases "0 \<le> a")
    case True
    then have "a * b \<le> a * 1" "0 \<le> a * b"
      using that mult_left_mono [of b 1 a] by simp_all
    then show ?thesis
      using that by simp
  next
    case False
    then have "a * 1 \<le> a * b" "a * b \<le> 0"
      using that mult_left_mono_neg [of b 1 a] by (simp_all add: mult_nonpos_nonneg)
    then show ?thesis
      using that by simp
  qed
  ultimately have "fin_in (- 20) (2 ^ 80) (fmul (fsub k defaultKneePerReplica) (clampF c f0 f1))"
    using c representable_power [of 80] by (intro fmul_in) (simp_all add: fin_in_def)
  then show ?thesis
    unfolding lerp_def using d representable_power [of 81] by (intro fadd_in) (simp_all add: fin_in_def)
qed

lemma tiny_in: "is_fin (f_lit 1 1000000000)" "0 < fval (f_lit 1 1000000000)" "fval (f_lit 1 1000000000) \<le> 1"
proof -
  have "is_fin (f_lit 1 1000000000)" "0 < fkey (f_lit 1 1000000000)" "fkey (f_lit 1 1000000000) \<le> fkey f1"
    by code_simp+
  then show "is_fin (f_lit 1 1000000000)" "0 < fval (f_lit 1 1000000000)" "fval (f_lit 1 1000000000) \<le> 1"
    using fval_le_iff [of "f_lit 1 1000000000" f1] by (simp_all add: fkey_sign)
qed

lemma scalingTarget_in:
  assumes "pred_option (\<lambda>p. 0 \<le> p) (sc_TargetSaturationPercentage (Spec inp))"
    and "fin_in 0 (2 ^ 80) (KneePerReplica est)" "fin_in 0 1 (Confidence est)"
  shows "is_fin (scalingTarget inp est)" "fval (f_lit 1 1000000000) \<le> fval (scalingTarget inp est)"
    "fval (scalingTarget inp est) \<le> 2 ^ 83"
proof -
  define e where "e = fmul (targetSaturation (Spec inp)) (fadd confFloor (fmul confRange (clampF (Confidence est) f0 f1)))"
  define k where "k = lerp defaultKneePerReplica (KneePerReplica est) (Confidence est)"
  have "fin_in 0 2 e"
    unfolding e_def using targetSaturation_in [OF assms(1)] confidence_factor_in [OF assms(3)] 
    by (intro fmul_in) (auto simp: fin_in_def intro: order_trans [OF mult_mono])
  moreover have k: "fin_in 0 (2 ^ 81) k"
    unfolding k_def by (rule lerp_in [OF assms(2,3)])
  ultimately have "fin_in 0 (2 ^ 82) (fmul k e)"
    using representable_power [of 82] mult_mono [of "fval k" "2 ^ 81" "fval e" 2]
    by (intro fmul_in) (auto simp: fin_in_def)
  then show "is_fin (scalingTarget inp est)" "fval (f_lit 1 1000000000) \<le> fval (scalingTarget inp est)"
      "fval (scalingTarget inp est) \<le> 2 ^ 83"
    using fmax_in [OF _ tiny_in(1), of "fmul k e"] tiny_in
    by (auto simp: scalingTarget_def Let_def k_def e_def fin_in_def)
qed

lemma fceil_fin: "is_fin f \<Longrightarrow> is_fin (fceil f)"
proof -
  assume f: "is_fin f"
  define p where "p = (2 :: int) ^ nat (- fexp f)"
  define c where "c = (if fneg_bit f then - (fman f div p) else - ((- fman f) div p))"
  have "is_fin (f_of_int c)"
  proof -
    have p: "1 \<le> p"
      by (simp add: p_def)
    have "fman f div p \<le> fman f" "0 \<le> fman f div p"
      using p fman_nonneg [of f] by (simp_all add: div_le_dividend zdiv_mono2 [of "fman f" 1 p, simplified] pos_imp_zdiv_nonneg_iff)
    moreover have "- fman f \<le> (- fman f) div p" "(- fman f) div p \<le> 0"
      using p fman_nonneg [of f] zdiv_mono2_neg [of "- fman f" 1 p]
      by (cases "fman f = 0"; simp add: div_nonpos_pos_le0)+
    ultimately have "\<bar>c\<bar> \<le> 2 ^ 53"
      using fman_upper [of f] by (auto simp: c_def)
    then show ?thesis
      by (rule f_of_int_exact)
  qed
  moreover have "is_fin (mk_f64 b 0)" for b
    by (simp add: is_fin_def inf_mag_range)
  ultimately show ?thesis
    using f by (auto simp: fceil_def Let_def c_def p_def)
qed

section \<open>What the decision computes\<close>

text \<open>The count the load asks for, and one throttled step toward a count.\<close>

definition wanted :: "platform \<Rightarrow> Inputs \<Rightarrow> Estimate \<Rightarrow> int" where
"wanted pf inp est =
   (if fle (total_inflight inp) f0 then min_replicas inp
    else clamp (f_to_int32 pf (fceil (fdiv (total_inflight inp) (scalingTarget inp est))))
           (min_replicas inp) (max_replicas inp))"

definition step_toward :: "Inputs \<Rightarrow> int \<Rightarrow> int" where
"step_toward inp n =
   (if n \<le> CurrentReplicas inp
    then (if since_last inp < down_cooldown inp then CurrentReplicas inp
          else max n (CurrentReplicas inp - down_step inp))
    else if MaxInFlight inp > 0 \<and> fle (f_of_int (MaxInFlight inp)) (total_inflight inp) \<or>
            since_last inp < up_cooldown inp
    then CurrentReplicas inp
    else min n (CurrentReplicas inp + up_step inp))"

lemma wanted_range: "min_replicas inp \<le> wanted pf inp est \<and> wanted pf inp est \<le> max_replicas inp"
  using clamp_range [OF minMax_range(2)] minMax_range(2) [of inp] by (simp add: wanted_def)

lemma Decide_step_toward:
  assumes "typed_inputs inp" "up_step inp < 2 ^ 31" "down_step inp < 2 ^ 31"
    and "min_replicas inp < max_replicas inp" "min_replicas inp \<le> CurrentReplicas inp" "CurrentReplicas inp \<le> max_replicas inp"
    and "EstimateKnee pf srt srtB (History inp) (Now inp) = Some est"
  shows "\<exists>d. Decide pf srt srtB inp = Some d \<and> DesiredReplicas d = step_toward inp (wanted pf inp est)"
proof -
  define cur mn mx where "cur = CurrentReplicas inp" and "mn = min_replicas inp" and "mx = max_replicas inp"
  have mm: "minMax (Spec inp) = (mn, mx)"
    by (simp add: mn_def mx_def)
  have r: "1 \<le> mn" "mn < mx" "mx < 2 ^ 31" "mn \<le> cur" "cur \<le> mx"
    using minMax_range(1) [of inp] minMax_range(3) [OF assms(1)] assms(4-6) by (simp_all add: mn_def mx_def cur_def)
  have steps: "0 \<le> up_step inp" "0 \<le> down_step inp" "int32 (up_step inp) = up_step inp" "int32 (down_step inp) = down_step inp"
    using assms(1-3) by (simp_all add: typed_inputs_def)
  note unf = Decide_def mm prod.case Let_def cur_def [symmetric] mn_def [symmetric] mx_def [symmetric] steps(3,4)
    step_toward_def
  show ?thesis
  proof (cases "fle (total_inflight inp) f0")
    case True
    then show ?thesis
      using r steps assms(3) by (auto simp: unf wanted_def max.commute)
  next
    case False
    define n where "n = wanted pf inp est"
    have n: "mn \<le> n" "n \<le> mx"
      "n = clamp (f_to_int32 pf (fceil (fdiv (total_inflight inp) (scalingTarget inp est)))) mn mx"
      using wanted_range [of inp pf est] False by (simp_all add: n_def mn_def mx_def wanted_def)
    have w: "int32 (n - cur) = n - cur" "int32 (cur - n) = cur - n"
      using n(1,2) r by simp_all
    have up: "int32 (cur + min (n - cur) (up_step inp)) = min n (cur + up_step inp)" if "cur < n"
      using that n(1,2) r steps assms(2) by (auto simp: min_def)
    have down: "int32 (cur - min (cur - n) (down_step inp)) = max n (cur - down_step inp)" if "n < cur"
      using that n(1,2) r steps assms(3) by (auto simp: min_def max_def)
    have "Decide pf srt srtB inp = Some
        (if n = cur then \<lparr>DesiredReplicas = n, dec_Reason = ReasonNoChange, Skip = True, dec_Estimate = est\<rparr>
         else if n > cur then scaleUp inp est n (scalingTarget inp est) (total_inflight inp) (up_step inp)
           (up_cooldown inp) (since_last inp)
         else scaleDown inp est n (down_step inp) (down_cooldown inp) (since_last inp))"
      using False r assms(7) by (simp add: unf n(3) [symmetric])
    then show ?thesis
      using w up down steps
      by (auto simp: n_def [symmetric] scaleUp_def scaleDown_def Let_def step_toward_def cur_def [symmetric])
  qed
qed

lemma Decide_outside:
  assumes "\<not> (min_replicas inp < max_replicas inp \<and> min_replicas inp \<le> CurrentReplicas inp \<and> CurrentReplicas inp \<le> max_replicas inp)"
  shows "\<exists>d. Decide pf srt srtB inp = Some d \<and>
             DesiredReplicas d = clamp (CurrentReplicas inp) (min_replicas inp) (max_replicas inp)"
proof -
  define cur mn mx where "cur = CurrentReplicas inp" and "mn = min_replicas inp" and "mx = max_replicas inp"
  have mm: "minMax (Spec inp) = (mn, mx)"
    by (simp add: mn_def mx_def)
  have "mn = mx \<or> mn < mx \<and> (cur < mn \<or> mx < cur)"
    using assms minMax_range(2) [of inp] by (auto simp: cur_def mn_def mx_def)
  then show ?thesis
    unfolding Decide_def mm prod.case Let_def cur_def [symmetric] mn_def [symmetric] mx_def [symmetric]
    by (auto simp: clamp_def)
qed

text \<open>
  C14. The decision is total and computes one throttled step.  On typed inputs with steps that fit
  into \<open>int32\<close>, a target percentage that is not negative and at most \<open>2 ^ 20\<close> samples that are all sane
  (finite readings of at most \<open>2 ^ 30\<close>, at most seven days old), \<^const>\<open>EstimateKnee\<close> returns an
  estimate and \<^const>\<open>Decide\<close> does not panic; the per-replica target of that estimate is finite and
  at least \<open>1e-9\<close>.  From a count inside a range with more than one value the result is the step
  toward \<open>ceil(totalInflight / target)\<close> (min when idle) that the throttles allow, for that very
  estimate; from any other count it is the nearest bound.
\<close>

theorem decide_total_one_step:
  assumes "time_sort srt" "bucket_sort srtB" "exp_ok pf"
    and "\<And>s. s \<in> set (History inp) \<Longrightarrow> sane (Now inp) s" "length (History inp) \<le> 2 ^ 20"
    and "typed_inputs inp" "up_step inp < 2 ^ 31" "down_step inp < 2 ^ 31"
    and "pred_option (\<lambda>p. 0 \<le> p) (sc_TargetSaturationPercentage (Spec inp))"
  shows "\<exists>d est. Decide pf srt srtB inp = Some d \<and> EstimateKnee pf srt srtB (History inp) (Now inp) = Some est \<and>
           fin_in (fval (f_lit 1 1000000000)) (2 ^ 83) (scalingTarget inp est) \<and>
           DesiredReplicas d =
             (if min_replicas inp < max_replicas inp \<and> min_replicas inp \<le> CurrentReplicas inp \<and>
                 CurrentReplicas inp \<le> max_replicas inp
              then step_toward inp (wanted pf inp est)
              else clamp (CurrentReplicas inp) (min_replicas inp) (max_replicas inp))"
proof -
  obtain est where est: "EstimateKnee pf srt srtB (History inp) (Now inp) = Some est"
      "fin_in 0 (2 ^ 80) (KneePerReplica est)" "fin_in 0 1 (Confidence est)"
  proof -
    have "\<exists>e. EstimateKnee pf srt srtB (History inp) (Now inp) = Some e \<and>
        fin_in 0 (2 ^ 80) (KneePerReplica e) \<and> fin_in 0 1 (Confidence e)"
      by (rule estimate_usable) (use assms in auto)
    then show ?thesis
      using that by blast
  qed
  have target: "fin_in (fval (f_lit 1 1000000000)) (2 ^ 83) (scalingTarget inp est)"
    using scalingTarget_in [OF assms(9) est(2,3)] by (simp add: fin_in_def)
  show ?thesis
  proof (cases "min_replicas inp < max_replicas inp \<and> min_replicas inp \<le> CurrentReplicas inp \<and>
      CurrentReplicas inp \<le> max_replicas inp")
    case True
    then obtain d where "Decide pf srt srtB inp = Some d" "DesiredReplicas d = step_toward inp (wanted pf inp est)"
      using Decide_step_toward [OF assms(6-8) _ _ _ est(1)] by blast
    then show ?thesis
      using True est(1) target by auto
  next
    case False
    then obtain d where "Decide pf srt srtB inp = Some d"
        "DesiredReplicas d = clamp (CurrentReplicas inp) (min_replicas inp) (max_replicas inp)"
      using Decide_outside by blast
    then show ?thesis
      using False est(1) target by auto
  qed
qed

theorem decide_total_one_step_witness:
  "let decide = Decide demo_platform (sort_key Timestamp) (sort_key (\<lambda>b. fkey (b_inflight b)));
       inp = demo_inputs zero_scale
   in \<exists>d. decide inp = Some d \<and> DesiredReplicas d = 4 \<and>
          step_toward inp (wanted demo_platform inp zero_estimate) = 4 \<and> wanted demo_platform inp zero_estimate = 9"
proof -
  define inp where "inp = demo_inputs zero_scale"
  have facts: "typed_inputs inp" "minMax (Spec inp) = (1, 50)" "CurrentReplicas inp = 2" "up_step inp = 2"
    by (simp_all add: inp_def demo_simps typed_inputs_def)
  have est: "EstimateKnee demo_platform (sort_key Timestamp) (sort_key (\<lambda>b. fkey (b_inflight b))) (History inp) (Now inp) = Some zero_estimate"
    by (simp add: inp_def demo_inputs_def EstimateKnee_def Sanitize_def dedupByTimestamp_def zero_estimate_def minSamplesToLearn_def)
  have "\<exists>d e. Decide demo_platform (sort_key Timestamp) (sort_key (\<lambda>b. fkey (b_inflight b))) inp = Some d \<and>
      EstimateKnee demo_platform (sort_key Timestamp) (sort_key (\<lambda>b. fkey (b_inflight b))) (History inp) (Now inp) = Some e \<and>
      fin_in (fval (f_lit 1 1000000000)) (2 ^ 83) (scalingTarget inp e) \<and>
      DesiredReplicas d =
        (if min_replicas inp < max_replicas inp \<and> min_replicas inp \<le> CurrentReplicas inp \<and>
            CurrentReplicas inp \<le> max_replicas inp
         then step_toward inp (wanted demo_platform inp e)
         else clamp (CurrentReplicas inp) (min_replicas inp) (max_replicas inp))"
    by (intro decide_total_one_step stable_time.slice_sort_axioms key_bucket.slice_sort_axioms demo_exp_ok)
      (simp_all add: inp_def demo_simps typed_inputs_def)
  moreover have "wanted demo_platform inp zero_estimate = 9"
    using demo_count demo_loaded by (simp add: wanted_def inp_def demo_simps inflightBasis_def clamp_def)
  moreover have "step_toward inp 9 = 4"
    by (simp add: step_toward_def inp_def demo_simps GetOr_def DefaultScaleUpCooldownSeconds_def second_def
        zero_time_def time_sub_def)
  ultimately show ?thesis
    using est facts by (auto simp: Let_def inp_def [symmetric])
qed

section \<open>More load, not fewer replicas\<close>

definition with_load :: "Inputs \<Rightarrow> f64 \<Rightarrow> Inputs" where
"with_load inp x = inp\<lparr>Current := (Current inp)\<lparr>InflightPerRep := x\<rparr>\<rparr>"

lemma with_load_simps [simp]:
  "CurrentReplicas (with_load inp x) = CurrentReplicas inp" "Spec (with_load inp x) = Spec inp"
  "MaxInFlight (with_load inp x) = MaxInFlight inp" "Now (with_load inp x) = Now inp"
  "LastScaledAt (with_load inp x) = LastScaledAt inp" "History (with_load inp x) = History inp"
  "inflightBasis (with_load inp x) = inflightBasis inp" "InflightPerRep (Current (with_load inp x)) = x"
  "scalingTarget (with_load inp x) est = scalingTarget inp est"
  by (simp_all add: with_load_def inflightBasis_def scalingTarget_def)

lemma total_mono:
  assumes "fin_in 0 (2 ^ 30) x" "fin_in 0 (2 ^ 30) y" "fval x \<le> fval y" "0 \<le> b" "b < 2 ^ 31"
  shows "fin_in 0 (2 ^ 61) (fmul x (f_of_int b))" "fval (fmul x (f_of_int b)) \<le> fval (fmul y (f_of_int b))"
proof -
  have b: "is_fin (f_of_int b)" "fval (f_of_int b) = of_int b"
    using assms(4,5) f_of_int_exact [of b] by simp_all
  have b': "real_of_int b \<le> 2 ^ 31"
    using assms(5) by (simp add: of_int_le_numeral_power_cancel_iff)
  have fin: "fin_in 0 (2 ^ 61) (fmul z (f_of_int b))" if "fin_in 0 (2 ^ 30) z" for z
    using that b b' assms(4) representable_power [of 61] mult_mono [of "fval z" "2 ^ 30" "of_int b" "2 ^ 31"]
    by (intro fmul_in) (auto simp: fin_in_def)
  then show "fin_in 0 (2 ^ 61) (fmul x (f_of_int b))"
    using assms(1) .
  have "fval x * fval (f_of_int b) \<le> fval y * fval (f_of_int b)"
    using assms(3,4) b by (intro mult_right_mono) simp_all
  then have "fkey (fmul x (f_of_int b)) \<le> fkey (fmul y (f_of_int b))"
    using assms(1,2) b(1) fmul_fin by (auto simp: fin_in_def intro: srnd_mono)
  then show "fval (fmul x (f_of_int b)) \<le> fval (fmul y (f_of_int b))"
    using fin [OF assms(1)] fin [OF assms(2)] by (simp add: fval_le_iff fin_in_def)
qed

lemma count_mono:
  assumes "fin_in 0 (2 ^ 61) a" "is_fin b" "is_fin g" "fval a \<le> fval b" "0 < fval g" "fval b \<le> (2 ^ 31 - 1) * fval g"
  shows "f_to_int32 pf (fceil (fdiv a g)) \<le> f_to_int32 pf (fceil (fdiv b g))"
proof -
  have q: "fin_in 0 (2 ^ 31 - 1) (fdiv c g)" if "is_fin c" "0 \<le> fval c" "fval c \<le> fval b" for c
    using that assms representable_int [of "2 ^ 31 - 1"] by (intro fdiv_in) (auto simp: divide_le_eq)
  have a: "fin_in 0 (2 ^ 31 - 1) (fdiv a g)" and b: "fin_in 0 (2 ^ 31 - 1) (fdiv b g)"
    using q [of a] q [of b] assms(2,4) fin_inD [OF assms(1)] by simp_all
  have conv: "f_to_int32 pf (fceil q) = \<lceil>fval q\<rceil>" if "fin_in 0 (2 ^ 31 - 1) q" for q
  proof -
    have "\<lceil>fval q\<rceil> \<le> 2 ^ 31 - 1" "0 \<le> \<lceil>fval q\<rceil>"
      using that by (simp_all add: fin_in_def ceiling_le_iff)
    then show ?thesis
      using that fceil_fin [of q] f_trunc_ceil [of q] by (simp add: f_to_int32_def fin_in_def)
  qed
  have "fval a / fval g \<le> fval b / fval g"
    using assms(4,5) by (simp add: divide_right_mono)
  then have "fkey (fdiv a g) \<le> fkey (fdiv b g)"
    using assms(1-3,5) fval_nonzero_key [OF assms(3)] fdiv_fin by (auto simp: fin_in_def intro: srnd_mono)
  then have "fval (fdiv a g) \<le> fval (fdiv b g)"
    using a b by (simp add: fval_le_iff fin_in_def)
  then show ?thesis
    using conv [OF a] conv [OF b] by (simp add: ceiling_mono)
qed

lemma wanted_mono:
  assumes "fin_in 0 (2 ^ 30) x" "fin_in 0 (2 ^ 30) y" "fval x \<le> fval y" "0 \<le> inflightBasis inp" "inflightBasis inp < 2 ^ 31"
    and "is_fin (scalingTarget inp est)" "0 < fval (scalingTarget inp est)"
    and "fval (total_inflight (with_load inp y)) \<le> (2 ^ 31 - 1) * fval (scalingTarget inp est)"
  shows "wanted pf (with_load inp x) est \<le> wanted pf (with_load inp y) est"
proof -
  note tx = total_mono [OF assms(1-5)] and ty = total_mono(1) [OF assms(2,2) order_refl assms(4,5)]
  show ?thesis
  proof (cases "fle (total_inflight (with_load inp x)) f0")
    case True
    then show ?thesis
      using wanted_range [of "with_load inp y" pf est] by (simp add: wanted_def)
  next
    case False
    then have "\<not> fle (total_inflight (with_load inp y)) f0"
      using tx ty by (auto simp: fle_fval fin_in_def)
    then show ?thesis
      using False count_mono [OF tx(1) _ assms(6) tx(2) assms(7), of pf] ty assms(8) minMax_range(2) [of inp]
      by (auto simp: wanted_def clamp_def fin_in_def)
  qed
qed

lemma step_toward_mono:
  assumes "typed_inputs inp" "n \<le> n'"
    and "MaxInFlight inp > 0 \<longrightarrow> \<not> fle (f_of_int (MaxInFlight inp)) (total_inflight (with_load inp y))"
  shows "step_toward (with_load inp x) n \<le> step_toward (with_load inp y) n'"
  using assms by (auto simp: step_toward_def typed_inputs_def)

text \<open>
  C24. More load never gives fewer replicas.  Take two typed inputs that differ in the measured
  in-flight load only, with steps that fit into \<open>int32\<close>, a current count inside a range with more than
  one value, an estimate whose target is finite and positive, loads between 0 and \<open>2 ^ 30\<close> and a
  wanted count that fits into \<open>int32\<close>.  If there is no rate limit or the higher load is below it, both
  are decided, and the one with the higher load is given at least as many replicas.
\<close>

theorem decide_monotone_in_load:
  assumes "typed_inputs inp" "up_step inp < 2 ^ 31" "down_step inp < 2 ^ 31"
    and "MaxInFlight inp > 0 \<longrightarrow> \<not> fle (f_of_int (MaxInFlight inp)) (total_inflight (with_load inp y))"
    and "min_replicas inp < max_replicas inp" "min_replicas inp \<le> CurrentReplicas inp" "CurrentReplicas inp \<le> max_replicas inp"
    and "EstimateKnee pf srt srtB (History inp) (Now inp) = Some est"
    and "is_fin (scalingTarget inp est)" "0 < fval (scalingTarget inp est)"
    and "fin_in 0 (2 ^ 30) x" "fin_in 0 (2 ^ 30) y" "fval x \<le> fval y" "0 \<le> inflightBasis inp" "inflightBasis inp < 2 ^ 31"
    and "fval (total_inflight (with_load inp y)) \<le> (2 ^ 31 - 1) * fval (scalingTarget inp est)"
  shows "\<exists>dx dy. Decide pf srt srtB (with_load inp x) = Some dx \<and> Decide pf srt srtB (with_load inp y) = Some dy \<and>
                DesiredReplicas dx \<le> DesiredReplicas dy"
proof -
  have decided: "\<exists>d. Decide pf srt srtB (with_load inp z) = Some d \<and>
      DesiredReplicas d = step_toward (with_load inp z) (wanted pf (with_load inp z) est)" for z
    by (rule Decide_step_toward) (use assms(1-3,5-8) in \<open>simp_all add: typed_inputs_def\<close>)
  have "wanted pf (with_load inp x) est \<le> wanted pf (with_load inp y) est"
    by (rule wanted_mono) (use assms(9-16) in simp_all)
  then show ?thesis
    using decided [of x] decided [of y] step_toward_mono [OF assms(1) _ assms(4)] by metis
qed

theorem decide_monotone_in_load_witness:
  "let inp = (demo_inputs zero_scale)\<lparr>MaxInFlight := 100\<rparr>;
       decide = Decide demo_platform (sort_key Timestamp) (sort_key (\<lambda>b. fkey (b_inflight b)))
   in DesiredReplicas (the (decide (with_load inp f1))) \<le> DesiredReplicas (the (decide (with_load inp (f_of_int 40))))"
proof -
  define inp where "inp = (demo_inputs zero_scale)\<lparr>MaxInFlight := 100\<rparr>"
  define g where "g = scalingTarget inp zero_estimate"
  have est: "EstimateKnee demo_platform (sort_key Timestamp) (sort_key (\<lambda>b. fkey (b_inflight b))) (History inp) (Now inp) = Some zero_estimate"
    by (simp add: inp_def demo_inputs_def EstimateKnee_def Sanitize_def dedupByTimestamp_def zero_estimate_def minSamplesToLearn_def)
  have target: "scalingTarget inp zero_estimate = F64 4621593937607602995"
    using demo_target by (simp add: inp_def scalingTarget_def)
  have "fkey f1 \<le> fkey g" "is_fin g"
    unfolding g_def target by code_simp+
  then have g: "is_fin g" "1 \<le> fval g"
    using fval_le_iff [of f1 g] by simp_all
  have inp: "typed_inputs inp" "minMax (Spec inp) = (1, 50)" "CurrentReplicas inp = 2" "MaxInFlight inp = 100"
    "up_step inp < 2 ^ 31" "down_step inp < 2 ^ 31" "inflightBasis inp = 2"
    by (simp_all add: inp_def demo_simps typed_inputs_def inflightBasis_def)
  have loads: "fin_in 0 (2 ^ 30) f1" "fin_in 0 (2 ^ 30) (f_of_int 40)" "fval f1 \<le> fval (f_of_int 40)"
    using f_of_int_exact [of 40] by (simp_all add: fin_in_def)
  have "fin_in 0 100 (fmul (f_of_int 40) (f_of_int 2))"
    using f_of_int_exact [of 40] f_of_int_exact [of 2] by (intro fmul_in) simp_all
  then have "fval (total_inflight (with_load inp (f_of_int 40))) \<le> (2 ^ 31 - 1) * fval g"
    using g(2) by (simp add: inp(7) fin_in_def)
  moreover have "\<not> fle (f_of_int 100) (fmul (f_of_int 40) (f_of_int 2))"
    unfolding demo_total by code_simp
  ultimately have "\<exists>dx dy. Decide demo_platform (sort_key Timestamp) (sort_key (\<lambda>b. fkey (b_inflight b))) (with_load inp f1) = Some dx \<and>
      Decide demo_platform (sort_key Timestamp) (sort_key (\<lambda>b. fkey (b_inflight b))) (with_load inp (f_of_int 40)) = Some dy \<and>
      DesiredReplicas dx \<le> DesiredReplicas dy"
    using inp g loads by (intro decide_monotone_in_load [OF _ _ _ _ _ _ _ est]) (simp_all add: g_def)
  then show ?thesis
    by (auto simp: Let_def inp_def)
qed

section \<open>Steps that do not fit\<close>

text \<open>
  C38. A step of \<open>2 ^ 31\<close> or more turns a scale-up into a scale-down.  The \<open>uint32\<close> step is
  converted to a negative \<open>int32\<close>, wins the minimum against the wanted increase, and the decision
  tagged as a scale-up lowers the count by \<open>2 ^ 32 - step\<close>, below the configured minimum when that
  is large.
\<close>

theorem huge_step_scales_down:
  assumes "Decide pf srt srtB inp = Some d" "typed_inputs inp" "2 ^ 31 \<le> up_step inp"
    and "dec_Reason d \<in> {ReasonScaleUp, ReasonSurge}"
  shows "DesiredReplicas d = CurrentReplicas inp - (2 ^ 32 - up_step inp) \<and> DesiredReplicas d < CurrentReplicas inp \<and>
         \<not> Skip d"
  using assms(1,2)
proof (cases rule: Decide_cases)
  case (up n)
  have step: "up_step inp < 2 ^ 32"
    using assms(2) by (simp add: typed_inputs_def)
  have "int32 (up_step inp) = up_step inp - 2 ^ 32"
  proof -
    have "(up_step inp + 2 ^ 31) mod 2 ^ 32 = (up_step inp + 2 ^ 31 - 2 ^ 32) mod 2 ^ 32"
      by (simp add: mod_diff_right_eq [symmetric] del: power_numeral)
    then show ?thesis
      using assms(3) step by (simp add: int32_def)
  qed
  moreover have "1 \<le> CurrentReplicas inp" "CurrentReplicas inp < 2 ^ 31"
    using up(1,2,3) minMax_range(1) [of inp] minMax_range(3) [OF assms(2)] by linarith+
  ultimately show ?thesis
    using up step assms(3) by (simp add: min_def)
qed (use assms(4) in auto)

theorem huge_step_scales_down_witness:
  "DesiredReplicas (the (Decide demo_platform (sort_key Timestamp) (sort_key (\<lambda>b. fkey (b_inflight b)))
     (demo_inputs (zero_scale\<lparr>sc_ReplicasPerScaleUp := Some (2 ^ 31)\<rparr>)))) < min_replicas (demo_inputs zero_scale)"
proof -
  define inp where "inp = demo_inputs (zero_scale\<lparr>sc_ReplicasPerScaleUp := Some (2 ^ 31)\<rparr>)"
  obtain d where d: "Decide demo_platform (sort_key Timestamp) (sort_key (\<lambda>b. fkey (b_inflight b))) inp = Some d"
      "dec_Reason d \<in> {ReasonScaleUp, ReasonSurge}"
    using demo_decide [of "zero_scale\<lparr>sc_ReplicasPerScaleUp := Some (2 ^ 31)\<rparr>"]
      demo_scaleUp(2) [of "zero_scale\<lparr>sc_ReplicasPerScaleUp := Some (2 ^ 31)\<rparr>"]
    by (simp add: inp_def)
  have "typed_inputs inp" "up_step inp = 2 ^ 31" "CurrentReplicas inp = 2" "min_replicas (demo_inputs zero_scale) = 1"
    by (simp_all add: inp_def demo_simps typed_inputs_def)
  then show ?thesis
    using huge_step_scales_down [OF d(1) _ _ d(2)] d(1) by (simp add: inp_def)
qed

end
