(* ===== verification/Validator.thy ===== *)
theory Validator
  imports AgentTypes
begin

text \<open>
  \<open>pkg/reconciler/validator/agentset.go\<close>: structural validation of an AgentSet.  The DNS-1035
  test (a Kubernetes library function) and the test that a URL parses with a scheme and a
  host are arguments.  Each error return of the code is a constructor; \<open>None\<close> is success.
\<close>

section \<open>Validation\<close>

datatype agentset_error =
    InvalidName string
  | NoAgents
  | EmptyAgentName
  | InvalidAgentName string
  | ReservedAgentName string string
  | DuplicateAgentName string
  | NameTooLong string nat
  | BadTargetSaturation string int
  | EmptyExternalName
  | InvalidExternalName string
  | ReservedExternalName string string
  | DuplicateExternalName string
  | EmptyExternalURL string
  | BadExternalURL string string
  | EntryIsExternal string
  | EntryUnknown string
  | TooFewAgents AgentPattern nat
  | EntryNotFirst string string
  | TooManyExternals nat
  | UnsupportedPattern string

definition reservedAgentNames :: "(string \<times> string) list" where
"reservedAgentNames =
   [(EntryServiceSuffix, ''AgentSet entry service''), (DaemonSuffix, ''AgentSet daemon service'')]"

definition MaxChildAgentDeployNameLen :: nat where
"MaxChildAgentDeployNameLen = 50"

fun validate_agents ::
  "(string \<Rightarrow> bool) \<Rightarrow> AgentSet \<Rightarrow> string list \<Rightarrow> AbstractAgentDeploy list \<Rightarrow> agentset_error + string list" where
"validate_agents dns as seen [] = Inr seen" |
"validate_agents dns as seen (a # rest) =
   (if aad_Name a = [] then Inl EmptyAgentName
    else if \<not> dns (aad_Name a) then Inl (InvalidAgentName (aad_Name a))
    else case map_of reservedAgentNames (aad_Name a) of
      Some collidesWith \<Rightarrow> Inl (ReservedAgentName (aad_Name a) collidesWith)
    | None \<Rightarrow>
        if aad_Name a \<in> set seen then Inl (DuplicateAgentName (aad_Name a))
        else let name = ChildAgentDeployName as (aad_Name a) in
          if length name > MaxChildAgentDeployNameLen then Inl (NameTooLong name (length name))
          else case sc_TargetSaturationPercentage (aad_Scale a) of
            Some p \<Rightarrow> if p > 100 then Inl (BadTargetSaturation (aad_Name a) p)
                      else validate_agents dns as (aad_Name a # seen) rest
          | None \<Rightarrow> validate_agents dns as (aad_Name a # seen) rest)"

fun validate_externals ::
  "(string \<Rightarrow> bool) \<Rightarrow> (string \<Rightarrow> bool) \<Rightarrow> string list \<Rightarrow> ExternalAgentRef list \<Rightarrow> agentset_error + string list" where
"validate_externals dns absolute_url seen [] = Inr seen" |
"validate_externals dns absolute_url seen (e # rest) =
   (if ext_Name e = [] then Inl EmptyExternalName
    else if \<not> dns (ext_Name e) then Inl (InvalidExternalName (ext_Name e))
    else case map_of reservedAgentNames (ext_Name e) of
      Some collidesWith \<Rightarrow> Inl (ReservedExternalName (ext_Name e) collidesWith)
    | None \<Rightarrow>
        if ext_Name e \<in> set seen then Inl (DuplicateExternalName (ext_Name e))
        else if ext_URL e = [] then Inl (EmptyExternalURL (ext_Name e))
        else if \<not> absolute_url (ext_URL e) then Inl (BadExternalURL (ext_Name e) (ext_URL e))
        else validate_externals dns absolute_url (ext_Name e # seen) rest)"

definition validate_pattern :: "AgentSetSpec \<Rightarrow> agentset_error option" where
"validate_pattern spec =
   (case ass_Pattern spec of
      Supervisor \<Rightarrow> None
    | Handoff \<Rightarrow>
        if length (ass_Agents spec) < 2 then Some (TooFewAgents Handoff (length (ass_Agents spec))) else None
    | Sequential \<Rightarrow>
        if length (ass_Agents spec) < 2 then Some (TooFewAgents Sequential (length (ass_Agents spec)))
        else if ass_Entry spec \<noteq> aad_Name (hd (ass_Agents spec))
        then Some (EntryNotFirst (aad_Name (hd (ass_Agents spec))) (ass_Entry spec))
        else if length (ass_ExternalAgents spec) > 1
        then Some (TooManyExternals (length (ass_ExternalAgents spec)))
        else None
    | OtherPattern p \<Rightarrow> Some (UnsupportedPattern p))"

definition ValidateAgentSet :: "(string \<Rightarrow> bool) \<Rightarrow> (string \<Rightarrow> bool) \<Rightarrow> AgentSet \<Rightarrow> agentset_error option" where
"ValidateAgentSet dns absolute_url as =
   (let spec = as_Spec as in
    if \<not> dns (om_Name (as_Meta as)) then Some (InvalidName (om_Name (as_Meta as)))
    else if ass_Agents spec = [] then Some NoAgents
    else case validate_agents dns as [] (ass_Agents spec) of
      Inl e \<Rightarrow> Some e
    | Inr seen \<Rightarrow>
        (case validate_externals dns absolute_url seen (ass_ExternalAgents spec) of
           Inl e \<Rightarrow> Some e
         | Inr seen' \<Rightarrow>
             if list_ex (\<lambda>e. ext_Name e = ass_Entry spec) (ass_ExternalAgents spec)
             then Some (EntryIsExternal (ass_Entry spec))
             else if ass_Entry spec \<notin> set seen' then Some (EntryUnknown (ass_Entry spec))
             else validate_pattern spec))"

text \<open>A concrete label test with the documented grammar, and a small AgentSet, for examples.\<close>

definition dns1035_label :: "string \<Rightarrow> bool" where
"dns1035_label s \<longleftrightarrow>
   s \<noteq> [] \<and> length s \<le> 63 \<and> hd s \<in> set ''abcdefghijklmnopqrstuvwxyz'' \<and> last s \<noteq> CHR ''-'' \<and>
   list_all (\<lambda>c. c \<in> set ''abcdefghijklmnopqrstuvwxyz0123456789-'') s"

definition sample_set :: "AgentPattern \<Rightarrow> string list \<Rightarrow> AgentSet" where
"sample_set pat names =
   \<lparr>as_Meta = new_meta ''default'' ''set'',
    as_Spec = \<lparr>ass_Pattern = pat, ass_Entry = hd names, ass_Agents = map new_agent names,
      ass_Templates = None, ass_ExternalAgents = [], ass_DriftReload = None\<rparr>,
    as_Status = \<lparr>asst_Conditions = [], asst_Phase = AgentSetPhaseUnknown, asst_Message = [],
      asst_LastUpdated = zero_time, asst_AgentCount = None, asst_ExternalAgentCount = None,
      asst_ObservedGeneration = 0\<rparr>\<rparr>"

section \<open>What acceptance means\<close>

definition agent_ok :: "(string \<Rightarrow> bool) \<Rightarrow> AgentSet \<Rightarrow> AbstractAgentDeploy \<Rightarrow> bool" where
"agent_ok dns as a \<longleftrightarrow>
   aad_Name a \<noteq> [] \<and> dns (aad_Name a) \<and> aad_Name a \<notin> {EntryServiceSuffix, DaemonSuffix} \<and>
   length (ChildAgentDeployName as (aad_Name a)) \<le> MaxChildAgentDeployNameLen \<and>
   (case sc_TargetSaturationPercentage (aad_Scale a) of None \<Rightarrow> True | Some p \<Rightarrow> p \<le> 100)"

definition external_ok :: "(string \<Rightarrow> bool) \<Rightarrow> (string \<Rightarrow> bool) \<Rightarrow> ExternalAgentRef \<Rightarrow> bool" where
"external_ok dns absolute_url e \<longleftrightarrow>
   ext_Name e \<noteq> [] \<and> dns (ext_Name e) \<and> ext_Name e \<notin> {EntryServiceSuffix, DaemonSuffix} \<and>
   ext_URL e \<noteq> [] \<and> absolute_url (ext_URL e)"

definition pattern_ok :: "AgentSetSpec \<Rightarrow> bool" where
"pattern_ok spec \<longleftrightarrow>
   (case ass_Pattern spec of
      Supervisor \<Rightarrow> True
    | Handoff \<Rightarrow> 2 \<le> length (ass_Agents spec)
    | Sequential \<Rightarrow> 2 \<le> length (ass_Agents spec) \<and> ass_Entry spec = aad_Name (hd (ass_Agents spec)) \<and>
                    length (ass_ExternalAgents spec) \<le> 1
    | OtherPattern _ \<Rightarrow> False)"

definition well_formed_set :: "(string \<Rightarrow> bool) \<Rightarrow> (string \<Rightarrow> bool) \<Rightarrow> AgentSet \<Rightarrow> bool" where
"well_formed_set dns absolute_url as \<longleftrightarrow>
   (let spec = as_Spec as in
    dns (om_Name (as_Meta as)) \<and> ass_Agents spec \<noteq> [] \<and>
    list_all (agent_ok dns as) (ass_Agents spec) \<and>
    list_all (external_ok dns absolute_url) (ass_ExternalAgents spec) \<and>
    distinct (map aad_Name (ass_Agents spec) @ map ext_Name (ass_ExternalAgents spec)) \<and>
    ass_Entry spec \<in> aad_Name ` set (ass_Agents spec) \<and>
    pattern_ok spec)"

lemma reserved_None: "map_of reservedAgentNames n = None \<longleftrightarrow> n \<notin> {EntryServiceSuffix, DaemonSuffix}"
  by (auto simp: reservedAgentNames_def)

lemma reserved_Some: "map_of reservedAgentNames n = Some x \<Longrightarrow> n \<in> {EntryServiceSuffix, DaemonSuffix}"
  using reserved_None [of n] by auto

lemma validate_agents_iff:
  "validate_agents dns as seen xs = Inr seen' \<longleftrightarrow>
   list_all (agent_ok dns as) xs \<and> distinct (map aad_Name xs) \<and> set seen \<inter> aad_Name ` set xs = {} \<and>
   seen' = rev (map aad_Name xs) @ seen"
proof (induction xs arbitrary: seen)
  case (Cons a xs)
  show ?case
  proof (cases "map_of reservedAgentNames (aad_Name a)")
    case None
    then have "agent_ok dns as a \<longleftrightarrow>
        aad_Name a \<noteq> [] \<and> dns (aad_Name a) \<and>
        length (ChildAgentDeployName as (aad_Name a)) \<le> MaxChildAgentDeployNameLen \<and>
        (case sc_TargetSaturationPercentage (aad_Scale a) of None \<Rightarrow> True | Some p \<Rightarrow> p \<le> 100)"
      using reserved_None [of "aad_Name a"] by (simp add: agent_ok_def)
    then show ?thesis
      using None by (auto simp: Cons.IH Let_def split: option.splits)
  next
    case (Some x)
    then show ?thesis
      using reserved_Some [OF Some] by (auto simp: agent_ok_def)
  qed
qed auto

lemma validate_externals_iff:
  "validate_externals dns absolute_url seen xs = Inr seen' \<longleftrightarrow>
   list_all (external_ok dns absolute_url) xs \<and> distinct (map ext_Name xs) \<and>
   set seen \<inter> ext_Name ` set xs = {} \<and> seen' = rev (map ext_Name xs) @ seen"
proof (induction xs arbitrary: seen)
  case (Cons a xs)
  show ?case
  proof (cases "map_of reservedAgentNames (ext_Name a)")
    case None
    then have "external_ok dns absolute_url a \<longleftrightarrow>
        ext_Name a \<noteq> [] \<and> dns (ext_Name a) \<and> ext_URL a \<noteq> [] \<and> absolute_url (ext_URL a)"
      using reserved_None [of "ext_Name a"] by (simp add: external_ok_def)
    then show ?thesis
      using None by (auto simp: Cons.IH)
  next
    case (Some x)
    then show ?thesis
      using reserved_Some [OF Some] by (auto simp: external_ok_def)
  qed
qed auto

lemma validate_pattern_iff: "validate_pattern spec = None \<longleftrightarrow> pattern_ok spec"
  by (auto simp: validate_pattern_def pattern_ok_def split: AgentPattern.splits)

lemma ValidateAgentSet_iff:
  "ValidateAgentSet dns absolute_url as = None \<longleftrightarrow> well_formed_set dns absolute_url as"
proof -
  define agents where "agents = ass_Agents (as_Spec as)"
  define exts where "exts = ass_ExternalAgents (as_Spec as)"
  show ?thesis
  proof (cases "validate_agents dns as [] agents")
    case (Inl e)
    then have "\<not> (list_all (agent_ok dns as) agents \<and> distinct (map aad_Name agents))"
      using validate_agents_iff [of dns as "[]" agents] by auto
    then show ?thesis
      using Inl by (auto simp: ValidateAgentSet_def well_formed_set_def Let_def agents_def)
  next
    case seen: (Inr seen)
    note sa = seen [unfolded validate_agents_iff]
    show ?thesis
    proof (cases "validate_externals dns absolute_url seen exts")
      case (Inl e)
      then have "\<not> (list_all (external_ok dns absolute_url) exts \<and> distinct (map ext_Name exts) \<and>
          set seen \<inter> ext_Name ` set exts = {})"
        using validate_externals_iff [of dns absolute_url seen exts] by auto
      then show ?thesis
        using Inl seen sa by (auto simp: ValidateAgentSet_def well_formed_set_def Let_def agents_def exts_def)
    next
      case (Inr seen')
      note se = Inr [unfolded validate_externals_iff]
      have "list_ex (\<lambda>e. ext_Name e = x) exts \<longleftrightarrow> x \<in> ext_Name ` set exts" for x
        by (auto simp: list_ex_iff)
      then show ?thesis
        using Inr seen sa se
        by (auto simp: ValidateAgentSet_def well_formed_set_def Let_def agents_def exts_def validate_pattern_iff)
    qed
  qed
qed

section \<open>Topology of an accepted AgentSet\<close>

text \<open>Names of the managed peers an agent is given.\<close>

definition managed_peers :: "AgentSet \<Rightarrow> string \<Rightarrow> string list" where
"managed_peers as a =
   map peer_Name (filter (\<lambda>p. peer_Kind p = PeerKindManaged) (t_Peers (ComputeTopology (Some as) a)))"

inductive discovers :: "AgentSet \<Rightarrow> string \<Rightarrow> bool" for as where
entry: "discovers as (ass_Entry (as_Spec as))" |
hop: "discovers as a \<Longrightarrow> b \<in> set (managed_peers as a) \<Longrightarrow> discovers as b"

lemma managed_peersExcluding:
  "map peer_Name (filter (\<lambda>p. peer_Kind p = PeerKindManaged) (peersExcluding agents exts self)) =
   filter (\<lambda>n. n \<noteq> self) (map aad_Name agents)"
proof -
  have "filter (\<lambda>p. peer_Kind p = PeerKindManaged) (map external_peer exts) = []"
    by (auto simp: filter_empty_conv external_peer_def)
  moreover have "filter (\<lambda>p. peer_Kind p = PeerKindManaged) (map managed_peer xs) = map managed_peer xs" for xs
    by (auto simp: filter_id_conv managed_peer_def)
  ultimately show ?thesis
    by (simp add: peersExcluding_def filter_map comp_def managed_peer_def)
qed

lemma nextAgent_position:
  assumes "distinct (map aad_Name agents)" "i < length agents"
  shows "nextAgent agents exts (aad_Name (agents ! i)) =
         (if Suc i < length agents then Some (managed_peer (agents ! Suc i))
          else case exts of e # _ \<Rightarrow> Some (external_peer e) | [] \<Rightarrow> None)"
  using assms
proof (induction agents arbitrary: i)
  case (Cons a agents)
  show ?case
  proof (cases i)
    case 0
    then show ?thesis
      by (cases agents) (auto split: list.splits)
  next
    case (Suc j)
    then have "aad_Name a \<noteq> aad_Name (agents ! j)"
      using Cons.prems by auto
    then show ?thesis
      using Cons Suc by simp
  qed
qed simp

lemma managed_peers_cases:
  assumes "distinct (map aad_Name (ass_Agents (as_Spec as)))"
  shows "ass_Pattern (as_Spec as) = Handoff \<Longrightarrow>
           managed_peers as a = filter (\<lambda>n. n \<noteq> a) (map aad_Name (ass_Agents (as_Spec as)))"
    and "ass_Pattern (as_Spec as) = Supervisor \<Longrightarrow>
           managed_peers as a = (if a = ass_Entry (as_Spec as)
             then filter (\<lambda>n. n \<noteq> a) (map aad_Name (ass_Agents (as_Spec as))) else [])"
    and "ass_Pattern (as_Spec as) = Sequential \<Longrightarrow> i < length (ass_Agents (as_Spec as)) \<Longrightarrow>
           managed_peers as (aad_Name (ass_Agents (as_Spec as) ! i)) =
             (if Suc i < length (ass_Agents (as_Spec as)) then [aad_Name (ass_Agents (as_Spec as) ! Suc i)] else [])"
  using managed_peersExcluding nextAgent_position [OF assms, of i]
  by (auto simp: managed_peers_def ComputeTopology_def Let_def managed_peer_def external_peer_def
      split: list.splits)

lemma nextAgent_name:
  "nextAgent agents exts self = Some p \<Longrightarrow> peer_Kind p = PeerKindManaged \<Longrightarrow>
   peer_Name p \<in> aad_Name ` set agents"
  by (induction agents exts self rule: nextAgent.induct)
    (auto simp: managed_peer_def external_peer_def split: if_splits list.splits)

lemma managed_peers_named: "set (managed_peers as a) \<subseteq> aad_Name ` set (ass_Agents (as_Spec as))"
proof -
  have "peer_Name p \<in> aad_Name ` set agents"
    if "p \<in> set (peersExcluding agents exts self)" "peer_Kind p = PeerKindManaged" for p agents exts self
    using that by (auto simp: peersExcluding_def managed_peer_def external_peer_def)
  then show ?thesis
    by (auto simp: managed_peers_def ComputeTopology_def Let_def dest: nextAgent_name
        split: AgentPattern.splits option.splits if_splits)
qed

lemma sequential_discovers:
  assumes "distinct (map aad_Name (ass_Agents (as_Spec as)))" "ass_Pattern (as_Spec as) = Sequential"
    and "ass_Entry (as_Spec as) = aad_Name (ass_Agents (as_Spec as) ! 0)"
  shows "i < length (ass_Agents (as_Spec as)) \<Longrightarrow> discovers as (aad_Name (ass_Agents (as_Spec as) ! i))"
proof (induction i)
  case 0
  show ?case
    using discovers.entry [of as] assms(3) by simp
next
  case (Suc i)
  have "aad_Name (ass_Agents (as_Spec as) ! Suc i) \<in> set (managed_peers as (aad_Name (ass_Agents (as_Spec as) ! i)))"
    using managed_peers_cases(3) [OF assms(1,2) Suc_lessD [OF Suc.prems]] Suc.prems by simp
  then show ?case
    by (rule discovers.hop [OF Suc.IH [OF Suc_lessD [OF Suc.prems]]])
qed

lemma star_discovers:
  assumes "\<And>n. n \<in> N \<Longrightarrow> n \<noteq> ass_Entry (as_Spec as) \<Longrightarrow> n \<in> set (managed_peers as (ass_Entry (as_Spec as)))" "n \<in> N"
  shows "discovers as n"
  using assms discovers.entry [of as] discovers.hop [of as "ass_Entry (as_Spec as)" n] by (cases "n = ass_Entry (as_Spec as)") auto

section \<open>Properties\<close>

text \<open>C29: validation succeeds exactly when the set name and every agent name are valid DNS labels, no
  managed or external name is empty, reserved or repeated, every derived object name fits the length
  limit, saturation targets are at most 100, external URLs are absolute, the entry is a managed agent
  and the pattern's shape constraints hold.\<close>

theorem validator_accepts_exactly:
  "ValidateAgentSet dns absolute_url as = None \<longleftrightarrow>
     dns (om_Name (as_Meta as)) \<and> ass_Agents (as_Spec as) \<noteq> [] \<and>
     list_all (agent_ok dns as) (ass_Agents (as_Spec as)) \<and>
     list_all (external_ok dns absolute_url) (ass_ExternalAgents (as_Spec as)) \<and>
     distinct (map aad_Name (ass_Agents (as_Spec as)) @ map ext_Name (ass_ExternalAgents (as_Spec as))) \<and>
     ass_Entry (as_Spec as) \<in> aad_Name ` set (ass_Agents (as_Spec as)) \<and>
     pattern_ok (as_Spec as)"
  by (simp add: ValidateAgentSet_iff well_formed_set_def Let_def)

text \<open>C10: in an AgentSet that passes validation, following the peers handed out by \<open>ComputeTopology\<close>
  from the entry agent reaches exactly the managed agents, whatever the pattern, and no agent is its
  own peer.\<close>

theorem accepted_topology_connected:
  assumes "ValidateAgentSet dns absolute_url as = None"
  shows "(discovers as n \<longleftrightarrow> n \<in> aad_Name ` set (ass_Agents (as_Spec as))) \<and>
         (n \<in> aad_Name ` set (ass_Agents (as_Spec as)) \<longrightarrow> n \<notin> set (managed_peers as n))"
proof -
  let ?agents = "ass_Agents (as_Spec as)"
  have wf: "distinct (map aad_Name ?agents)" "ass_Entry (as_Spec as) \<in> aad_Name ` set ?agents"
      "pattern_ok (as_Spec as)"
    using assms by (simp_all add: ValidateAgentSet_iff well_formed_set_def Let_def)
  have "discovers as m" if m: "m \<in> aad_Name ` set ?agents" for m
  proof (cases "ass_Pattern (as_Spec as)")
    case Sequential
    then have "ass_Entry (as_Spec as) = aad_Name (?agents ! 0)"
      using wf(3) by (cases ?agents) (auto simp: pattern_ok_def)
    moreover obtain i where "i < length ?agents" "m = aad_Name (?agents ! i)"
      using m by (auto simp: in_set_conv_nth)
    ultimately show ?thesis
      using sequential_discovers [OF wf(1) Sequential] by simp
  qed (use m wf managed_peers_cases(1,2) [OF wf(1)] in
      \<open>auto simp: pattern_ok_def intro!: star_discovers [of "aad_Name ` set ?agents"]\<close>)
  moreover have "m \<in> aad_Name ` set ?agents" if "discovers as m" for m
    using that by (induction rule: discovers.induct) (use wf(2) managed_peers_named in auto)
  moreover have "n \<notin> set (managed_peers as n)" if "n \<in> aad_Name ` set ?agents"
  proof -
    obtain i where i: "i < length ?agents" "n = aad_Name (?agents ! i)"
      using \<open>n \<in> aad_Name ` set ?agents\<close> by (auto simp: in_set_conv_nth)
    then have "Suc i < length ?agents \<Longrightarrow> aad_Name (?agents ! Suc i) \<noteq> n"
      using wf(1) by (auto simp: distinct_conv_nth)
    then show ?thesis
      using wf(3) i managed_peers_cases [OF wf(1)]
      by (cases "ass_Pattern (as_Spec as)") (auto simp: pattern_ok_def)
  qed
  ultimately show ?thesis
    by blast
qed

theorem accepted_topology_connected_witness:
  "ValidateAgentSet dns1035_label (\<lambda>u. u \<noteq> []) (sample_set Sequential [''a'', ''b'', ''c'']) = None \<and>
   discovers (sample_set Sequential [''a'', ''b'', ''c'']) ''c'' \<and>
   ''b'' \<notin> set (managed_peers (sample_set Sequential [''a'', ''b'', ''c'']) ''b'')"
proof -
  have ok: "ValidateAgentSet dns1035_label (\<lambda>u. u \<noteq> []) (sample_set Sequential [''a'', ''b'', ''c'']) = None"
    by code_simp
  show ?thesis
    using accepted_topology_connected [OF ok, of "''c''"] accepted_topology_connected [OF ok, of "''b''"] ok
    by (simp add: sample_set_def new_agent_def)
qed

end
