(* ===== verification/Conditions.thy ===== *)
theory Conditions
  imports AgentTypes Samples
begin

text \<open>
  \<open>status_types.go\<close>: the condition list of a status.  \<open>time.Now\<close> is an argument, and so is the
  sort: \<open>sort.Slice\<close> promises an ordered permutation only.
\<close>

section \<open>Operations\<close>

definition ConditionReady :: string where
"ConditionReady = ''Ready''"

abbreviation mk_cond :: "string \<Rightarrow> ConditionStatus \<Rightarrow> string \<Rightarrow> string \<Rightarrow> Condition" where
"mk_cond t s r m \<equiv> \<lparr>cond_Type = t, cond_Status = s, cond_ObservedGeneration = 0, cond_Reason = r,
                     cond_Message = m, cond_LastTransitionTime = zero_time\<rparr>"

definition setCondition ::
  "(Condition list \<Rightarrow> Condition list) \<Rightarrow> nanos \<Rightarrow> Condition \<Rightarrow> Condition list \<Rightarrow> Condition list" where
"setCondition srt now condition cs =
   (if list_ex (\<lambda>c. cond_Type c = cond_Type condition \<and>
                    condition\<lparr>cond_LastTransitionTime := cond_LastTransitionTime c\<rparr> = c) cs
    then cs
    else srt (filter (\<lambda>c. cond_Type c \<noteq> cond_Type condition) cs @
              [condition\<lparr>cond_LastTransitionTime := now\<rparr>]))"

definition InitializeConditions ::
  "(Condition list \<Rightarrow> Condition list) \<Rightarrow> nanos \<Rightarrow> string list \<Rightarrow> Condition list \<Rightarrow> Condition list" where
"InitializeConditions srt now types cs =
   fold (\<lambda>t. setCondition srt now (mk_cond t ConditionUnknown ''Unknown'' [])) types cs"

definition markTypeStatus ::
  "(Condition list \<Rightarrow> Condition list) \<Rightarrow> nanos \<Rightarrow> string \<Rightarrow> ConditionStatus \<Rightarrow> string \<Rightarrow> string \<Rightarrow>
   Condition list \<Rightarrow> Condition list" where
"markTypeStatus srt now t status reason message = setCondition srt now (mk_cond t status reason message)"

definition MarkTrue :: "(Condition list \<Rightarrow> Condition list) \<Rightarrow> nanos \<Rightarrow> string \<Rightarrow> Condition list \<Rightarrow> Condition list" where
"MarkTrue srt now t = markTypeStatus srt now t ConditionTrue ''Successful'' ''Successful''"

definition MarkTrueWithReason ::
  "(Condition list \<Rightarrow> Condition list) \<Rightarrow> nanos \<Rightarrow> string \<Rightarrow> string \<Rightarrow> string \<Rightarrow> Condition list \<Rightarrow> Condition list" where
"MarkTrueWithReason srt now t reason message = markTypeStatus srt now t ConditionTrue reason message"

definition MarkFalse ::
  "(Condition list \<Rightarrow> Condition list) \<Rightarrow> nanos \<Rightarrow> string \<Rightarrow> string \<Rightarrow> string \<Rightarrow> Condition list \<Rightarrow> Condition list" where
"MarkFalse srt now t reason message = markTypeStatus srt now t ConditionFalse reason message"

definition MarkUnknown ::
  "(Condition list \<Rightarrow> Condition list) \<Rightarrow> nanos \<Rightarrow> string \<Rightarrow> string \<Rightarrow> string \<Rightarrow> Condition list \<Rightarrow> Condition list" where
"MarkUnknown srt now t reason message = markTypeStatus srt now t ConditionUnknown reason message"

definition GetCondition :: "string \<Rightarrow> Condition list \<Rightarrow> Condition option" where
"GetCondition t cs = find (\<lambda>c. cond_Type c = t) cs"

definition IsReady :: "Condition list \<Rightarrow> bool" where
"IsReady cs \<longleftrightarrow> cs \<noteq> [] \<and> list_all (\<lambda>c. cond_Status c = ConditionTrue) cs"

section \<open>Lookup after update\<close>

definition by_type :: "Condition \<Rightarrow> Condition \<Rightarrow> bool" where
"by_type x y \<longleftrightarrow> cond_Type x < cond_Type y"

abbreviation "type_sort srt \<equiv> slice_sort srt by_type (\<lambda>_. True)"

interpretation stable_type: slice_sort "sort_key cond_Type" by_type "\<lambda>_. True"
proof unfold_locales
  fix xs :: "Condition list"
  have "sorted_wrt (\<le>) (map cond_Type (sort_key cond_Type xs))"
    using sorted_sort_key by blast
  then show "sorted_wrt (\<lambda>x y. \<not> by_type y x) (sort_key cond_Type xs)"
    by (simp add: sorted_wrt_map by_type_def not_less)
qed simp

text \<open>One condition per type.\<close>

definition typed_once :: "Condition list \<Rightarrow> bool" where
"typed_once cs \<longleftrightarrow> distinct (map cond_Type cs)"

lemma find_distinct:
  "distinct (map f xs) \<Longrightarrow> find (\<lambda>x. f x = k) xs = Some y \<longleftrightarrow> y \<in> set xs \<and> f y = k"
proof (induction xs)
  case (Cons x xs)
  then show ?case
    by (cases "f x = k") (auto simp: image_iff)
qed simp

lemma GetCondition_iff: "typed_once cs \<Longrightarrow> GetCondition t cs = Some c \<longleftrightarrow> c \<in> set cs \<and> cond_Type c = t"
  by (simp add: GetCondition_def typed_once_def find_distinct)

lemma GetCondition_cong:
  assumes "typed_once cs" "typed_once cs'" "\<And>c. cond_Type c = t \<Longrightarrow> c \<in> set cs \<longleftrightarrow> c \<in> set cs'"
  shows "GetCondition t cs = GetCondition t cs'"
proof -
  have "GetCondition t cs = Some c \<longleftrightarrow> GetCondition t cs' = Some c" for c
    using assms by (auto simp: GetCondition_iff)
  then show ?thesis
    by (metis option.exhaust)
qed

lemma setCondition_typed_once:
  assumes "type_sort srt" "typed_once cs"
  shows "typed_once (setCondition srt now c cs)"
proof -
  define ys where "ys = filter (\<lambda>x. cond_Type x \<noteq> cond_Type c) cs @ [c\<lparr>cond_LastTransitionTime := now\<rparr>]"
  have "distinct (map cond_Type (filter (\<lambda>x. cond_Type x \<noteq> cond_Type c) cs))"
    using assms(2) unfolding typed_once_def by (rule distinct_map_filter)
  then have "distinct (map cond_Type ys)"
    unfolding ys_def by auto
  moreover have "mset (map cond_Type (srt ys)) = mset (map cond_Type ys)"
    unfolding mset_map slice_sort.permutes [OF assms(1)] ..
  ultimately have "distinct (map cond_Type (srt ys))"
    using mset_eq_imp_distinct_iff by blast
  then show ?thesis
    using assms(2) unfolding setCondition_def typed_once_def ys_def [symmetric] by (simp split: if_split)
qed


text \<open>The time stamp a condition gets: unchanged when nothing but the time would change.\<close>

definition transition_time :: "nanos \<Rightarrow> Condition \<Rightarrow> Condition list \<Rightarrow> nanos" where
"transition_time now c cs =
   (case GetCondition (cond_Type c) cs of
      Some old \<Rightarrow> if c\<lparr>cond_LastTransitionTime := cond_LastTransitionTime old\<rparr> = old
                  then cond_LastTransitionTime old else now
    | None \<Rightarrow> now)"

lemma set_setCondition:
  assumes "type_sort srt" "typed_once cs"
  shows "x \<in> set (setCondition srt now c cs) \<longleftrightarrow>
         (if cond_Type x \<noteq> cond_Type c then x \<in> set cs
          else x = c\<lparr>cond_LastTransitionTime := transition_time now c cs\<rparr>)"
proof (cases "\<exists>old\<in>set cs. cond_Type old = cond_Type c \<and>
                 c\<lparr>cond_LastTransitionTime := cond_LastTransitionTime old\<rparr> = old")
  case True
  then obtain old where old: "old \<in> set cs" "cond_Type old = cond_Type c"
      "c\<lparr>cond_LastTransitionTime := cond_LastTransitionTime old\<rparr> = old"
    by blast
  then have "setCondition srt now c cs = cs"
    by (auto simp: setCondition_def list_ex_iff)
  moreover have get: "GetCondition (cond_Type c) cs = Some old"
    using old assms(2) by (simp add: GetCondition_iff)
  moreover have "x \<in> set cs \<longleftrightarrow> x = old" if "cond_Type x = cond_Type c"
    using GetCondition_iff [OF assms(2), of "cond_Type c" x] that get by auto
  ultimately show ?thesis
    using old by (auto simp: transition_time_def)
next
  case False
  then have "setCondition srt now c cs = srt (filter (\<lambda>x. cond_Type x \<noteq> cond_Type c) cs @
      [c\<lparr>cond_LastTransitionTime := now\<rparr>])"
    by (auto simp: setCondition_def list_ex_iff)
  moreover have "transition_time now c cs = now"
    using False assms(2) by (auto simp: transition_time_def GetCondition_iff split: option.splits)
  ultimately show ?thesis
    using slice_sort.set_srt [OF assms(1)] by auto
qed

lemma GetCondition_setCondition:
  assumes "type_sort srt" "typed_once cs"
  shows "GetCondition t (setCondition srt now c cs) =
         (if t = cond_Type c then Some (c\<lparr>cond_LastTransitionTime := transition_time now c cs\<rparr>)
          else GetCondition t cs)"
proof (cases "t = cond_Type c")
  case True
  then show ?thesis
    using assms by (simp add: GetCondition_iff setCondition_typed_once set_setCondition)
next
  case False
  then have "GetCondition t (setCondition srt now c cs) = GetCondition t cs"
    using assms by (intro GetCondition_cong) (auto simp: setCondition_typed_once set_setCondition)
  then show ?thesis
    using False by simp
qed

lemma InitializeConditions_typed_once:
  assumes "type_sort srt"
  shows "typed_once cs \<Longrightarrow> typed_once (InitializeConditions srt now types cs)"
  unfolding InitializeConditions_def
  by (induction types arbitrary: cs) (simp_all add: setCondition_typed_once [OF assms])

lemma InitializeConditions_unknown:
  assumes "type_sort srt" "typed_once cs" "t \<in> set types"
  shows "\<exists>c. GetCondition t (InitializeConditions srt now types cs) = Some c \<and> cond_Status c = ConditionUnknown"
  using assms(2,3) unfolding InitializeConditions_def
proof (induction types rule: rev_induct)
  case (snoc u types)
  let ?c = "mk_cond u ConditionUnknown ''Unknown'' []"
  let ?cs = "fold (\<lambda>t. setCondition srt now (mk_cond t ConditionUnknown ''Unknown'' [])) types cs"
  have "typed_once ?cs"
    using InitializeConditions_typed_once [OF assms(1) snoc.prems(1)] by (simp add: InitializeConditions_def)
  then show ?case
    using snoc GetCondition_setCondition [OF assms(1), of ?cs t now ?c] by (cases "t = u") simp_all
qed simp

section \<open>Properties\<close>



text \<open>C39: initialising a condition before marking it true, as both controllers do on every pass, always
  moves its transition time to the current time, even when the condition was true before the pass.\<close>

theorem reinitialised_condition_loses_transition_time:
  assumes "type_sort srt" "typed_once cs" "t \<in> set types"
  shows "\<exists>c. GetCondition t (MarkTrue srt now t (InitializeConditions srt now types cs)) = Some c \<and>
             cond_Status c = ConditionTrue \<and> cond_LastTransitionTime c = now"
proof -
  let ?cs = "InitializeConditions srt now types cs"
  let ?c = "mk_cond t ConditionTrue ''Successful'' ''Successful''"
  obtain c where "GetCondition t ?cs = Some c" "cond_Status c = ConditionUnknown"
    using InitializeConditions_unknown [OF assms] by blast
  then have "transition_time now ?c ?cs = now"
    by (cases c) (auto simp: transition_time_def)
  then show ?thesis
    using GetCondition_setCondition [OF assms(1) InitializeConditions_typed_once [OF assms(1,2)], of t now ?c]
    by (simp add: MarkTrue_def markTypeStatus_def)
qed

theorem reinitialised_condition_loses_transition_time_witness:
  "(let cs = [(mk_cond ''Deployed'' ConditionTrue ''Successful'' ''Successful'')\<lparr>cond_LastTransitionTime := 5\<rparr>]
    in \<exists>c. GetCondition ''Deployed'' (MarkTrue (sort_key cond_Type) 9 ''Deployed''
             (InitializeConditions (sort_key cond_Type) 9 [''Deployed''] cs)) = Some c \<and>
           cond_LastTransitionTime c = 9)"
  using reinitialised_condition_loses_transition_time [OF stable_type.slice_sort_axioms,
      of "[(mk_cond ''Deployed'' ConditionTrue ''Successful'' ''Successful'')\<lparr>cond_LastTransitionTime := 5\<rparr>]"
         "''Deployed''" "[''Deployed'']" 9]
  by (auto simp: typed_once_def Let_def)

end
