(* ===== verification/PodRates.thy ===== *)
theory PodRates
  imports Queue Float64_Bounds ApiTypes
begin

text \<open>
  \<open>pkg/daemon/server/rater/pod_samples.go\<close> and \<open>helper.go\<close>: the per-pod ring buffers of the
  daemon and the rates and averages computed from them.  Go iterates over a map in an unspecified
  order: the order is an argument, under the contract \<open>map_order\<close>.
\<close>

section \<open>Samples and buffers\<close>

definition Retention :: nanos where
"Retention = 30 * minute"

definition MaxSamplesPerPod :: int where
"MaxSamplesPerPod = Retention div (5 * second) * 2"

record PodSample =
  pd_Timestamp :: int
  pd_RequestsByTransport :: "(string, f64) fmap"
  pd_StreamMessagesByTransport :: "(string, f64) fmap"
  pd_InflightByTransport :: "(string, f64) fmap"

record AgentDeployBuffers =
  byPod :: "(string, PodSample OverflowQueue) fmap"

definition NewAgentDeployBuffers :: AgentDeployBuffers where
"NewAgentDeployBuffers = \<lparr>byPod = fmempty\<rparr>"

definition buf_Append :: "string \<Rightarrow> PodSample option \<Rightarrow> AgentDeployBuffers \<Rightarrow> AgentDeployBuffers option" where
"buf_Append pod s0 b =
   (case s0 of
      None \<Rightarrow> Some b
    | Some s \<Rightarrow>
        let q = (case fmlookup (byPod b) pod of None \<Rightarrow> New MaxSamplesPerPod | Some q \<Rightarrow> q)
        in case Append s q of
             None \<Rightarrow> None
           | Some q' \<Rightarrow> Some (b\<lparr>byPod := fmupd pod q' (byPod b)\<rparr>))"

definition Pods :: "(string fset \<Rightarrow> string list) \<Rightarrow> AgentDeployBuffers \<Rightarrow> string list" where
"Pods ord b = ord (fmdom (byPod b))"

definition Samples_of :: "string \<Rightarrow> AgentDeployBuffers \<Rightarrow> PodSample list" where
"Samples_of pod b = (case fmlookup (byPod b) pod of None \<Rightarrow> [] | Some q \<Rightarrow> Items q)"

section \<open>Rates\<close>

definition TransportTotal :: string where
"TransportTotal = ''__total__''"

fun samplesInWindow :: "PodSample list \<Rightarrow> int \<Rightarrow> int \<Rightarrow> PodSample list" where
"samplesInWindow [] nowUnix lookbackSeconds = []" |
"samplesInWindow (s # rest) nowUnix lookbackSeconds =
   (if pd_Timestamp s \<ge> nowUnix - lookbackSeconds then s # rest
    else samplesInWindow rest nowUnix lookbackSeconds)"

definition sum_values :: "(string fset \<Rightarrow> string list) \<Rightarrow> (string, f64) fmap \<Rightarrow> f64" where
"sum_values ord m = foldl (\<lambda>v k. fadd v (the (fmlookup m k))) f0 (ord (fmdom m))"

definition value_of :: "(string fset \<Rightarrow> string list) \<Rightarrow> (string, f64) fmap \<Rightarrow> string \<Rightarrow> f64" where
"value_of ord m transport =
   (if transport = TransportTotal then sum_values ord m
    else case fmlookup m transport of None \<Rightarrow> f0 | Some v \<Rightarrow> v)"

definition counterValue ::
  "(string fset \<Rightarrow> string list) \<Rightarrow> PodSample \<Rightarrow> string \<Rightarrow> (PodSample \<Rightarrow> (string, f64) fmap) \<Rightarrow> f64" where
"counterValue ord s transport of' = value_of ord (of' s) transport"

definition inflightValue :: "(string fset \<Rightarrow> string list) \<Rightarrow> PodSample \<Rightarrow> string \<Rightarrow> f64" where
"inflightValue ord s transport = value_of ord (pd_InflightByTransport s) transport"

fun rate_loop :: "f64 list \<Rightarrow> f64 \<Rightarrow> f64 \<Rightarrow> f64 \<Rightarrow> f64" where
"rate_loop [] runStart prev delta = fadd delta (fsub prev runStart)" |
"rate_loop (cur # rest) runStart prev delta =
   (if flt cur prev then rate_loop rest f0 cur (fadd delta (fsub prev runStart))
    else rate_loop rest runStart cur delta)"

definition podRate ::
  "(string fset \<Rightarrow> string list) \<Rightarrow> PodSample list \<Rightarrow> int \<Rightarrow> int \<Rightarrow> string \<Rightarrow>
   (PodSample \<Rightarrow> (string, f64) fmap) \<Rightarrow> f64 option" where
"podRate ord smps nowUnix lookbackSeconds transport of' =
   (let w = samplesInWindow smps nowUnix lookbackSeconds in
    if length w < 2 then None
    else let timeDiff = pd_Timestamp (last w) - pd_Timestamp (hd w) in
      if timeDiff \<le> 0 then None
      else let vs = map (\<lambda>s. counterValue ord s transport of') w
           in Some (fdiv (rate_loop (tl vs) (hd vs) (hd vs) f0) (f_of_int timeDiff)))"

definition calculateCounterRate ::
  "(string fset \<Rightarrow> string list) \<Rightarrow> AgentDeployBuffers \<Rightarrow> int \<Rightarrow> int \<Rightarrow> string \<Rightarrow>
   (PodSample \<Rightarrow> (string, f64) fmap) \<Rightarrow> f64" where
"calculateCounterRate ord b nowUnix lookbackSeconds transport of' =
   foldl (\<lambda>total pod.
            case podRate ord (Samples_of pod b) nowUnix lookbackSeconds transport of' of
              Some r \<Rightarrow> fadd total r | None \<Rightarrow> total)
     f0 (Pods ord b)"

definition CalculateRequestRate :: "(string fset \<Rightarrow> string list) \<Rightarrow> AgentDeployBuffers \<Rightarrow> int \<Rightarrow> int \<Rightarrow> string \<Rightarrow> f64" where
"CalculateRequestRate ord b nowUnix lookbackSeconds transport =
   calculateCounterRate ord b nowUnix lookbackSeconds transport pd_RequestsByTransport"

definition CalculateStreamMessageRate :: "(string fset \<Rightarrow> string list) \<Rightarrow> AgentDeployBuffers \<Rightarrow> int \<Rightarrow> int \<Rightarrow> string \<Rightarrow> f64" where
"CalculateStreamMessageRate ord b nowUnix lookbackSeconds transport =
   calculateCounterRate ord b nowUnix lookbackSeconds transport pd_StreamMessagesByTransport"

section \<open>Time-weighted averages\<close>

fun inflight_loop :: "(PodSample \<Rightarrow> f64) \<Rightarrow> PodSample list \<Rightarrow> f64 \<Rightarrow> f64 \<Rightarrow> f64 \<times> f64" where
"inflight_loop g (s # s' # rest) weightedSum totalWeight =
   (let width = f_of_int (pd_Timestamp s' - pd_Timestamp s)
    in inflight_loop g (s' # rest) (fadd weightedSum (fmul (g s) width)) (fadd totalWeight width))" |
"inflight_loop g _ weightedSum totalWeight = (weightedSum, totalWeight)"

definition podInflightAvg ::
  "(string fset \<Rightarrow> string list) \<Rightarrow> PodSample list \<Rightarrow> int \<Rightarrow> int \<Rightarrow> string \<Rightarrow> f64 option" where
"podInflightAvg ord smps nowUnix lookbackSeconds transport =
   (let w = samplesInWindow smps nowUnix lookbackSeconds in
    case w of
      [] \<Rightarrow> None
    | [s] \<Rightarrow> Some (inflightValue ord s transport)
    | _ \<Rightarrow>
        let (weightedSum, totalWeight) = inflight_loop (\<lambda>s. inflightValue ord s transport) w f0 f0
        in if feq totalWeight f0 then Some (inflightValue ord (last w) transport)
           else Some (fdiv weightedSum totalWeight))"

definition CalculateInflightAvg :: "(string fset \<Rightarrow> string list) \<Rightarrow> AgentDeployBuffers \<Rightarrow> int \<Rightarrow> int \<Rightarrow> string \<Rightarrow> f64" where
"CalculateInflightAvg ord b nowUnix lookbackSeconds transport =
   foldl (\<lambda>total pod.
            case podInflightAvg ord (Samples_of pod b) nowUnix lookbackSeconds transport of
              Some v \<Rightarrow> fadd total v | None \<Rightarrow> total)
     f0 (Pods ord b)"

section \<open>Availability\<close>

definition HasUsableHistory :: "(string fset \<Rightarrow> string list) \<Rightarrow> AgentDeployBuffers \<Rightarrow> bool" where
"HasUsableHistory ord b = list_ex (\<lambda>pod. length (Samples_of pod b) \<ge> 2) (Pods ord b)"

definition sample_transports :: "PodSample \<Rightarrow> string fset" where
"sample_transports s =
   fmdom (pd_RequestsByTransport s) |\<union>| fmdom (pd_StreamMessagesByTransport s) |\<union>| fmdom (pd_InflightByTransport s)"

definition ObservedTransports :: "(string fset \<Rightarrow> string list) \<Rightarrow> AgentDeployBuffers \<Rightarrow> string list" where
"ObservedTransports ord b =
   ord (foldl (\<lambda>set s. set |\<union>| sample_transports s) {||} (concat (map (\<lambda>pod. Samples_of pod b) (Pods ord b))))"

section \<open>Example readings\<close>

text \<open>Example readings of one transport.\<close>

definition demo_pod_sample :: "int \<Rightarrow> int \<Rightarrow> PodSample" where
"demo_pod_sample t n =
   \<lparr>pd_Timestamp = t, pd_RequestsByTransport = fmap_of_list [(''rest'', f_of_int n)],
    pd_StreamMessagesByTransport = fmempty, pd_InflightByTransport = fmap_of_list [(''rest'', f_of_int n)]\<rparr>"

section \<open>Exact integer arithmetic\<close>

text \<open>Counters and gauges are whole numbers; below \<open>2 ^ 53\<close> their sums are exact.\<close>

definition exact_int :: "f64 \<Rightarrow> int \<Rightarrow> bool" where
"exact_int f n \<longleftrightarrow> is_fin f \<and> fval f = of_int n"

lemma exact_int_of_int: "\<bar>n\<bar> \<le> 2 ^ 53 \<Longrightarrow> exact_int (f_of_int n) n"
  using f_of_int_exact [of n] by (simp add: exact_int_def)

lemma exact_int_0 [simp]: "exact_int f0 0"
  by (simp add: exact_int_def)

lemma exact_fin_in: "exact_int f n \<longleftrightarrow> fin_in (of_int n) (of_int n) f"
  by (auto simp: exact_int_def fin_in_def)

lemma exact_add: "exact_int a m \<Longrightarrow> exact_int b n \<Longrightarrow> \<bar>m + n\<bar> \<le> 2 ^ 53 \<Longrightarrow> exact_int (fadd a b) (m + n)"
  unfolding exact_fin_in [of "fadd a b"] using representable_int [of "m + n"]
  by (intro fadd_in) (simp_all add: exact_int_def)

lemma exact_sub: "exact_int a m \<Longrightarrow> exact_int b n \<Longrightarrow> \<bar>m - n\<bar> \<le> 2 ^ 53 \<Longrightarrow> exact_int (fsub a b) (m - n)"
  unfolding exact_fin_in [of "fsub a b"] using representable_int [of "m - n"]
  by (intro fsub_in) (simp_all add: exact_int_def)

lemma exact_mul: "exact_int a m \<Longrightarrow> exact_int b n \<Longrightarrow> \<bar>m * n\<bar> \<le> 2 ^ 53 \<Longrightarrow> exact_int (fmul a b) (m * n)"
  unfolding exact_fin_in [of "fmul a b"] using representable_int [of "m * n"]
  by (intro fmul_in) (simp_all add: exact_int_def)

lemma exact_lt: "exact_int a m \<Longrightarrow> exact_int b n \<Longrightarrow> flt a b \<longleftrightarrow> m < n"
  by (simp add: exact_int_def flt_fval)

section \<open>Counter resets\<close>

text \<open>What a counter gained from one reading to the next: after a reset it counted up from zero.\<close>

fun total_increase :: "int \<Rightarrow> int list \<Rightarrow> int" where
"total_increase c [] = 0" |
"total_increase c (c' # cs) = (if c' < c then c' else c' - c) + total_increase c' cs"

lemma total_increase_bounds:
  assumes "0 \<le> c" "c \<le> B" "list_all (\<lambda>c. 0 \<le> c \<and> c \<le> B) cs"
  shows "0 \<le> total_increase c cs" "total_increase c cs \<le> B * int (length cs)"
proof -
  have "0 \<le> total_increase c cs \<and> total_increase c cs \<le> B * int (length cs)"
    using assms by (induction cs arbitrary: c) (force simp: algebra_simps)+
  then show "0 \<le> total_increase c cs" "total_increase c cs \<le> B * int (length cs)"
    by simp_all
qed

lemma rate_loop_exact:
  assumes "list_all2 exact_int vs cs" "list_all (\<lambda>c. 0 \<le> c \<and> c \<le> B) cs"
    and "exact_int start r" "exact_int prev c" "exact_int delta d"
    and "0 \<le> r" "r \<le> c" "c \<le> B" "0 \<le> d" "d + (c - r) + B * int (length cs) \<le> 2 ^ 53"
  shows "exact_int (rate_loop vs start prev delta) (d + (c - r) + total_increase c cs)"
  using assms
proof (induction vs cs arbitrary: start r prev c delta d rule: list_all2_induct)
  case Nil
  have "exact_int (fsub prev start) (c - r)"
    using Nil by (intro exact_sub) auto
  then show ?case
    using Nil exact_add [of delta d "fsub prev start" "c - r"] by simp
next
  case (Cons v vs c' cs)
  have c': "0 \<le> c'" "c' \<le> B"
    using Cons.prems(1) by simp_all
  define q where "q = B * int (length cs)"
  have q: "0 \<le> q" "d + (c - r) + B + q \<le> 2 ^ 53"
    using c' Cons.prems(9) by (simp_all add: q_def algebra_simps)
  show ?case
  proof (cases "c' < c")
    case True
    have "exact_int (fsub prev start) (c - r)"
      using Cons.prems(2-8) q c' by (intro exact_sub) auto
    then have "exact_int (fadd delta (fsub prev start)) (d + (c - r))"
      using Cons.prems(2-8) q c' by (intro exact_add) auto
    then have "exact_int (rate_loop vs f0 v (fadd delta (fsub prev start))) (d + (c - r) + (c' - 0) + total_increase c' cs)"
      using Cons.prems(1-8) q c' Cons.hyps(1) by (intro Cons.IH) (auto simp: q_def [symmetric])
    then show ?thesis
      using True exact_lt [OF Cons.hyps(1) Cons.prems(3)] by (simp add: algebra_simps)
  next
    case False
    have "exact_int (rate_loop vs start v delta) (d + (c' - r) + total_increase c' cs)"
      using False Cons.prems(1-8) q c' Cons.hyps(1) by (intro Cons.IH) (auto simp: q_def [symmetric])
    then show ?thesis
      using False exact_lt [OF Cons.hyps(1) Cons.prems(3)] by (simp add: algebra_simps)
  qed
qed

text \<open>
  C20. The rate of a pod counts every request once, across restarts.  When the counter readings in
  the window are whole numbers, the rate is the increase of the counter over the window, where a
  reading below its predecessor is a restart from zero, divided by the time between the first and
  the last reading, rounded once.
\<close>

theorem pod_rate_counts_across_resets:
  assumes w: "samplesInWindow smps nowUnix lookback = w" "2 \<le> length w" "length w \<le> 4096"
    and counts: "list_all2 exact_int (map (\<lambda>s. counterValue ord s transport of') w) (c # cs)"
    and "list_all (\<lambda>c. 0 \<le> c \<and> c \<le> 2 ^ 40) (c # cs)"
    and T: "0 < pd_Timestamp (last w) - pd_Timestamp (hd w)" "pd_Timestamp (last w) - pd_Timestamp (hd w) \<le> 2 ^ 53"
  shows "\<exists>r. podRate ord smps nowUnix lookback transport of' = Some r \<and> \<not> is_nan r \<and>
             fkey r = srnd (of_int (total_increase c cs) / of_int (pd_Timestamp (last w) - pd_Timestamp (hd w)))"
proof -
  define T where "T = pd_Timestamp (last w) - pd_Timestamp (hd w)"
  obtain v vs where v: "map (\<lambda>s. counterValue ord s transport of') w = v # vs" "exact_int v c" "list_all2 exact_int vs cs"
    using counts by (auto simp: list_all2_Cons2)
  have len: "length cs < 4096"
    using list_all2_lengthD [OF counts] w(3) by simp
  then have "2 ^ 40 * int (length cs) \<le> 2 ^ 53"
    by simp
  then have "exact_int (rate_loop vs v v f0) (0 + (c - c) + total_increase c cs)"
    using v(2,3) assms(5) by (intro rate_loop_exact [where B = "2 ^ 40"]) simp_all
  moreover have "exact_int (f_of_int T) T"
    using T by (intro exact_int_of_int) (simp add: T_def)
  moreover have "podRate ord smps nowUnix lookback transport of' = Some (fdiv (rate_loop vs v v f0) (f_of_int T))"
    using w T v(1) by (simp add: podRate_def Let_def T_def)
  moreover have "fkey (f_of_int T) \<noteq> 0"
    using calculation(2) T fval_nonzero_key [of "f_of_int T"] by (simp add: exact_int_def T_def)
  ultimately show ?thesis
    using fdiv_fin by (simp add: exact_int_def T_def)
qed

theorem pod_rate_counts_across_resets_witness:
  "\<exists>r. podRate sorted_list_of_fset [demo_pod_sample 0 10, demo_pod_sample 10 15, demo_pod_sample 20 3] 20 60 ''rest''
         pd_RequestsByTransport = Some r \<and> fkey r = srnd (8 / 20)"
proof -
  define w where "w = [demo_pod_sample 0 10, demo_pod_sample 10 15, demo_pod_sample 20 3]"
  have val: "counterValue sorted_list_of_fset (demo_pod_sample t n) ''rest'' pd_RequestsByTransport = f_of_int n" for t n
    by (simp add: counterValue_def value_of_def TransportTotal_def demo_pod_sample_def)
  have "\<exists>r. podRate sorted_list_of_fset w 20 60 ''rest'' pd_RequestsByTransport = Some r \<and> \<not> is_nan r \<and>
      fkey r = srnd (of_int (total_increase 10 [15, 3]) / of_int (pd_Timestamp (last w) - pd_Timestamp (hd w)))"
  proof (rule pod_rate_counts_across_resets)
    show "list_all2 exact_int (map (\<lambda>s. counterValue sorted_list_of_fset s ''rest'' pd_RequestsByTransport) w) [10, 15, 3]"
      using exact_int_of_int [of 10] exact_int_of_int [of 15] exact_int_of_int [of 3] by (simp add: w_def val)
  qed (auto simp: w_def demo_pod_sample_def)
  then show ?thesis
    by (auto simp: w_def demo_pod_sample_def)
qed

section \<open>Averages\<close>

lemma inflight_loop_bounds:
  assumes "list_all (\<lambda>s. \<exists>n. exact_int (g s) n \<and> lo \<le> n \<and> n \<le> hi) w" "w \<noteq> []"
    and "sorted (map pd_Timestamp w)" "0 \<le> lo" "hi \<le> 2 ^ 20"
    and "exact_int ws W" "exact_int tw T" "lo * T \<le> W" "W \<le> hi * T" "0 \<le> T"
    and "T + (pd_Timestamp (last w) - pd_Timestamp (hd w)) \<le> 2 ^ 30"
  shows "\<exists>ws' tw' W' T'. inflight_loop g w ws tw = (ws', tw') \<and> exact_int ws' W' \<and> exact_int tw' T' \<and>
           lo * T' \<le> W' \<and> W' \<le> hi * T' \<and> T' = T + (pd_Timestamp (last w) - pd_Timestamp (hd w))"
  using assms
proof (induction g w ws tw arbitrary: W T rule: inflight_loop.induct)
  case (1 g s s' rest ws tw)
  define d where "d = pd_Timestamp s' - pd_Timestamp s"
  define D where "D = pd_Timestamp (last (s' # rest)) - pd_Timestamp s'"
  obtain n where n: "exact_int (g s) n" "lo \<le> n" "n \<le> hi"
    using "1.prems"(1) by auto
  have d: "0 \<le> d" "0 \<le> D" "T + d + D \<le> 2 ^ 30"
    using "1.prems"(3,11) sorted_last [of "map pd_Timestamp (s' # rest)" "pd_Timestamp s'"]
    by (auto simp: d_def D_def last_map)
  have exd: "exact_int (f_of_int d) d"
    using d "1.prems"(10) by (intro exact_int_of_int) simp
  have nd: "n * d \<le> hi * d" "lo * d \<le> n * d" "0 \<le> n * d"
    using n d "1.prems"(4) by (auto intro!: mult_right_mono)
  have hid: "hi * (T + d) \<le> 2 ^ 20 * 2 ^ 30"
    using d "1.prems"(5,10) by (intro mult_mono) auto
  have "0 \<le> lo * T"
    using "1.prems"(4,10) by simp
  then have W: "W + n * d \<le> hi * (T + d)" "lo * (T + d) \<le> W + n * d" "0 \<le> W"
    using "1.prems"(8,9) nd unfolding distrib_left by linarith+
  have "exact_int (fmul (g s) (f_of_int d)) (n * d)"
    using n(1) exd nd W hid by (intro exact_mul) auto
  then have "exact_int (fadd ws (fmul (g s) (f_of_int d))) (W + n * d)"
    using "1.prems"(6) nd W hid by (intro exact_add) auto
  moreover have "exact_int (fadd tw (f_of_int d)) (T + d)"
    using "1.prems"(7,10) exd d by (intro exact_add) auto
  ultimately have "\<exists>ws' tw' W' T'. inflight_loop g (s' # rest) (fadd ws (fmul (g s) (f_of_int d))) (fadd tw (f_of_int d)) = (ws', tw') \<and>
      exact_int ws' W' \<and> exact_int tw' T' \<and> lo * T' \<le> W' \<and> W' \<le> hi * T' \<and>
      T' = T + d + (pd_Timestamp (last (s' # rest)) - pd_Timestamp (hd (s' # rest)))"
    using "1.prems"(1,3-5,10) W(1,2) d by (intro "1.IH" [of "f_of_int d"]) (auto simp: D_def d_def)
  moreover have "inflight_loop g (s # s' # rest) ws tw =
      inflight_loop g (s' # rest) (fadd ws (fmul (g s) (f_of_int d))) (fadd tw (f_of_int d))"
    by (simp add: d_def Let_def)
  moreover have "T + d + (pd_Timestamp (last (s' # rest)) - pd_Timestamp (hd (s' # rest))) =
      T + (pd_Timestamp (last (s # s' # rest)) - pd_Timestamp (hd (s # s' # rest)))"
    by (simp add: d_def)
  ultimately show ?case
    by metis
qed auto

text \<open>
  C33. The average in-flight load of a pod lies between the smallest and the largest reading.  For
  gauge readings that are whole numbers in a window whose time stamps do not decrease, the
  time-weighted average is defined and lies between the bounds of the readings.
\<close>

theorem pod_inflight_average_between_readings:
  assumes w: "samplesInWindow smps nowUnix lookback = w" "w \<noteq> []" "sorted (map pd_Timestamp w)"
    and readings: "list_all (\<lambda>s. \<exists>n. exact_int (inflightValue ord s transport) n \<and> lo \<le> n \<and> n \<le> hi) w"
    and "0 \<le> lo" "hi \<le> 2 ^ 20" "pd_Timestamp (last w) - pd_Timestamp (hd w) \<le> 2 ^ 30"
  shows "\<exists>r. podInflightAvg ord smps nowUnix lookback transport = Some r \<and> fin_in (of_int lo) (of_int hi) r"
proof -
  have reading: "fin_in (of_int lo) (of_int hi) (inflightValue ord s transport)" if "s \<in> set w" for s
    using that readings by (auto simp: list_all_iff exact_int_def fin_in_def)
  consider s where "w = [s]" | "2 \<le> length w"
    using w(2) by (cases w; cases "tl w") auto
  then show ?thesis
  proof cases
    case 1
    then show ?thesis
      using reading [of s] w(1) by (simp add: podInflightAvg_def)
  next
    case 2
    have "\<exists>ws' tw' W' T'. inflight_loop (\<lambda>s. inflightValue ord s transport) w f0 f0 = (ws', tw') \<and> exact_int ws' W' \<and> exact_int tw' T' \<and>
           lo * T' \<le> W' \<and> W' \<le> hi * T' \<and> T' = 0 + (pd_Timestamp (last w) - pd_Timestamp (hd w))"
      by (rule inflight_loop_bounds [where W = 0 and T = 0]) (use assms in auto)
    then obtain ws tw W T where l: "inflight_loop (\<lambda>s. inflightValue ord s transport) w f0 f0 = (ws, tw)"
        "exact_int ws W" "exact_int tw T" "lo * T \<le> W" "W \<le> hi * T" "T = pd_Timestamp (last w) - pd_Timestamp (hd w)"
      by auto
    have eq: "podInflightAvg ord smps nowUnix lookback transport =
        (if feq tw f0 then Some (inflightValue ord (last w) transport) else Some (fdiv ws tw))"
      using 2 w(1) l(1) by (auto simp: podInflightAvg_def Let_def split: list.splits)
    show ?thesis
    proof (cases "feq tw f0")
      case True
      then show ?thesis
        using eq reading [OF last_in_set [OF w(2)]] by simp
    next
      case False
      have "0 \<le> T"
        using l(6) w(2,3) sorted_last [of "map pd_Timestamp w" "pd_Timestamp (hd w)"] by (simp add: last_map)
      moreover have "T \<noteq> 0"
        using False l(3) srnd_fval [of tw] srnd_fval [of f0] by (auto simp: feq_def exact_int_def is_fin_not)
      ultimately have T: "0 < real_of_int T"
        by simp
      have "real_of_int (lo * T) \<le> of_int W" "of_int W \<le> real_of_int (hi * T)"
        using l(4,5) by (simp_all only: of_int_le_iff)
      moreover have "lo \<le> hi"
        using readings w(2) by (cases w) auto
      then have "representable (of_int lo)" "representable (of_int hi)"
        using assms(5,6) by (auto intro!: representable_int)
      ultimately have "fin_in (of_int lo) (of_int hi) (fdiv ws tw)"
        using l(2,3) T by (intro fdiv_in) (simp_all add: exact_int_def pos_le_divide_eq pos_divide_le_eq)
      then show ?thesis
        using eq False by simp
    qed
  qed
qed

theorem pod_inflight_average_between_readings_witness:
  "\<exists>r. podInflightAvg sorted_list_of_fset [demo_pod_sample 0 4, demo_pod_sample 10 8, demo_pod_sample 30 2] 30 60 ''rest'' = Some r \<and>
       fin_in 2 8 r"
proof -
  define w where "w = [demo_pod_sample 0 4, demo_pod_sample 10 8, demo_pod_sample 30 2]"
  have val: "inflightValue sorted_list_of_fset (demo_pod_sample t n) ''rest'' = f_of_int n" for t n
    by (simp add: inflightValue_def value_of_def TransportTotal_def demo_pod_sample_def)
  have "\<exists>r. podInflightAvg sorted_list_of_fset w 30 60 ''rest'' = Some r \<and> fin_in (of_int 2) (of_int 8) r"
  proof (rule pod_inflight_average_between_readings [where w = w])
    show "list_all (\<lambda>s. \<exists>n. exact_int (inflightValue sorted_list_of_fset s ''rest'') n \<and> 2 \<le> n \<and> n \<le> 8) w"
      using exact_int_of_int [of 4] exact_int_of_int [of 8] exact_int_of_int [of 2] by (auto simp: w_def val)
  qed (auto simp: w_def demo_pod_sample_def)
  then show ?thesis
    by (simp add: w_def)
qed

end
