(* ===== verification/Decimal.thy ===== *)
theory Decimal
  imports Prelude
begin

text \<open>
  Decimal notation: \<open>strconv.Itoa\<close> and the \<open>%d\<close> verb, and \<open>strconv.Atoi\<close> on the strings the
  program gives it (an optional sign and digits; anything else, or a value outside \<open>int64\<close>, is an
  error).
\<close>

definition digit :: "nat \<Rightarrow> char" where
"digit d = char_of (48 + d)"

fun digits :: "nat \<Rightarrow> string" where
"digits n = (if n < 10 then [digit n] else digits (n div 10) @ [digit (n mod 10)])"

declare digits.simps [simp del]

definition itoa :: "int \<Rightarrow> string" where
"itoa n = (if n < 0 then CHR ''-'' # digits (nat (- n)) else digits (nat n))"

definition is_digit :: "char \<Rightarrow> bool" where
"is_digit c \<longleftrightarrow> 48 \<le> (of_char c :: nat) \<and> (of_char c :: nat) \<le> 57"

definition digit_value :: "char \<Rightarrow> nat" where
"digit_value c = of_char c - 48"

definition parse_digits :: "string \<Rightarrow> nat option" where
"parse_digits s =
   (if s \<noteq> [] \<and> list_all is_digit s then Some (foldl (\<lambda>v c. v * 10 + digit_value c) 0 s) else None)"

definition atoi :: "string \<Rightarrow> int option" where
"atoi s =
   (let (neg, body) = (case s of
          c # rest \<Rightarrow> if c = CHR ''-'' then (True, rest) else if c = CHR ''+'' then (False, rest) else (False, s)
        | [] \<Rightarrow> (False, []))
    in case parse_digits body of
         None \<Rightarrow> None
       | Some v \<Rightarrow>
           let n = (if neg then - int v else int v)
           in if - (2 ^ 63) \<le> n \<and> n < 2 ^ 63 then Some n else None)"

lemma digit_facts [simp]: "d < 10 \<Longrightarrow> is_digit (digit d)" "d < 10 \<Longrightarrow> digit_value (digit d) = d"
proof -
  assume "d < 10"
  then have "(of_char (char_of (48 + d)) :: nat) = 48 + d"
    by simp
  then show "is_digit (digit d)" "digit_value (digit d) = d"
    using \<open>d < 10\<close> by (simp_all add: is_digit_def digit_value_def digit_def)
qed

lemma digits_facts: "digits n \<noteq> []" "list_all is_digit (digits n)" "foldl (\<lambda>v c. v * 10 + digit_value c) 0 (digits n) = n"
proof -
  have "digits n \<noteq> [] \<and> list_all is_digit (digits n) \<and> foldl (\<lambda>v c. v * 10 + digit_value c) 0 (digits n) = n"
  proof (induction n rule: digits.induct)
    case (1 n)
    show ?case
    proof (cases "n < 10")
      case True
      then show ?thesis
        by (simp add: digits.simps [of n])
    next
      case False
      then show ?thesis
        using 1 by (simp add: digits.simps [of n])
    qed
  qed
  then show "digits n \<noteq> []" "list_all is_digit (digits n)" "foldl (\<lambda>v c. v * 10 + digit_value c) 0 (digits n) = n"
    by simp_all
qed

lemma parse_digits_digits [simp]: "parse_digits (digits n) = Some n"
  using digits_facts by (simp add: parse_digits_def)

lemma digits_head: "\<exists>c cs. digits n = c # cs \<and> c \<noteq> CHR ''-'' \<and> c \<noteq> CHR ''+''"
proof -
  obtain c cs where c: "digits n = c # cs"
    using digits_facts(1) by (meson neq_Nil_conv)
  then have "is_digit c"
    using digits_facts(2) [of n] by simp
  then have "c \<noteq> CHR ''-''" "c \<noteq> CHR ''+''"
    by (auto simp: is_digit_def)
  then show ?thesis
    using c by blast
qed

lemma atoi_itoa [simp]: "- (2 ^ 63) \<le> n \<Longrightarrow> n < 2 ^ 63 \<Longrightarrow> atoi (itoa n) = Some n"
proof (cases "n < 0")
  case True
  assume "- (2 ^ 63) \<le> n"
  then show ?thesis
    using True by (simp add: itoa_def atoi_def Let_def)
next
  case False
  assume n: "n < 2 ^ 63"
  obtain c cs where "digits (nat n) = c # cs" "c \<noteq> CHR ''-''" "c \<noteq> CHR ''+''"
    using digits_head by blast
  then show ?thesis
    using False n parse_digits_digits [of "nat n"] by (simp add: itoa_def atoi_def Let_def)
qed

lemma itoa_inject: "itoa m = itoa n \<Longrightarrow> m = n"
proof -
  assume eq: "itoa m = itoa n"
  have inj: "digits a = digits b \<Longrightarrow> a = b" for a b
    by (metis option.inject parse_digits_digits)
  have sign: "digits a \<noteq> CHR ''-'' # xs" "CHR ''-'' # xs \<noteq> digits a" for a xs
    using digits_head [of a] by auto
  consider "m < 0" "n < 0" | "m < 0" "0 \<le> n" | "0 \<le> m" "n < 0" | "0 \<le> m" "0 \<le> n"
    by linarith
  then show "m = n"
  proof cases
    case 1
    then show ?thesis
      using eq inj [of "nat (- m)" "nat (- n)"] by (simp add: itoa_def)
  next
    case 4
    then show ?thesis
      using eq inj [of "nat m" "nat n"] by (simp add: itoa_def)
  qed (use eq sign in \<open>simp_all add: itoa_def\<close>)
qed

end
