(* ===== verification/Rater.thy ===== *)
theory Rater
  imports PodRates AgentTypes Decimal
begin

text \<open>
  \<open>pkg/daemon/server/rater\<close>: \<open>rater.go\<close>, \<open>peer_card_drift.go\<close> and \<open>peer_agentcard_poll.go\<close>, the
  state the per-AgentSet daemon keeps.  What a scrape tick meets (discovered hosts, responses, the
  completion times and the order in which the scraping goroutines finish) is a record \<open>Tick\<close>.
  Logging and the daemon's own metrics are not modelled; parsing an RFC 3339 time is an argument.
\<close>

section \<open>Stability-gated hashes\<close>

record gatedHash =
  g_accepted :: string
  g_acceptedObservedAt :: nanos
  g_pending :: string
  g_pendingCount :: int

definition zero_gate :: gatedHash where
"zero_gate = \<lparr>g_accepted = [], g_acceptedObservedAt = zero_time, g_pending = [], g_pendingCount = 0\<rparr>"

definition gate_observe :: "string \<Rightarrow> nanos \<Rightarrow> int \<Rightarrow> gatedHash \<Rightarrow> gatedHash" where
"gate_observe hash now stabilityWindow g =
   (if hash = g_accepted g then g\<lparr>g_pending := [], g_pendingCount := 0\<rparr>
    else let g1 = (if hash = g_pending g then g\<lparr>g_pendingCount := g_pendingCount g + 1\<rparr>
                   else g\<lparr>g_pending := hash, g_pendingCount := 1\<rparr>)
         in if g_pendingCount g1 \<ge> stabilityWindow
            then \<lparr>g_accepted = g_pending g1, g_acceptedObservedAt = now, g_pending = [], g_pendingCount = 0\<rparr>
            else g1)"

record peerCardState =
  byPeer :: "(string, gatedHash) fmap"

definition newPeerCardState :: peerCardState where
"newPeerCardState = \<lparr>byPeer = fmempty\<rparr>"

definition cards_observe :: "string \<Rightarrow> string \<Rightarrow> nanos \<Rightarrow> int \<Rightarrow> peerCardState \<Rightarrow> peerCardState" where
"cards_observe peer hash now stabilityWindow s =
   (let g = (case fmlookup (byPeer s) peer of None \<Rightarrow> zero_gate | Some g \<Rightarrow> g)
    in s\<lparr>byPeer := fmupd peer (gate_observe hash now stabilityWindow g) (byPeer s)\<rparr>)"

definition cards_snapshot :: "string \<Rightarrow> peerCardState \<Rightarrow> (string \<times> nanos) option" where
"cards_snapshot peer s =
   (case fmlookup (byPeer s) peer of
      None \<Rightarrow> None
    | Some g \<Rightarrow> if g_accepted g = [] then None else Some (g_accepted g, g_acceptedObservedAt g))"

section \<open>Reported hashes\<close>

record ReportedHash =
  rh_Hash :: string
  rh_ObservedAt :: nanos

record IntrospectPeerHash =
  ip_Hash :: string
  ip_ObservedAt :: string

record IntrospectSample =
  is_PodName :: string
  is_PeerHashes :: "(string, IntrospectPeerHash) fmap"

record PeerCardDrift =
  LatestHash :: string
  LatestHashObservedAt :: nanos
  ReportedHashes :: "(string, ReportedHash) fmap"

record peerHashCache =
  ph_byPod :: "(string, (string, ReportedHash) fmap) fmap"
  ph_updated :: "(string, nanos) fmap"
  ph_hostToPod :: "(string, string) fmap"

definition newPeerHashCache :: peerHashCache where
"newPeerHashCache = \<lparr>ph_byPod = fmempty, ph_updated = fmempty, ph_hostToPod = fmempty\<rparr>"

definition cache_set :: "string \<Rightarrow> string \<Rightarrow> (string, ReportedHash) fmap \<Rightarrow> nanos \<Rightarrow> peerHashCache \<Rightarrow> peerHashCache" where
"cache_set host pod peerHashes now c =
   (let c1 = (case fmlookup (ph_hostToPod c) host of
                Some prev \<Rightarrow>
                  if prev \<noteq> pod
                  then c\<lparr>ph_byPod := fmdrop prev (ph_byPod c), ph_updated := fmdrop prev (ph_updated c)\<rparr>
                  else c
              | None \<Rightarrow> c)
    in c1\<lparr>ph_byPod := fmupd pod peerHashes (ph_byPod c1), ph_updated := fmupd pod now (ph_updated c1),
          ph_hostToPod := fmupd host pod (ph_hostToPod c1)\<rparr>)"

text \<open>The deletions of the loop commute, so its effect does not depend on the iteration order.\<close>

definition cache_prune :: "string list \<Rightarrow> peerHashCache \<Rightarrow> peerHashCache" where
"cache_prune liveHosts c =
   (let gone = ffilter (\<lambda>host. host \<notin> set liveHosts) (fmdom (ph_hostToPod c));
        pods = (\<lambda>host. the (fmlookup (ph_hostToPod c) host)) |`| gone
    in c\<lparr>ph_byPod := fmdrop_fset pods (ph_byPod c), ph_updated := fmdrop_fset pods (ph_updated c),
         ph_hostToPod := fmdrop_fset gone (ph_hostToPod c)\<rparr>)"

definition reportedByPeer :: "string \<Rightarrow> peerHashCache \<Rightarrow> (string, ReportedHash) fmap" where
"reportedByPeer peer c =
   fmmap (\<lambda>peers. the (fmlookup peers peer))
     (fmfilter (\<lambda>pod. \<exists>peers \<in> set_option (fmlookup (ph_byPod c) pod). fmlookup peers peer \<noteq> None) (ph_byPod c))"

section \<open>The rater\<close>

definition DefaultScrapeInterval :: nanos where "DefaultScrapeInterval = 5 * second"
definition DefaultScrapeWorkers :: int where "DefaultScrapeWorkers = 32"
definition DefaultStabilityWindow :: int where "DefaultStabilityWindow = 3"
definition Lookback1m :: int where "Lookback1m = 60"
definition Lookback5m :: int where "Lookback5m = 300"
definition Lookback15m :: int where "Lookback15m = 900"
definition WindowKey1m :: string where "WindowKey1m = ''1m''"
definition WindowKey5m :: string where "WindowKey5m = ''5m''"
definition WindowKey15m :: string where "WindowKey15m = ''15m''"
definition WindowKeyCustom :: string where "WindowKeyCustom = ''custom''"

datatype rater_error = ErrUnknownAgentDeploy | ErrNoData

text \<open>The options that decide what the rater does; which scrapers are configured is a flag each.\<close>

record Options =
  op_AgentSetObject :: "AgentSet option"
  op_IntrospectScraper :: bool
  op_AgentCardScraper :: bool
  op_ScrapeInterval :: nanos
  op_ScrapeWorkers :: int
  op_StabilityWindow :: int

record Rater =
  rt_opts :: Options
  rt_buffers :: "(string, AgentDeployBuffers) fmap"
  rt_peerHashes :: "(string, peerHashCache) fmap"
  rt_peerCards :: "(string, peerCardState) fmap"
  rt_agentSet :: string
  rt_agentDeploys :: "string list"

definition NewRater :: "Options \<Rightarrow> Rater" where
"NewRater opts0 =
   (let opts = opts0\<lparr>
          op_ScrapeInterval := if op_ScrapeInterval opts0 = 0 then DefaultScrapeInterval else op_ScrapeInterval opts0,
          op_ScrapeWorkers := if op_ScrapeWorkers opts0 = 0 then DefaultScrapeWorkers else op_ScrapeWorkers opts0,
          op_StabilityWindow := if op_StabilityWindow opts0 = 0 then DefaultStabilityWindow else op_StabilityWindow opts0\<rparr>;
        (agentSet, agentDeploys) =
          (case op_AgentSetObject opts of
             None \<Rightarrow> ([], [])
           | Some as \<Rightarrow> (om_Name (as_Meta as), map aad_Name (ass_Agents (as_Spec as))))
    in \<lparr>rt_opts = opts,
        rt_buffers = fmap_of_list (map (\<lambda>ad. (ad, NewAgentDeployBuffers)) agentDeploys),
        rt_peerHashes = fmap_of_list (map (\<lambda>ad. (ad, newPeerHashCache)) agentDeploys),
        rt_peerCards = fmap_of_list (map (\<lambda>ad. (ad, newPeerCardState)) agentDeploys),
        rt_agentSet = agentSet, rt_agentDeploys = agentDeploys\<rparr>)"

text \<open>What one tick meets: responses, completion times and the order of completion.\<close>

record Tick =
  tk_Discover :: "string \<Rightarrow> string \<Rightarrow> string list option"
  tk_AgentCard :: "string \<Rightarrow> string option"
  tk_Introspect :: "string \<Rightarrow> IntrospectSample option"
  tk_Metrics :: "string \<Rightarrow> PodSample option"
  tk_Clock :: "string \<Rightarrow> nanos"
  tk_order :: "string list \<Rightarrow> string list"

definition managed_peer_names :: "AgentSet option \<Rightarrow> string \<Rightarrow> string list" where
"managed_peer_names as ad =
   map peer_Name (filter (\<lambda>p. peer_Kind p = PeerKindManaged) (t_Peers (ComputeTopology as ad)))"

definition scrapePeerCardsOnce :: "Tick \<Rightarrow> string \<Rightarrow> Rater \<Rightarrow> Rater" where
"scrapePeerCardsOnce tk ad r =
   (case op_AgentSetObject (rt_opts r) of
      None \<Rightarrow> r
    | Some as \<Rightarrow>
        if \<not> op_AgentCardScraper (rt_opts r) then r
        else case fmlookup (rt_peerCards r) ad of
          None \<Rightarrow> r
        | Some state \<Rightarrow>
            let url = (\<lambda>peer. ''https://'' @ rt_agentSet r @ ''-'' @ peer @ ''.'' @ om_Namespace (as_Meta as) @ ''.svc:'' @
                              itoa AgentBrokerPort);
                poll = (\<lambda>peer state. case tk_AgentCard tk (url peer) of
                          None \<Rightarrow> state
                        | Some hash \<Rightarrow> cards_observe peer hash (tk_Clock tk peer) (op_StabilityWindow (rt_opts r)) state)
            in r\<lparr>rt_peerCards := fmupd ad (fold poll (tk_order tk (managed_peer_names (Some as) ad)) state) (rt_peerCards r)\<rparr>)"

definition introspect_pod :: "(string \<Rightarrow> nanos option) \<Rightarrow> Tick \<Rightarrow> string \<Rightarrow> peerHashCache \<Rightarrow> peerHashCache" where
"introspect_pod parseTime tk host c =
   (case tk_Introspect tk host of
      None \<Rightarrow> c
    | Some smp \<Rightarrow>
        let peerHashes = fmmap (\<lambda>ph. \<lparr>rh_Hash = ip_Hash ph,
                            rh_ObservedAt = (case parseTime (ip_ObservedAt ph) of None \<Rightarrow> zero_time | Some t \<Rightarrow> t)\<rparr>)
                          (is_PeerHashes smp);
            pod = (if is_PodName smp = [] then host else is_PodName smp)
        in cache_set host pod peerHashes (tk_Clock tk host) c)"

definition scrapeIntrospectOnce :: "(string \<Rightarrow> nanos option) \<Rightarrow> Tick \<Rightarrow> string \<Rightarrow> string list \<Rightarrow> Rater \<Rightarrow> Rater" where
"scrapeIntrospectOnce parseTime tk ad hosts r =
   (if \<not> op_IntrospectScraper (rt_opts r) then r
    else case fmlookup (rt_peerHashes r) ad of
      None \<Rightarrow> r
    | Some c \<Rightarrow> r\<lparr>rt_peerHashes := fmupd ad (fold (introspect_pod parseTime tk) (tk_order tk hosts) (cache_prune hosts c))
                                    (rt_peerHashes r)\<rparr>)"

definition scrape_pod :: "Tick \<Rightarrow> string \<Rightarrow> AgentDeployBuffers \<Rightarrow> AgentDeployBuffers option" where
"scrape_pod tk host b =
   (case tk_Metrics tk host of
      None \<Rightarrow> Some b
    | Some smp \<Rightarrow> buf_Append host (Some (smp\<lparr>pd_Timestamp := tk_Clock tk host div second\<rparr>)) b)"

definition scrapeOneAgentDeploy ::
  "(string \<Rightarrow> nanos option) \<Rightarrow> Tick \<Rightarrow> string \<Rightarrow> Rater \<Rightarrow> Rater option" where
"scrapeOneAgentDeploy parseTime tk ad r0 =
   (let r1 = scrapePeerCardsOnce tk ad r0 in
    case tk_Discover tk (rt_agentSet r1) ad of
      None \<Rightarrow> Some r1
    | Some [] \<Rightarrow> Some r1
    | Some hosts \<Rightarrow>
        let r2 = scrapeIntrospectOnce parseTime tk ad hosts r1 in
        case fmlookup (rt_buffers r2) ad of
          None \<Rightarrow> Some r2
        | Some buf \<Rightarrow>
            (case run_all (scrape_pod tk) (tk_order tk hosts) buf of
               None \<Rightarrow> None
             | Some buf' \<Rightarrow> Some (r2\<lparr>rt_buffers := fmupd ad buf' (rt_buffers r2)\<rparr>)))"

text \<open>The passes of different AgentDeploys touch different entries; they are run one after another.\<close>

definition scrapeAllOnce :: "(string \<Rightarrow> nanos option) \<Rightarrow> Tick \<Rightarrow> Rater \<Rightarrow> Rater option" where
"scrapeAllOnce parseTime tk r = run_all (scrapeOneAgentDeploy parseTime tk) (rt_agentDeploys r) r"

section \<open>Queries\<close>

record PerWindowValues =
  pw_ProcessingRates :: "(string, f64) fmap"
  pw_StreamMessageRates :: "(string, f64) fmap"
  pw_Inflights :: "(string, f64) fmap"

record WindowedResult =
  wr_Total :: PerWindowValues
  wr_PerTransport :: "(string, PerWindowValues) fmap"
  wr_CustomWindowEffectiveSec :: int

definition window_values ::
  "(string fset \<Rightarrow> string list) \<Rightarrow> AgentDeployBuffers \<Rightarrow> int \<Rightarrow> (string \<times> int) list \<Rightarrow> string \<Rightarrow> PerWindowValues" where
"window_values ord buf now windows t =
   \<lparr>pw_ProcessingRates = fmap_of_list (map (\<lambda>(key, lookback). (key, CalculateRequestRate ord buf now lookback t)) windows),
    pw_StreamMessageRates = fmap_of_list (map (\<lambda>(key, lookback). (key, CalculateStreamMessageRate ord buf now lookback t)) windows),
    pw_Inflights = fmap_of_list (map (\<lambda>(key, lookback). (key, CalculateInflightAvg ord buf now lookback t)) windows)\<rparr>"

definition GetMetrics ::
  "(string fset \<Rightarrow> string list) \<Rightarrow> nanos \<Rightarrow> string \<Rightarrow> int \<Rightarrow> Rater \<Rightarrow> rater_error + WindowedResult" where
"GetMetrics ord clock name lookbackSeconds r =
   (case fmlookup (rt_buffers r) name of
      None \<Rightarrow> Inl ErrUnknownAgentDeploy
    | Some buf \<Rightarrow>
        if \<not> HasUsableHistory ord buf then Inl ErrNoData
        else
          let now = clock div second;
              transports = ObservedTransports ord buf;
              retentionSec = Retention div second;
              fixed = [(WindowKey1m, Lookback1m), (WindowKey5m, Lookback5m), (WindowKey15m, Lookback15m)];
              effectiveCustom = (if lookbackSeconds > 0 then min lookbackSeconds retentionSec else 0);
              windows = (if lookbackSeconds > 0 then fixed @ [(WindowKeyCustom, effectiveCustom)] else fixed)
          in Inr \<lparr>wr_Total = window_values ord buf now windows TransportTotal,
                  wr_PerTransport = fmap_of_list (map (\<lambda>t. (t, window_values ord buf now windows t)) transports),
                  wr_CustomWindowEffectiveSec = effectiveCustom\<rparr>)"

definition peer_drift :: "peerHashCache option \<Rightarrow> peerCardState option \<Rightarrow> string \<Rightarrow> PeerCardDrift" where
"peer_drift cache cards peer =
   (let reported = (case cache of None \<Rightarrow> fmempty | Some c \<Rightarrow> reportedByPeer peer c);
        latest = (case cards of None \<Rightarrow> None | Some s \<Rightarrow> cards_snapshot peer s)
    in \<lparr>LatestHash = (case latest of None \<Rightarrow> [] | Some (h, _) \<Rightarrow> h),
        LatestHashObservedAt = (case latest of None \<Rightarrow> zero_time | Some (_, t) \<Rightarrow> t),
        ReportedHashes = reported\<rparr>)"

definition GetPeerCardDrift :: "string \<Rightarrow> Rater \<Rightarrow> rater_error + (string, PeerCardDrift) fmap" where
"GetPeerCardDrift name r =
   (case fmlookup (rt_buffers r) name of
      None \<Rightarrow> Inl ErrUnknownAgentDeploy
    | Some _ \<Rightarrow>
        let cache = fmlookup (rt_peerHashes r) name;
            cards = fmlookup (rt_peerCards r) name
        in Inr (fmap_of_list (map (\<lambda>p. (p, peer_drift cache cards p))
                  (managed_peer_names (op_AgentSetObject (rt_opts r)) name))))"

text \<open>An example: two agents that know each other, one pod each, scraped in reverse order.\<close>

definition demo_options :: Options where
"demo_options =
   \<lparr>op_AgentSetObject = Some \<lparr>as_Meta = new_meta ''ns'' ''set'',
      as_Spec = \<lparr>ass_Pattern = Handoff, ass_Entry = ''a'', ass_Agents = [new_agent ''a'', new_agent ''b''],
        ass_Templates = None, ass_ExternalAgents = [], ass_DriftReload = None\<rparr>,
      as_Status = \<lparr>asst_Conditions = [], asst_Phase = AgentSetPhaseUnknown, asst_Message = [], asst_LastUpdated = zero_time,
        asst_AgentCount = None, asst_ExternalAgentCount = None, asst_ObservedGeneration = 0\<rparr>\<rparr>,
    op_IntrospectScraper = True, op_AgentCardScraper = False, op_ScrapeInterval = 0, op_ScrapeWorkers = 0, op_StabilityWindow = 0\<rparr>"

definition demo_tick :: Tick where
"demo_tick =
   \<lparr>tk_Discover = (\<lambda>_ ad. if ad = ''a'' then Some [''h1'', ''h2''] else None), tk_AgentCard = (\<lambda>_. None),
    tk_Introspect = (\<lambda>host. Some \<lparr>is_PodName = ''pod-'' @ host,
       is_PeerHashes = fmap_of_list [(''b'', \<lparr>ip_Hash = ''x'', ip_ObservedAt = []\<rparr>)]\<rparr>),
    tk_Metrics = (\<lambda>host. if host = ''h1'' then Some (demo_pod_sample 0 7) else None),
    tk_Clock = (\<lambda>_. 60 * second), tk_order = rev\<rparr>"

section \<open>The stability gate\<close>

text \<open>The reference: the hash of the latest \<open>n\<close> equal consecutive polls, polls newest first.\<close>

fun latest_stable :: "nat \<Rightarrow> string list \<Rightarrow> string" where
"latest_stable n [] = []" |
"latest_stable n (h # hs) =
   (if n \<le> Suc (length hs) \<and> take n (h # hs) = replicate n h then h else latest_stable n hs)"

definition run_length :: "string \<Rightarrow> string list \<Rightarrow> nat" where
"run_length h hs = length (takeWhile (\<lambda>x. x = h) hs)"

lemma take_replicate_iff: "n \<le> length hs \<and> take n hs = replicate n h \<longleftrightarrow> n \<le> run_length h hs"
proof (induction hs arbitrary: n)
  case (Cons x hs)
  then show ?case
    by (cases n) (auto simp: run_length_def)
qed (auto simp: run_length_def)

lemma latest_stable_Cons: "latest_stable n (h # hs) = (if n \<le> Suc (run_length h hs) then h else latest_stable n hs)"
  using take_replicate_iff [of n "h # hs" h] by (simp add: run_length_def)

declare latest_stable.simps(2) [simp del]

lemma latest_stable_run: "0 < n \<Longrightarrow> n \<le> run_length h hs \<Longrightarrow> latest_stable n hs = h"
  by (cases hs) (auto simp: latest_stable_Cons run_length_def split: if_splits)

text \<open>The invariant between the gate and the polls so far.\<close>

definition gate_inv :: "nat \<Rightarrow> string list \<Rightarrow> gatedHash \<Rightarrow> bool" where
"gate_inv n hs g \<longleftrightarrow>
   g_accepted g = latest_stable n hs \<and>
   (if hs = [] \<or> hd hs = g_accepted g then g_pending g = [] \<and> g_pendingCount g = 0
    else g_pending g = hd hs \<and> g_pendingCount g = int (run_length (hd hs) hs) \<and> run_length (hd hs) hs < n)"

lemma gate_observe_inv:
  assumes "gate_inv n hs g" "0 < n" "h \<noteq> []" "[] \<notin> set hs"
  shows "gate_inv n (h # hs) (gate_observe h now (int n) g)"
proof (cases "h = g_accepted g")
  case True
  then have "latest_stable n (h # hs) = h"
    using assms(1) by (simp add: gate_inv_def latest_stable_Cons)
  then show ?thesis
    using True by (simp add: gate_inv_def gate_observe_def)
next
  case False
  have run: "int (run_length h hs) = (if h = g_pending g then g_pendingCount g else 0)"
  proof (cases "hs = [] \<or> hd hs = g_accepted g")
    case True
    then have "g_pending g = []" "run_length h hs = 0"
      using assms(1) False by (cases hs; auto simp: gate_inv_def run_length_def)+
    then show ?thesis
      using assms(3) by simp
  next
    case stable: False
    then have "g_pending g = hd hs" "g_pendingCount g = int (run_length (hd hs) hs)"
      using assms(1) by (simp_all add: gate_inv_def)
    moreover have "h \<noteq> hd hs \<Longrightarrow> run_length h hs = 0"
      using stable by (cases hs) (simp_all add: run_length_def)
    ultimately show ?thesis
      by auto
  qed
  have small: "run_length h hs < n"
    using assms(1,2) False latest_stable_run [of n h hs] by (force simp: gate_inv_def)
  have c: "(if h = g_pending g then g_pendingCount g + 1 else 1) = int (Suc (run_length h hs))"
    using run by auto
  show ?thesis
  proof (cases "n \<le> Suc (run_length h hs)")
    case True
    then show ?thesis
      using False c run by (auto simp: gate_inv_def gate_observe_def Let_def latest_stable_Cons)
  next
    case far: False
    then have "latest_stable n (h # hs) = latest_stable n hs" "run_length h (h # hs) = Suc (run_length h hs)"
      by (simp_all add: latest_stable_Cons run_length_def)
    then show ?thesis
      using False far c run assms(1) by (auto simp: gate_inv_def gate_observe_def Let_def)
  qed
qed

lemma gate_run_inv:
  assumes "0 < n" "\<And>h t. (h, t) \<in> set polls \<Longrightarrow> h \<noteq> []"
  shows "gate_inv n (rev (map fst polls)) (fold (\<lambda>(h, t). gate_observe h t (int n)) polls zero_gate)"
  using assms(2)
proof (induction polls rule: rev_induct)
  case (snoc p polls)
  obtain h t where [simp]: "p = (h, t)"
    by fastforce
  have "gate_inv n (rev (map fst polls)) (fold (\<lambda>(h, t). gate_observe h t (int n)) polls zero_gate)"
    using snoc.prems by (intro snoc.IH) auto
  moreover have "h \<noteq> []" "[] \<notin> set (rev (map fst polls))"
    using snoc.prems by force+
  ultimately show ?case
    using gate_observe_inv [OF _ assms(1)] by simp
qed (simp add: gate_inv_def zero_gate_def)

text \<open>
  C4. The latest hash of a peer is the one its card kept for a full stability window.  After any
  sequence of polls the accepted hash is the one of the most recent \<open>n\<close> consecutive polls that all
  agreed, and there is none before such a run.
\<close>

theorem gate_accepts_latest_stable_hash:
  assumes "0 < n" "\<And>h t. (h, t) \<in> set polls \<Longrightarrow> h \<noteq> []"
  shows "g_accepted (fold (\<lambda>(h, t). gate_observe h t (int n)) polls zero_gate) = latest_stable n (rev (map fst polls))"
  using gate_run_inv [OF assms(1), of polls] assms(2) by (simp add: gate_inv_def)

theorem gate_accepts_latest_stable_hash_witness:
  "g_accepted (fold (\<lambda>(h, t). gate_observe h t 3)
     [(''a'', 1), (''a'', 2), (''a'', 3), (''b'', 4), (''a'', 5), (''b'', 6), (''b'', 7)] zero_gate) = ''a''"
proof -
  have "g_accepted (fold (\<lambda>(h, t). gate_observe h t (int 3))
     [(''a'', 1), (''a'', 2), (''a'', 3), (''b'', 4), (''a'', 5), (''b'', 6), (''b'', 7)] zero_gate) =
    latest_stable 3 (rev (map fst [(''a'', 1 :: int), (''a'', 2), (''a'', 3), (''b'', 4), (''a'', 5), (''b'', 6), (''b'', 7)]))"
    by (rule gate_accepts_latest_stable_hash) auto
  then show ?thesis
    by (simp add: latest_stable_Cons run_length_def)
qed

section \<open>Ticks\<close>

text \<open>The buffers are rings of the configured size; every cached pod is known under some host.\<close>

definition bufs_ok :: "AgentDeployBuffers \<Rightarrow> bool" where
"bufs_ok b \<longleftrightarrow> (\<forall>pod q. fmlookup (byPod b) pod = Some q \<longrightarrow> queue_ok q \<and> maxSize q = MaxSamplesPerPod)"

definition served_by :: "string set \<Rightarrow> peerHashCache \<Rightarrow> bool" where
"served_by hosts c \<longleftrightarrow>
   (\<forall>pod. fmlookup (ph_byPod c) pod \<noteq> None \<longrightarrow> (\<exists>host \<in> hosts. fmlookup (ph_hostToPod c) host = Some pod))"

definition rater_ok :: "Rater \<Rightarrow> bool" where
"rater_ok r \<longleftrightarrow>
   (\<forall>ad b. fmlookup (rt_buffers r) ad = Some b \<longrightarrow> bufs_ok b) \<and>
   (\<forall>ad c. fmlookup (rt_peerHashes r) ad = Some c \<longrightarrow> served_by UNIV c)"

definition fair_tick :: "Tick \<Rightarrow> bool" where
"fair_tick tk \<longleftrightarrow> (\<forall>hs. mset (tk_order tk hs) = mset hs)"

lemma fair_tickD:
  assumes "fair_tick tk"
  shows "set (tk_order tk hs) = set hs" "distinct (tk_order tk hs) \<longleftrightarrow> distinct hs"
proof -
  have "mset (tk_order tk hs) = mset hs"
    using assms by (simp add: fair_tick_def)
  then show "set (tk_order tk hs) = set hs" "distinct (tk_order tk hs) \<longleftrightarrow> distinct hs"
    by (rule mset_eq_setD, rule mset_eq_imp_distinct_iff)
qed

lemma served_by_mono: "served_by A c \<Longrightarrow> A \<subseteq> B \<Longrightarrow> served_by B c"
  by (auto simp: served_by_def)

lemma MaxSamples: "MaxSamplesPerPod = 720"
  by (simp add: MaxSamplesPerPod_def Retention_def minute_def second_def)

lemma buf_Append_ok:
  assumes "bufs_ok b"
  shows "\<exists>b'. buf_Append pod (Some s) b = Some b' \<and> bufs_ok b' \<and> Samples_of pod b' = take_last 720 (Samples_of pod b @ [s]) \<and>
              (\<forall>p. p \<noteq> pod \<longrightarrow> Samples_of p b' = Samples_of p b)"
proof -
  define q where "q = (case fmlookup (byPod b) pod of None \<Rightarrow> New MaxSamplesPerPod | Some q \<Rightarrow> q)"
  have q: "queue_ok q" "maxSize q = MaxSamplesPerPod" "Items q = Samples_of pod b"
    using assms New_ok [of MaxSamplesPerPod]
    by (auto simp: q_def bufs_ok_def Samples_of_def MaxSamples New_def Items_def split: option.split)
  obtain q' where q': "Append s q = Some q'" "queue_ok q'" "queue_cap q' = queue_cap q"
      "Items q' = take_last (queue_cap q) (Items q @ [s])"
    using oq.app_law [OF q(1), of s] by blast
  then have "maxSize q' = MaxSamplesPerPod"
    using q(1,2) by (auto simp: queue_cap_def queue_ok_def eq_nat_nat_iff)
  then show ?thesis
    using q q' assms
    by (auto simp: buf_Append_def q_def [symmetric] Let_def bufs_ok_def Samples_of_def queue_cap_def MaxSamples)
qed

text \<open>The samples a pod has after a tick over some hosts.\<close>

definition after_tick :: "Tick \<Rightarrow> string list \<Rightarrow> string \<Rightarrow> PodSample list \<Rightarrow> PodSample list" where
"after_tick tk hs pod old =
   (if pod \<in> set hs
    then (case tk_Metrics tk pod of
            None \<Rightarrow> old
          | Some s \<Rightarrow> take_last 720 (old @ [s\<lparr>pd_Timestamp := tk_Clock tk pod div second\<rparr>]))
    else old)"

lemma scrape_pod_ok:
  assumes "bufs_ok b"
  shows "\<exists>b'. scrape_pod tk h b = Some b' \<and> bufs_ok b' \<and> (\<forall>pod. Samples_of pod b' = after_tick tk [h] pod (Samples_of pod b))"
proof (cases "tk_Metrics tk h")
  case None
  then show ?thesis
    using assms by (simp add: scrape_pod_def after_tick_def)
next
  case (Some s)
  then show ?thesis
    using buf_Append_ok [OF assms, of h "s\<lparr>pd_Timestamp := tk_Clock tk h div second\<rparr>"]
    by (auto simp: scrape_pod_def after_tick_def)
qed

lemma scrape_pods_ok:
  assumes "bufs_ok b" "distinct hs"
  shows "\<exists>b'. run_all (scrape_pod tk) hs b = Some b' \<and> bufs_ok b' \<and> (\<forall>pod. Samples_of pod b' = after_tick tk hs pod (Samples_of pod b))"
  using assms
proof (induction hs arbitrary: b)
  case (Cons h hs)
  obtain b1 where b1: "scrape_pod tk h b = Some b1" "bufs_ok b1" "\<And>pod. Samples_of pod b1 = after_tick tk [h] pod (Samples_of pod b)"
    using scrape_pod_ok [OF Cons.prems(1)] by blast
  obtain b' where "run_all (scrape_pod tk) hs b1 = Some b'" "bufs_ok b'" "\<And>pod. Samples_of pod b' = after_tick tk hs pod (Samples_of pod b1)"
    using Cons.IH [OF b1(2)] Cons.prems(2) by auto
  moreover have "after_tick tk hs pod (after_tick tk [h] pod old) = after_tick tk (h # hs) pod old" for pod old
    using Cons.prems(2) by (auto simp: after_tick_def)
  ultimately show ?case
    using b1 by simp
qed (simp add: after_tick_def)

lemma cache_set_served:
  assumes "served_by H c" "host \<in> H"
  shows "served_by H (cache_set host pod ps now c)"
  unfolding served_by_def
proof (intro allI impI)
  fix p
  assume p: "fmlookup (ph_byPod (cache_set host pod ps now c)) p \<noteq> None"
  show "\<exists>h \<in> H. fmlookup (ph_hostToPod (cache_set host pod ps now c)) h = Some p"
  proof (cases "p = pod")
    case True
    then show ?thesis
      using assms(2) by (auto simp: cache_set_def Let_def split: option.split)
  next
    case False
    then have "fmlookup (ph_byPod c) p \<noteq> None" "fmlookup (ph_hostToPod c) host \<noteq> Some p"
      using p by (auto simp: cache_set_def Let_def split: option.splits if_splits)
    moreover then obtain h where "h \<in> H" "fmlookup (ph_hostToPod c) h = Some p"
      using assms(1) by (auto simp: served_by_def)
    ultimately have "h \<in> H" "h \<noteq> host" "fmlookup (ph_hostToPod c) h = Some p"
      by auto
    then show ?thesis
      by (auto simp: cache_set_def Let_def split: option.split)
  qed
qed

lemma cache_prune_served: "served_by UNIV c \<Longrightarrow> served_by (set live) (cache_prune live c)"
proof -
  assume c: "served_by UNIV c"
  show ?thesis
    unfolding served_by_def
  proof (intro allI impI)
    fix pod
    assume "fmlookup (ph_byPod (cache_prune live c)) pod \<noteq> None"
    then have pod: "fmlookup (ph_byPod c) pod \<noteq> None"
        "\<And>host. fmlookup (ph_hostToPod c) host = Some pod \<Longrightarrow> host \<in> set live"
      by (force simp: cache_prune_def Let_def image_iff intro: fmdomI split: if_splits)+
    then obtain host where "fmlookup (ph_hostToPod c) host = Some pod"
      using c by (auto simp: served_by_def)
    then show "\<exists>host \<in> set live. fmlookup (ph_hostToPod (cache_prune live c)) host = Some pod"
      using pod(2) by (auto simp: cache_prune_def Let_def)
  qed
qed

lemma introspect_served:
  "served_by H c \<Longrightarrow> set hs \<subseteq> H \<Longrightarrow> served_by H (fold (introspect_pod parseTime tk) hs c)"
proof (induction hs arbitrary: c)
  case (Cons h hs)
  then show ?case
    by (auto simp: introspect_pod_def Let_def intro!: Cons.IH cache_set_served split: option.splits)
qed simp

lemma scrape_cards_frame [simp]:
  "rt_buffers (scrapePeerCardsOnce tk ad r) = rt_buffers r" "rt_peerHashes (scrapePeerCardsOnce tk ad r) = rt_peerHashes r"
  "rt_agentSet (scrapePeerCardsOnce tk ad r) = rt_agentSet r" "rt_opts (scrapePeerCardsOnce tk ad r) = rt_opts r"
  by (simp_all add: scrapePeerCardsOnce_def Let_def split: option.split)

lemma scrape_introspect_frame [simp]:
  "rt_opts (scrapeIntrospectOnce parseTime tk ad hosts r) = rt_opts r"
  "rt_buffers (scrapeIntrospectOnce parseTime tk ad hosts r) = rt_buffers r"
  "fmlookup (rt_peerHashes (scrapeIntrospectOnce parseTime tk ad hosts r)) ad' =
   (if ad' = ad \<and> op_IntrospectScraper (rt_opts r)
    then map_option (\<lambda>c. fold (introspect_pod parseTime tk) (tk_order tk hosts) (cache_prune hosts c)) (fmlookup (rt_peerHashes r) ad)
    else fmlookup (rt_peerHashes r) ad')"
  by (auto simp: scrapeIntrospectOnce_def split: option.split)

lemma scrapeOne_cases:
  assumes "rater_ok r" "fair_tick tk" "tk_Discover tk (rt_agentSet r) ad = Some hosts" "distinct hosts" "hosts \<noteq> []"
    and "fmlookup (rt_buffers r) ad = Some b"
  obtains r' b' where "scrapeOneAgentDeploy parseTime tk ad r = Some r'" "bufs_ok b'" "rt_opts r' = rt_opts r"
    "\<And>pod. Samples_of pod b' = after_tick tk hosts pod (Samples_of pod b)"
    "rt_buffers r' = fmupd ad b' (rt_buffers r)"
    "\<And>ad'. fmlookup (rt_peerHashes r') ad' =
       fmlookup (rt_peerHashes (scrapeIntrospectOnce parseTime tk ad hosts r)) ad'"
proof -
  have order: "set (tk_order tk hosts) = set hosts" "distinct (tk_order tk hosts)"
    using fair_tickD [OF assms(2)] assms(4) by auto
  obtain b' where b': "run_all (scrape_pod tk) (tk_order tk hosts) b = Some b'" "bufs_ok b'"
      "\<And>pod. Samples_of pod b' = after_tick tk (tk_order tk hosts) pod (Samples_of pod b)"
  proof -
    have "bufs_ok b"
      using assms(1,6) by (auto simp: rater_ok_def)
    then show ?thesis
      using scrape_pods_ok [OF _ order(2)] that by blast
  qed
  define r2 where "r2 = scrapeIntrospectOnce parseTime tk ad hosts (scrapePeerCardsOnce tk ad r)"
  have "scrapeOneAgentDeploy parseTime tk ad r = Some (r2\<lparr>rt_buffers := fmupd ad b' (rt_buffers r2)\<rparr>)"
    using assms(3,5,6) b'(1) by (cases hosts) (simp_all add: scrapeOneAgentDeploy_def Let_def r2_def)
  then show ?thesis
    using that [of "r2\<lparr>rt_buffers := fmupd ad b' (rt_buffers r2)\<rparr>" b'] b' order(1)
    by (simp add: r2_def after_tick_def)
qed

lemma scrapeOne_ok:
  assumes "rater_ok r" "fair_tick tk" "tk_Discover tk (rt_agentSet r) ad = Some hosts" "distinct hosts" "hosts \<noteq> []"
    and "fmlookup (rt_buffers r) ad = Some b" "scrapeOneAgentDeploy parseTime tk ad r = Some r'"
  shows "rater_ok r'"
proof -
  obtain b' where r': "bufs_ok b'" "rt_buffers r' = fmupd ad b' (rt_buffers r)"
    "\<And>ad'. fmlookup (rt_peerHashes r') ad' = fmlookup (rt_peerHashes (scrapeIntrospectOnce parseTime tk ad hosts r)) ad'"
    using scrapeOne_cases [OF assms(1-6), of parseTime] assms(7) by (metis option.inject)
  have "served_by UNIV (fold (introspect_pod parseTime tk) hs (cache_prune hosts c))" if "served_by UNIV c" for hs c
    using cache_prune_served [OF that, of hosts] by (auto intro!: introspect_served intro: served_by_mono)
  then show ?thesis
    using assms(1) r' by (auto simp: rater_ok_def split: if_splits)
qed

text \<open>What a tick does to the cached hashes: without hosts nothing.\<close>

lemma scrapeOne_frame:
  assumes "scrapeOneAgentDeploy parseTime tk ad r = Some r'"
  shows "rt_opts r' = rt_opts r" "fmlookup (rt_buffers r') ad = None \<longleftrightarrow> fmlookup (rt_buffers r) ad = None"
    "fmlookup (rt_peerHashes r') ad =
       (case tk_Discover tk (rt_agentSet r) ad of
          Some (h # hs) \<Rightarrow> fmlookup (rt_peerHashes (scrapeIntrospectOnce parseTime tk ad (h # hs) r)) ad
        | _ \<Rightarrow> fmlookup (rt_peerHashes r) ad)"
  using assms by (auto simp: scrapeOneAgentDeploy_def Let_def split: option.splits list.splits)

lemma GetPeerCardDrift_lookup:
  assumes "GetPeerCardDrift ad r = Inr drifts"
  shows "fmlookup drifts peer =
    (if peer \<in> set (managed_peer_names (op_AgentSetObject (rt_opts r)) ad)
     then Some (peer_drift (fmlookup (rt_peerHashes r) ad) (fmlookup (rt_peerCards r) ad) peer) else None)"
  using assms
  by (auto simp: GetPeerCardDrift_def Let_def fmlookup_of_list map_of_map_restrict split: option.splits)

text \<open>
  C21. A tick records each pod's observation once, in whatever order the scrapes finish.  For
  distinct discovered hosts the tick does not panic, keeps the invariant, appends to every scraped
  pod exactly its own sample stamped with its own completion time (keeping the last 720), leaves
  pods whose scrape failed and all other AgentDeploys as they were.
\<close>

theorem tick_records_each_pod_once:
  assumes "rater_ok r" "fair_tick tk" "tk_Discover tk (rt_agentSet r) ad = Some hosts" "distinct hosts" "hosts \<noteq> []"
    and "fmlookup (rt_buffers r) ad = Some b"
  shows "\<exists>r' b'. scrapeOneAgentDeploy parseTime tk ad r = Some r' \<and> rater_ok r' \<and> fmlookup (rt_buffers r') ad = Some b' \<and>
           (\<forall>pod. Samples_of pod b' = after_tick tk hosts pod (Samples_of pod b)) \<and>
           (\<forall>ad'. ad' \<noteq> ad \<longrightarrow> fmlookup (rt_buffers r') ad' = fmlookup (rt_buffers r) ad' \<and>
                                   fmlookup (rt_peerHashes r') ad' = fmlookup (rt_peerHashes r) ad')"
proof -
  obtain r' b' where r': "scrapeOneAgentDeploy parseTime tk ad r = Some r'" "bufs_ok b'" 
    "\<And>pod. Samples_of pod b' = after_tick tk hosts pod (Samples_of pod b)" "rt_buffers r' = fmupd ad b' (rt_buffers r)"
    "\<And>ad'. fmlookup (rt_peerHashes r') ad' = fmlookup (rt_peerHashes (scrapeIntrospectOnce parseTime tk ad hosts r)) ad'"
    using scrapeOne_cases [OF assms] by metis
  then have "rater_ok r'"
    using scrapeOne_ok [OF assms] by simp
  then show ?thesis
    using r' by auto
qed

text \<open>
  C22. Drift reports name live pods only, as long as hosts are discovered.  With introspection
  configured, after a tick that discovered hosts every pod for which \<^const>\<open>GetPeerCardDrift\<close>
  reports a hash is the pod last seen at one of these hosts; pods that were scaled down or replaced
  are gone from the report.  After a tick whose discovery failed or found no host, the report
  names the same pods and hashes as before the tick: the last pods of an AgentDeploy that is scaled
  to zero stay in it.
\<close>

theorem drift_reports_live_pods_only:
  assumes "rater_ok r" "fair_tick tk" "op_IntrospectScraper (rt_opts r)"
    and "scrapeOneAgentDeploy parseTime tk ad r = Some r'" "GetPeerCardDrift ad r' = Inr drifts"
  shows "case tk_Discover tk (rt_agentSet r) ad of
           Some (h # hs) \<Rightarrow>
             \<forall>peer d pod rh. fmlookup drifts peer = Some d \<and> fmlookup (ReportedHashes d) pod = Some rh \<longrightarrow>
               (\<exists>c host. fmlookup (rt_peerHashes r') ad = Some c \<and> host \<in> set (h # hs) \<and>
                         fmlookup (ph_hostToPod c) host = Some pod)
         | _ \<Rightarrow>
             \<exists>before. GetPeerCardDrift ad r = Inr before \<and>
               (\<forall>peer. map_option ReportedHashes (fmlookup drifts peer) =
                       map_option ReportedHashes (fmlookup before peer))"
proof (cases "\<exists>h hs. tk_Discover tk (rt_agentSet r) ad = Some (h # hs)")
  case True
  then obtain h hs where hosts: "tk_Discover tk (rt_agentSet r) ad = Some (h # hs)"
    by blast
  have live: "\<exists>c host. fmlookup (rt_peerHashes r') ad = Some c \<and> host \<in> set (h # hs) \<and> fmlookup (ph_hostToPod c) host = Some pod"
    if d: "fmlookup drifts peer = Some d" and rh: "fmlookup (ReportedHashes d) pod = Some rh" for peer d pod rh
  proof -
    obtain c where c: "fmlookup (rt_peerHashes r') ad = Some c" "fmlookup (ph_byPod c) pod \<noteq> None"
    proof -
      have "ReportedHashes d = (case fmlookup (rt_peerHashes r') ad of None \<Rightarrow> fmempty | Some c \<Rightarrow> reportedByPeer peer c)"
        using d by (auto simp: GetPeerCardDrift_lookup [OF assms(5)] peer_drift_def Let_def split: if_splits)
      then show thesis
        using rh that by (cases "fmlookup (rt_peerHashes r') ad") (auto simp: reportedByPeer_def split: if_splits)
    qed
    obtain c0 where c0: "fmlookup (rt_peerHashes r) ad = Some c0"
        "c = fold (introspect_pod parseTime tk) (tk_order tk (h # hs)) (cache_prune (h # hs) c0)"
      using c(1) hosts assms(3) by (auto simp: scrapeOne_frame(3) [OF assms(4)])
    have "served_by UNIV c0"
      using assms(1) c0(1) by (auto simp: rater_ok_def)
    then have "served_by (set (h # hs)) c"
      unfolding c0(2) by (intro introspect_served cache_prune_served) (simp_all add: fair_tickD(1) [OF assms(2)])
    then show ?thesis
      using c by (auto simp: served_by_def)
  qed
  show ?thesis
    unfolding hosts using live by simp blast
next
  case False
  then have same: "fmlookup (rt_peerHashes r') ad = fmlookup (rt_peerHashes r) ad"
    by (auto simp: scrapeOne_frame(3) [OF assms(4)] split: option.split list.split)
  obtain before where before: "GetPeerCardDrift ad r = Inr before"
    using assms(5) scrapeOne_frame(2) [OF assms(4)] by (auto simp: GetPeerCardDrift_def split: option.splits)
  have "map_option ReportedHashes (fmlookup drifts peer) = map_option ReportedHashes (fmlookup before peer)" for peer
    using same scrapeOne_frame(1) [OF assms(4)]
    by (simp add: GetPeerCardDrift_lookup [OF assms(5)] GetPeerCardDrift_lookup [OF before] peer_drift_def Let_def)
  then show ?thesis
    using before False by (auto split: option.split list.split)
qed

section \<open>Queries\<close>

lemma in_Samples_of: "s \<in> set (Samples_of pod b) \<Longrightarrow> pod |\<in>| fmdom (byPod b)"
  by (cases "fmlookup (byPod b) pod") (auto simp: Samples_of_def intro: fmdomI)

lemma has_usable_history:
  assumes "map_order ord"
  shows "HasUsableHistory ord b \<longleftrightarrow> (\<exists>pod. 2 \<le> length (Samples_of pod b))"
proof -
  have "pod |\<in>| fmdom (byPod b)" if "2 \<le> length (Samples_of pod b)" for pod
    using that in_Samples_of [of "hd (Samples_of pod b)" pod b] by (cases "Samples_of pod b") auto
  then show ?thesis
    using map_order.ord_set [OF assms] by (auto simp: HasUsableHistory_def Pods_def list_ex_iff)
qed

lemma observed_transports:
  assumes "map_order ord"
  shows "set (ObservedTransports ord b) = {t. \<exists>pod s. s \<in> set (Samples_of pod b) \<and> t |\<in>| sample_transports s}"
proof -
  have fold: "fset (foldl (\<lambda>S s. S |\<union>| sample_transports s) A ss) = fset A \<union> {t. \<exists>s \<in> set ss. t |\<in>| sample_transports s}" for A ss
    by (induction ss arbitrary: A) auto
  show ?thesis
    using map_order.ord_set [OF assms] in_Samples_of by (fastforce simp: ObservedTransports_def fold Pods_def)
qed

text \<open>The windows a query reports, in seconds.\<close>

definition window_length :: "int \<Rightarrow> string \<Rightarrow> int option" where
"window_length lookbackSeconds key =
   (if key = ''1m'' then Some 60 else if key = ''5m'' then Some 300 else if key = ''15m'' then Some 900
    else if key = ''custom'' \<and> lookbackSeconds > 0 then Some (min lookbackSeconds 1800) else None)"

text \<open>The three maps hold the rate, the stream message rate and the in-flight average of every window.\<close>

definition reports_windows ::
  "(string fset \<Rightarrow> string list) \<Rightarrow> AgentDeployBuffers \<Rightarrow> int \<Rightarrow> int \<Rightarrow> string \<Rightarrow> PerWindowValues \<Rightarrow> bool" where
"reports_windows ord b now lookbackSeconds t v \<longleftrightarrow>
   (\<forall>key. fmlookup (pw_ProcessingRates v) key =
            map_option (\<lambda>len. CalculateRequestRate ord b now len t) (window_length lookbackSeconds key) \<and>
          fmlookup (pw_StreamMessageRates v) key =
            map_option (\<lambda>len. CalculateStreamMessageRate ord b now len t) (window_length lookbackSeconds key) \<and>
          fmlookup (pw_Inflights v) key =
            map_option (\<lambda>len. CalculateInflightAvg ord b now len t) (window_length lookbackSeconds key))"

text \<open>A window without two readings of any pod counts as a rate of zero.\<close>

lemma no_window_no_rate:
  assumes "\<And>pod. length (samplesInWindow (Samples_of pod b) now len) < 2"
  shows "CalculateRequestRate ord b now len t = f0" "CalculateStreamMessageRate ord b now len t = f0"
proof -
  have "foldl (\<lambda>total pod. total) z xs = z" for z :: f64 and xs :: "string list"
    by (induction xs) simp_all
  then have "calculateCounterRate ord b now len t of' = f0" for of'
    using assms by (simp add: calculateCounterRate_def podRate_def)
  then show "CalculateRequestRate ord b now len t = f0" "CalculateStreamMessageRate ord b now len t = f0"
    by (simp_all add: CalculateRequestRate_def CalculateStreamMessageRate_def)
qed

lemma window_values_reports:
  assumes "windows = [(WindowKey1m, Lookback1m), (WindowKey5m, Lookback5m), (WindowKey15m, Lookback15m)] @
      (if lookback > 0 then [(WindowKeyCustom, min lookback 1800)] else [])"
  shows "reports_windows ord b now lookback t (window_values ord b now windows t)"
  by (auto simp: assms reports_windows_def window_values_def window_length_def fmlookup_of_list WindowKey1m_def
      WindowKey5m_def WindowKey15m_def WindowKeyCustom_def Lookback1m_def Lookback5m_def Lookback15m_def)

text \<open>
  C23. Metrics queries answer exactly when they can, and with the right values.  An unknown name and
  a known AgentDeploy with fewer than two samples for every pod are the two errors.  Otherwise the
  answer holds, for the total and for exactly the observed transports, under the keys \<open>1m\<close>, \<open>5m\<close>,
  \<open>15m\<close> and, when a positive lookback is asked for, \<open>custom\<close>, the request rate, the stream message
  rate and the average in-flight load computed over that window at the second of the query, the
  custom window clamped to the retention of 1800 seconds.  No window is left out: one in which no
  pod has two readings is reported with a rate of zero.
\<close>

theorem get_metrics_answers:
  assumes "map_order ord"
  shows "case fmlookup (rt_buffers r) name of
           None \<Rightarrow> GetMetrics ord clock name lookback r = Inl ErrUnknownAgentDeploy
         | Some b \<Rightarrow>
             if \<forall>pod. length (Samples_of pod b) < 2 then GetMetrics ord clock name lookback r = Inl ErrNoData
             else \<exists>res. GetMetrics ord clock name lookback r = Inr res \<and>
                    fset (fmdom (wr_PerTransport res)) =
                      {t. \<exists>pod s. s \<in> set (Samples_of pod b) \<and> t |\<in>| sample_transports s} \<and>
                    reports_windows ord b (clock div second) lookback TransportTotal (wr_Total res) \<and>
                    (\<forall>t v. fmlookup (wr_PerTransport res) t = Some v \<longrightarrow>
                           reports_windows ord b (clock div second) lookback t v) \<and>
                    (\<forall>key len. window_length lookback key = Some len \<and>
                        (\<forall>pod. length (samplesInWindow (Samples_of pod b) (clock div second) len) < 2) \<longrightarrow>
                        fmlookup (pw_ProcessingRates (wr_Total res)) key = Some f0 \<and>
                        fmlookup (pw_StreamMessageRates (wr_Total res)) key = Some f0) \<and>
                    wr_CustomWindowEffectiveSec res = (if lookback > 0 then min lookback 1800 else 0)"
proof (cases "fmlookup (rt_buffers r) name")
  case None
  then show ?thesis
    by (simp add: GetMetrics_def)
next
  case (Some b)
  show ?thesis
  proof (cases "HasUsableHistory ord b")
    case False
    then show ?thesis
      using Some has_usable_history [OF assms, of b] by (auto simp: GetMetrics_def not_le)
  next
    case True
    define now where "now = clock div second"
    define windows where "windows = [(WindowKey1m, Lookback1m), (WindowKey5m, Lookback5m), (WindowKey15m, Lookback15m)] @
      (if lookback > 0 then [(WindowKeyCustom, min lookback 1800)] else [])"
    have ret: "Retention div second = 1800"
      by (simp add: Retention_def minute_def second_def)
    have vals: "reports_windows ord b now lookback t (window_values ord b now windows t)" for t
      by (rule window_values_reports) (rule windows_def)
    have res: "GetMetrics ord clock name lookback r = Inr
        \<lparr>wr_Total = window_values ord b now windows TransportTotal,
         wr_PerTransport = fmap_of_list (map (\<lambda>t. (t, window_values ord b now windows t)) (ObservedTransports ord b)),
         wr_CustomWindowEffectiveSec = (if lookback > 0 then min lookback 1800 else 0)\<rparr>"
      using Some True by (simp add: GetMetrics_def Let_def ret windows_def now_def)
    have zero: "fmlookup (pw_ProcessingRates (window_values ord b now windows t)) key = Some f0 \<and>
        fmlookup (pw_StreamMessageRates (window_values ord b now windows t)) key = Some f0"
      if "window_length lookback key = Some len" "\<And>pod. length (samplesInWindow (Samples_of pod b) now len) < 2" for key len t
      using vals [of t] that(1) no_window_no_rate [OF that(2)] by (simp add: reports_windows_def)
    have "\<not> (\<forall>pod. length (Samples_of pod b) < 2)"
      using True has_usable_history [OF assms, of b] by (auto simp: not_less)
    then show ?thesis
      using Some vals zero
      by (auto simp: res now_def [symmetric] fset_of_list.rep_eq image_image
          observed_transports [OF assms, of b, symmetric] fmlookup_of_list dest!: map_of_SomeD)
  qed
qed

text \<open>One pod read at 0 and at 60 seconds, with 10 and 130 requests.\<close>

definition demo_bufs :: AgentDeployBuffers where
"demo_bufs = \<lparr>byPod = fmap_of_list
   [(''h1'', \<lparr>elements = [demo_pod_sample 0 10, demo_pod_sample 60 130], maxSize = 720\<rparr>)]\<rparr>"

definition demo_metrics :: Rater where
"demo_metrics = (NewRater demo_options)\<lparr>rt_buffers := fmap_of_list [(''a'', demo_bufs), (''b'', NewAgentDeployBuffers)]\<rparr>"

lemma demo_metrics_bufs:
  "fmlookup (rt_buffers demo_metrics) ''a'' = Some demo_bufs"
  "fmlookup (rt_buffers demo_metrics) ''b'' = Some NewAgentDeployBuffers"
  "fmlookup (rt_buffers demo_metrics) ''zz'' = None"
  by (simp_all add: demo_metrics_def)

lemma demo_bufs_samples:
  "Samples_of pod demo_bufs = (if pod = ''h1'' then [demo_pod_sample 0 10, demo_pod_sample 60 130] else [])"
  by (simp add: demo_bufs_def Samples_of_def Items_def)

lemma demo_bufs_usable: "\<not> (\<forall>pod. length (Samples_of pod demo_bufs) < 2)"
  by (auto simp: demo_bufs_samples)

lemma demo_bufs_rate:
  assumes "60 \<le> len"
  shows "exact_int (CalculateRequestRate sorted_list_of_fset demo_bufs 60 len TransportTotal) 2"
proof -
  have "Pods sorted_list_of_fset demo_bufs = [''h1'']"
    by (simp add: demo_bufs_def Pods_def sorted_list_of_fset.rep_eq)
  moreover have "counterValue sorted_list_of_fset (demo_pod_sample t n) TransportTotal pd_RequestsByTransport = fadd f0 (f_of_int n)"
      "pd_Timestamp (demo_pod_sample t n) = t" for t n
    by (simp_all add: counterValue_def value_of_def sum_values_def demo_pod_sample_def sorted_list_of_fset.rep_eq)
  moreover have "exact_int (fadd f0 (fdiv (rate_loop [fadd f0 (f_of_int 130)] (fadd f0 (f_of_int 10)) (fadd f0 (f_of_int 10)) f0) (f_of_int 60))) 2"
  proof -
    have e: "exact_int (fadd f0 (f_of_int 10)) 10" "exact_int (fadd f0 (f_of_int 130)) 130"
      using exact_add [OF exact_int_0 exact_int_of_int [of 10]] exact_add [OF exact_int_0 exact_int_of_int [of 130]] by simp_all
    then have "exact_int (rate_loop [fadd f0 (f_of_int 130)] (fadd f0 (f_of_int 10)) (fadd f0 (f_of_int 10)) f0) 120"
      using exact_lt [OF e(2,1)] exact_add [OF exact_int_0 exact_sub [OF e(2,1)]] by simp
    then have "exact_int (fdiv (rate_loop [fadd f0 (f_of_int 130)] (fadd f0 (f_of_int 10)) (fadd f0 (f_of_int 10)) f0) (f_of_int 60)) 2"
      using f_of_int_exact [of 60] representable_int [of 2] unfolding exact_fin_in by (intro fdiv_in) (simp_all add: fin_in_def)
    then show ?thesis
      using exact_add [OF exact_int_0] by fastforce
  qed
  ultimately show ?thesis
    using assms by (simp add: CalculateRequestRate_def calculateCounterRate_def demo_bufs_samples podRate_def)
qed

lemma window_lengths:
  "window_length k ''1m'' = Some 60" "window_length 3600 ''custom'' = Some 1800" "window_length 0 ''custom'' = None"
  by (simp_all add: window_length_def)

theorem get_metrics_answers_witness:
  "GetMetrics sorted_list_of_fset 0 ''zz'' 60 demo_metrics = Inl ErrUnknownAgentDeploy \<and>
   GetMetrics sorted_list_of_fset 0 ''b'' 60 demo_metrics = Inl ErrNoData \<and>
   (\<exists>res. GetMetrics sorted_list_of_fset (60 * second) ''a'' 3600 demo_metrics = Inr res \<and>
          (\<exists>rate. fmlookup (pw_ProcessingRates (wr_Total res)) ''1m'' = Some rate \<and> exact_int rate 2) \<and>
          (\<exists>rate. fmlookup (pw_ProcessingRates (wr_Total res)) ''custom'' = Some rate \<and> exact_int rate 2) \<and>
          wr_CustomWindowEffectiveSec res = 1800) \<and>
   (\<exists>res. GetMetrics sorted_list_of_fset (7200 * second) ''a'' 0 demo_metrics = Inr res \<and>
          fmlookup (pw_ProcessingRates (wr_Total res)) ''1m'' = Some f0 \<and>
          fmlookup (pw_ProcessingRates (wr_Total res)) ''custom'' = None)"
proof (intro conjI)
  note spec = get_metrics_answers [OF sorted_order.map_order_axioms, where r = demo_metrics]
  have sec: "60 * second div second = 60" "7200 * second div second = 7200"
    by (simp_all add: second_def)
  show "GetMetrics sorted_list_of_fset 0 ''zz'' 60 demo_metrics = Inl ErrUnknownAgentDeploy"
    using spec [where name = "''zz''"] by (simp add: demo_metrics_bufs)
  show "GetMetrics sorted_list_of_fset 0 ''b'' 60 demo_metrics = Inl ErrNoData"
    using spec [where name = "''b''"] by (simp add: demo_metrics_bufs NewAgentDeployBuffers_def Samples_of_def)
  obtain res where "GetMetrics sorted_list_of_fset (60 * second) ''a'' 3600 demo_metrics = Inr res"
      "reports_windows sorted_list_of_fset demo_bufs 60 3600 TransportTotal (wr_Total res)" "wr_CustomWindowEffectiveSec res = 1800"
    using spec [where name = "''a''" and lookback = 3600 and clock = "60 * second"] demo_bufs_usable
    unfolding demo_metrics_bufs sec by (simp del: not_all) blast
  then show "\<exists>res. GetMetrics sorted_list_of_fset (60 * second) ''a'' 3600 demo_metrics = Inr res \<and>
          (\<exists>rate. fmlookup (pw_ProcessingRates (wr_Total res)) ''1m'' = Some rate \<and> exact_int rate 2) \<and>
          (\<exists>rate. fmlookup (pw_ProcessingRates (wr_Total res)) ''custom'' = Some rate \<and> exact_int rate 2) \<and>
          wr_CustomWindowEffectiveSec res = 1800"
    by (simp add: reports_windows_def window_lengths demo_bufs_rate)
  have "length (samplesInWindow (Samples_of pod demo_bufs) 7200 60) < 2" for pod
    by (simp add: demo_bufs_samples demo_pod_sample_def)
  moreover obtain res where "GetMetrics sorted_list_of_fset (7200 * second) ''a'' 0 demo_metrics = Inr res"
      "reports_windows sorted_list_of_fset demo_bufs 7200 0 TransportTotal (wr_Total res)"
      "\<forall>key len. window_length 0 key = Some len \<and> (\<forall>pod. length (samplesInWindow (Samples_of pod demo_bufs) 7200 len) < 2) \<longrightarrow>
         fmlookup (pw_ProcessingRates (wr_Total res)) key = Some f0 \<and>
         fmlookup (pw_StreamMessageRates (wr_Total res)) key = Some f0"
    using spec [where name = "''a''" and lookback = 0 and clock = "7200 * second"] demo_bufs_usable
    unfolding demo_metrics_bufs sec by (simp del: not_all) blast
  ultimately show "\<exists>res. GetMetrics sorted_list_of_fset (7200 * second) ''a'' 0 demo_metrics = Inr res \<and>
          fmlookup (pw_ProcessingRates (wr_Total res)) ''1m'' = Some f0 \<and>
          fmlookup (pw_ProcessingRates (wr_Total res)) ''custom'' = None"
    using window_lengths(1) [of 0] window_lengths(3) by (simp add: reports_windows_def)
qed

lemma fmlookup_const: "fmlookup (fmap_of_list (map (\<lambda>k. (k, v)) ks)) k = Some x \<Longrightarrow> x = v"
  by (auto simp: fmlookup_of_list dest!: map_of_SomeD)

lemma NewRater_ok: "rater_ok (NewRater opts)"
  by (auto simp: rater_ok_def NewRater_def Let_def bufs_ok_def served_by_def NewAgentDeployBuffers_def
      newPeerHashCache_def split: prod.splits dest!: fmlookup_const)

lemma demo_tick_sels:
  "tk_order demo_tick hs = rev hs"
  "tk_Introspect demo_tick host = Some \<lparr>is_PodName = ''pod-'' @ host,
     is_PeerHashes = fmap_of_list [(''b'', \<lparr>ip_Hash = ''x'', ip_ObservedAt = []\<rparr>)]\<rparr>"
  by (simp_all add: demo_tick_def)

lemma demo_fair: "fair_tick demo_tick"
  by (simp add: fair_tick_def demo_tick_def)

lemma demo_rater:
  "tk_Discover demo_tick (rt_agentSet (NewRater demo_options)) ''a'' = Some [''h1'', ''h2'']"
  "fmlookup (rt_buffers (NewRater demo_options)) ''a'' = Some NewAgentDeployBuffers"
  "op_IntrospectScraper (rt_opts (NewRater demo_options))"
  "fmlookup (rt_peerHashes (NewRater demo_options)) ''a'' = Some newPeerHashCache"
  by (simp_all add: NewRater_def demo_options_def Let_def new_agent_def demo_tick_def)

theorem tick_records_each_pod_once_witness:
  "\<exists>r b. scrapeOneAgentDeploy (\<lambda>_. None) demo_tick ''a'' (NewRater demo_options) = Some r \<and>
         fmlookup (rt_buffers r) ''a'' = Some b \<and>
         Samples_of ''h1'' b = [demo_pod_sample 60 7] \<and> Samples_of ''h2'' b = []"
proof -
  have "after_tick demo_tick [''h1'', ''h2''] ''h1'' [] = [demo_pod_sample 60 7]"
      "after_tick demo_tick [''h1'', ''h2''] ''h2'' [] = []"
      "Samples_of pod NewAgentDeployBuffers = []" for pod
    by (simp_all add: after_tick_def demo_tick_def demo_pod_sample_def second_def Samples_of_def NewAgentDeployBuffers_def)
  then show ?thesis
    using tick_records_each_pod_once [OF NewRater_ok demo_fair demo_rater(1) _ _ demo_rater(2), of "\<lambda>_. None"] by auto
qed

theorem drift_reports_live_pods_only_witness:
  "let r = the (scrapeOneAgentDeploy (\<lambda>_. None) demo_tick ''a'' (NewRater demo_options));
       r2 = the (scrapeOneAgentDeploy (\<lambda>_. None) (demo_tick\<lparr>tk_Discover := (\<lambda>_ _. Some [])\<rparr>) ''a'' r);
       reported = (\<lambda>r. ReportedHashes (the (fmlookup (projr (GetPeerCardDrift ''a'' r)) ''b'')))
   in (\<exists>c host. fmlookup (rt_peerHashes r) ''a'' = Some c \<and> host \<in> {''h1'', ''h2''} \<and>
         fmlookup (reported r) ''pod-h2'' \<noteq> None \<and> fmlookup (ph_hostToPod c) host = Some ''pod-h2'') \<and>
      reported r2 = reported r"
proof -
  define c where "c = fold (introspect_pod (\<lambda>_. None) demo_tick) [''h2'', ''h1''] (cache_prune [''h1'', ''h2''] newPeerHashCache)"
  obtain r where r: "scrapeOneAgentDeploy (\<lambda>_. None) demo_tick ''a'' (NewRater demo_options) = Some r"
      "rt_opts r = rt_opts (NewRater demo_options)" "fmlookup (rt_buffers r) ''a'' \<noteq> None" "fmlookup (rt_peerHashes r) ''a'' = Some c"
  proof (rule scrapeOne_cases [OF NewRater_ok demo_fair demo_rater(1) _ _ demo_rater(2), of "\<lambda>_. None"])
    fix r b
    assume "scrapeOneAgentDeploy (\<lambda>_. None) demo_tick ''a'' (NewRater demo_options) = Some r"
      "rt_opts r = rt_opts (NewRater demo_options)" "rt_buffers r = fmupd ''a'' b (rt_buffers (NewRater demo_options))"
      "\<And>ad'. fmlookup (rt_peerHashes r) ad' =
         fmlookup (rt_peerHashes (scrapeIntrospectOnce (\<lambda>_. None) demo_tick ''a'' [''h1'', ''h2''] (NewRater demo_options))) ad'"
    then show thesis
      using demo_rater(3,4) by (intro that [of r]) (simp_all add: c_def demo_tick_sels)
  qed simp_all
  have peers: "managed_peer_names (op_AgentSetObject (rt_opts r)) ''a'' = [''b'']"
    by (simp add: r(2) managed_peer_names_def NewRater_def demo_options_def Let_def ComputeTopology_def peersExcluding_def
        managed_peer_def new_agent_def)
  obtain drifts d where d: "GetPeerCardDrift ''a'' r = Inr drifts" "fmlookup drifts ''b'' = Some d" "ReportedHashes d = reportedByPeer ''b'' c"
    using r(3,4) by (auto simp: GetPeerCardDrift_def peers peer_drift_def Let_def)
  have "fmlookup (reportedByPeer ''b'' c) ''pod-h2'' \<noteq> None"
    by (simp add: c_def reportedByPeer_def introspect_pod_def demo_tick_sels cache_set_def cache_prune_def newPeerHashCache_def Let_def)
  then obtain h where h: "fmlookup (ReportedHashes d) ''pod-h2'' = Some h"
    using d(3) by auto
  have live: "\<exists>c' host. fmlookup (rt_peerHashes r) ''a'' = Some c' \<and> host \<in> set [''h1'', ''h2''] \<and> fmlookup (ph_hostToPod c') host = Some ''pod-h2''"
    using drift_reports_live_pods_only [OF NewRater_ok demo_fair demo_rater(3) r(1) d(1)] d(2) h unfolding demo_rater(1) by simp blast
  define quiet where "quiet = demo_tick\<lparr>tk_Discover := (\<lambda>_ _. Some [])\<rparr>"
  have quiet: "fair_tick quiet" "tk_Discover quiet s ad = Some []" "tk_AgentCard quiet u = None" for s ad u
    using demo_fair by (simp_all add: quiet_def fair_tick_def demo_tick_def)
  obtain r2 where r2: "scrapeOneAgentDeploy (\<lambda>_. None) quiet ''a'' r = Some r2"
    by (simp add: scrapeOneAgentDeploy_def Let_def quiet)
  obtain drifts2 where d2: "GetPeerCardDrift ''a'' r2 = Inr drifts2"
    using scrapeOne_frame(2) [OF r2] r(3) by (auto simp: GetPeerCardDrift_def Let_def)
  have "rater_ok r"
    using scrapeOne_ok [OF NewRater_ok demo_fair demo_rater(1) _ _ demo_rater(2) r(1)] by simp
  then have "map_option ReportedHashes (fmlookup drifts2 ''b'') = map_option ReportedHashes (fmlookup drifts ''b'')"
    using drift_reports_live_pods_only [OF _ quiet(1) _ r2 d2] demo_rater(3) d(1) r(2) by (simp add: quiet(2))
  then have "ReportedHashes (the (fmlookup drifts2 ''b'')) = ReportedHashes d"
    using d(2) by auto
  then show ?thesis
    using r d h live r2 d2 by (auto simp: Let_def quiet_def)
qed

end
