(* ===== verification/PodSpecs.thy ===== *)
theory PodSpecs
  imports AgentTypes Decimal
begin

text \<open>
  \<open>pod_spec.go\<close> and the defaults of \<open>config.go\<close>: the pod an AgentDeploy renders.  The text of the
  encoded AgentDeploy and the YAML reader of the configured resources are arguments; a panic is
  \<open>None\<close>.  A container's probes, ports and mounts carry the fields this code sets.
\<close>

section \<open>Probe defaults\<close>

definition DefaultAgentReadinessInitialDelaySec :: int where "DefaultAgentReadinessInitialDelaySec = 1"
definition DefaultAgentReadinessPeriodSec :: int where "DefaultAgentReadinessPeriodSec = 10"
definition DefaultAgentReadinessTimeoutSec :: int where "DefaultAgentReadinessTimeoutSec = 2"
definition DefaultAgentReadinessFailureThreshold :: int where "DefaultAgentReadinessFailureThreshold = 3"
definition DefaultAgentReadinessSuccessThreshold :: int where "DefaultAgentReadinessSuccessThreshold = 1"
definition DefaultAgentLivenessInitialDelaySec :: int where "DefaultAgentLivenessInitialDelaySec = 30"
definition DefaultAgentLivenessPeriodSec :: int where "DefaultAgentLivenessPeriodSec = 15"
definition DefaultAgentLivenessTimeoutSec :: int where "DefaultAgentLivenessTimeoutSec = 3"
definition DefaultAgentLivenessFailureThreshold :: int where "DefaultAgentLivenessFailureThreshold = 6"
definition DefaultAgentLivenessSuccessThreshold :: int where "DefaultAgentLivenessSuccessThreshold = 1"
definition DefaultAgentStartupInitialDelaySec :: int where "DefaultAgentStartupInitialDelaySec = 1"
definition DefaultAgentStartupPeriodSec :: int where "DefaultAgentStartupPeriodSec = 5"
definition DefaultAgentStartupTimeoutSec :: int where "DefaultAgentStartupTimeoutSec = 2"
definition DefaultAgentStartupFailureThreshold :: int where "DefaultAgentStartupFailureThreshold = 30"
definition DefaultAgentStartupSuccessThreshold :: int where "DefaultAgentStartupSuccessThreshold = 1"
definition DefaultBrokerReadinessInitialDelaySec :: int where "DefaultBrokerReadinessInitialDelaySec = 1"
definition DefaultBrokerReadinessPeriodSec :: int where "DefaultBrokerReadinessPeriodSec = 10"
definition DefaultBrokerReadinessTimeoutSec :: int where "DefaultBrokerReadinessTimeoutSec = 2"
definition DefaultBrokerReadinessFailureThreshold :: int where "DefaultBrokerReadinessFailureThreshold = 3"
definition DefaultBrokerReadinessSuccessThreshold :: int where "DefaultBrokerReadinessSuccessThreshold = 1"
definition DefaultBrokerLivenessInitialDelaySec :: int where "DefaultBrokerLivenessInitialDelaySec = 30"
definition DefaultBrokerLivenessPeriodSec :: int where "DefaultBrokerLivenessPeriodSec = 15"
definition DefaultBrokerLivenessTimeoutSec :: int where "DefaultBrokerLivenessTimeoutSec = 3"
definition DefaultBrokerLivenessFailureThreshold :: int where "DefaultBrokerLivenessFailureThreshold = 6"
definition DefaultBrokerLivenessSuccessThreshold :: int where "DefaultBrokerLivenessSuccessThreshold = 1"

section \<open>Controller defaults\<close>

record DefaultConfig =
  dc_ContainerResources :: string

record config =
  conf_Defaults :: "DefaultConfig option"

text \<open>A nil \<open>*GlobalConfig\<close> is \<open>None\<close>; the lock guards a single pointer read.\<close>

definition GetDefaults :: "config option \<Rightarrow> DefaultConfig" where
"GetDefaults g =
   (case g of
      None \<Rightarrow> \<lparr>dc_ContainerResources = []\<rparr>
    | Some conf \<Rightarrow> (case conf_Defaults conf of None \<Rightarrow> \<lparr>dc_ContainerResources = []\<rparr> | Some d \<Rightarrow> d))"

definition GetDefaultContainerResources ::
  "(string \<Rightarrow> ResourceRequirements option) \<Rightarrow> DefaultConfig \<Rightarrow> ResourceRequirements option" where
"GetDefaultContainerResources unmarshal dc =
   (if dc_ContainerResources dc = []
    then Some \<lparr>rr_Requests = fmap_of_list [(''cpu'', ''100m''), (''memory'', ''128Mi'')],
               rr_Limits = fmempty, rr_Claims = []\<rparr>
    else unmarshal (dc_ContainerResources dc))"

section \<open>Environment and mounts\<close>

definition field_env :: "string \<Rightarrow> string \<Rightarrow> EnvVar" where
"field_env n path = \<lparr>ev_Name = n, ev_Value = [], ev_ValueFrom = Some (FieldRef path)\<rparr>"

definition value_env :: "string \<Rightarrow> string \<Rightarrow> EnvVar" where
"value_env n v = \<lparr>ev_Name = n, ev_Value = v, ev_ValueFrom = None\<rparr>"

definition commonEnv :: "AgentDeploy \<Rightarrow> EnvVar list" where
"commonEnv ad =
   [field_env EnvNamespace ''metadata.namespace'',
    field_env EnvPodName ''metadata.name'',
    value_env EnvAgentSetName (ads_AgentSetName (ad_Spec ad)),
    value_env EnvAgentDeployName (aad_Name (ad_agent ad))]"

text \<open>The map from names to overrides keeps the last entry of a name.\<close>

definition override_by_name :: "EnvVar list \<Rightarrow> string \<Rightarrow> EnvVar option" where
"override_by_name overrides n = find (\<lambda>v. ev_Name v = n) (rev overrides)"

definition mergeEnv :: "EnvVar list \<Rightarrow> EnvVar list \<Rightarrow> EnvVar list" where
"mergeEnv existing overrides =
   map (\<lambda>e. case override_by_name overrides (ev_Name e) of Some v \<Rightarrow> v | None \<Rightarrow> e) existing @
   filter (\<lambda>v. ev_Name v \<notin> ev_Name ` set existing) overrides"

definition applyCommonEnv :: "AgentDeploy \<Rightarrow> CoreContainer list \<Rightarrow> CoreContainer list" where
"applyCommonEnv ad = map (\<lambda>c. c\<lparr>c_Env := mergeEnv (c_Env c) (commonEnv ad)\<rparr>)"

definition kynomeshRunVolume :: Volume where
"kynomeshRunVolume = \<lparr>vol_Name = VolumeNameKynomeshRun, vol_Source = EmptyDirMemory\<rparr>"

definition kynomeshRunMount :: VolumeMount where
"kynomeshRunMount = \<lparr>vm_Name = VolumeNameKynomeshRun, vm_MountPath = KynomeshRunPath\<rparr>"

definition appendMountIfAbsent :: "VolumeMount list \<Rightarrow> VolumeMount \<Rightarrow> VolumeMount list" where
"appendMountIfAbsent mounts m = (if list_ex (\<lambda>e. vm_Name e = vm_Name m) mounts then mounts else mounts @ [m])"

definition applyRunVolMount :: "CoreContainer list \<Rightarrow> CoreContainer list" where
"applyRunVolMount = map (\<lambda>c. c\<lparr>c_VolumeMounts := appendMountIfAbsent (c_VolumeMounts c) kynomeshRunMount\<rparr>)"

section \<open>Containers\<close>

definition brokerDrainExec :: "string list" where
"brokerDrainExec = [KynomeshBinaryPath, ''drain'']"

definition agentProbeExec :: "string list" where
"agentProbeExec = [ProbeBinaryPath, ''--mode=grpc'', ''--socket='' @ BrokerGRPCSocketPath]"

definition agentReadinessProbe :: "Probe option \<Rightarrow> CoreProbe" where
"agentReadinessProbe spec =
   \<lparr>pr_Handler = ExecAction agentProbeExec,
    pr_InitialDelaySeconds = GetProbeInitialDelaySecondsOr spec DefaultAgentReadinessInitialDelaySec,
    pr_PeriodSeconds = GetProbePeriodSecondsOr spec DefaultAgentReadinessPeriodSec,
    pr_TimeoutSeconds = GetProbeTimeoutSecondsOr spec DefaultAgentReadinessTimeoutSec,
    pr_FailureThreshold = GetProbeFailureThresholdOr spec DefaultAgentReadinessFailureThreshold,
    pr_SuccessThreshold = GetProbeSuccessThresholdOr spec DefaultAgentReadinessSuccessThreshold\<rparr>"

definition agentLivenessProbe :: "Probe option \<Rightarrow> CoreProbe" where
"agentLivenessProbe spec =
   \<lparr>pr_Handler = ExecAction agentProbeExec,
    pr_InitialDelaySeconds = GetProbeInitialDelaySecondsOr spec DefaultAgentLivenessInitialDelaySec,
    pr_PeriodSeconds = GetProbePeriodSecondsOr spec DefaultAgentLivenessPeriodSec,
    pr_TimeoutSeconds = GetProbeTimeoutSecondsOr spec DefaultAgentLivenessTimeoutSec,
    pr_FailureThreshold = GetProbeFailureThresholdOr spec DefaultAgentLivenessFailureThreshold,
    pr_SuccessThreshold = GetProbeSuccessThresholdOr spec DefaultAgentLivenessSuccessThreshold\<rparr>"

definition agentStartupProbe :: "Probe option \<Rightarrow> CoreProbe" where
"agentStartupProbe spec =
   \<lparr>pr_Handler = ExecAction agentProbeExec,
    pr_InitialDelaySeconds = GetProbeInitialDelaySecondsOr spec DefaultAgentStartupInitialDelaySec,
    pr_PeriodSeconds = GetProbePeriodSecondsOr spec DefaultAgentStartupPeriodSec,
    pr_TimeoutSeconds = GetProbeTimeoutSecondsOr spec DefaultAgentStartupTimeoutSec,
    pr_FailureThreshold = GetProbeFailureThresholdOr spec DefaultAgentStartupFailureThreshold,
    pr_SuccessThreshold = GetProbeSuccessThresholdOr spec DefaultAgentStartupSuccessThreshold\<rparr>"

text \<open>Copying the user's container, and the probe settings that go with it.\<close>

definition newAgentContainer :: "AgentDeploy \<Rightarrow> CoreContainer" where
"newAgentContainer ad =
   (let src = aad_Container (ad_agent ad);
        c = new_container ContainerNameAgent;
        (c, readinessSpec, livenessSpec, startupSpec) =
          (case src of
             None \<Rightarrow> (c, None, None, None)
           | Some s \<Rightarrow>
               (c\<lparr>c_Image := uc_Image s, c_Command := uc_Command s, c_Args := uc_Args s, c_Env := uc_Env s,
                  c_EnvFrom := uc_EnvFrom s, c_VolumeMounts := uc_VolumeMounts s, c_Resources := uc_Resources s,
                  c_SecurityContext := uc_SecurityContext s,
                  c_ImagePullPolicy := (case uc_ImagePullPolicy s of None \<Rightarrow> c_ImagePullPolicy c | Some p \<Rightarrow> p),
                  c_Ports := uc_Ports s\<rparr>,
                uc_ReadinessProbe s, uc_LivenessProbe s, uc_StartupProbe s))
    in c\<lparr>c_ReadinessProbe := Some (agentReadinessProbe readinessSpec),
         c_LivenessProbe := Some (agentLivenessProbe livenessSpec),
         c_StartupProbe := Some (agentStartupProbe startupSpec),
         c_RestartPolicy := Some ''Always''\<rparr>)"

definition brokerHTTPGet :: "string \<Rightarrow> ProbeHandler" where
"brokerHTTPGet path = HTTPGetAction path ''introspect'' ''HTTPS''"

definition brokerReadinessProbe :: CoreProbe where
"brokerReadinessProbe =
   \<lparr>pr_Handler = brokerHTTPGet ''/readyz'',
    pr_InitialDelaySeconds = DefaultBrokerReadinessInitialDelaySec,
    pr_PeriodSeconds = DefaultBrokerReadinessPeriodSec,
    pr_TimeoutSeconds = DefaultBrokerReadinessTimeoutSec,
    pr_FailureThreshold = DefaultBrokerReadinessFailureThreshold,
    pr_SuccessThreshold = DefaultBrokerReadinessSuccessThreshold\<rparr>"

definition brokerLivenessProbe :: CoreProbe where
"brokerLivenessProbe =
   \<lparr>pr_Handler = brokerHTTPGet ''/healthz'',
    pr_InitialDelaySeconds = DefaultBrokerLivenessInitialDelaySec,
    pr_PeriodSeconds = DefaultBrokerLivenessPeriodSec,
    pr_TimeoutSeconds = DefaultBrokerLivenessTimeoutSec,
    pr_FailureThreshold = DefaultBrokerLivenessFailureThreshold,
    pr_SuccessThreshold = DefaultBrokerLivenessSuccessThreshold\<rparr>"

definition apply_template :: "ContainerTemplate option \<Rightarrow> CoreContainer \<Rightarrow> CoreContainer" where
"apply_template tmpl c = (case tmpl of None \<Rightarrow> c | Some t \<Rightarrow> ApplyToContainer t c)"

definition newBrokerContainer ::
  "string \<Rightarrow> string \<Rightarrow> string \<Rightarrow> ContainerTemplate option \<Rightarrow> int \<Rightarrow> ResourceRequirements \<Rightarrow> CoreContainer" where
"newBrokerContainer img pullPolicy encodedAgentDeploy tmpl graceSeconds defaultResources =
   ApplyDefaultResourcesIfMissing defaultResources (apply_template tmpl
     ((new_container ContainerNameAgentBroker)\<lparr>
        c_Image := img, c_ImagePullPolicy := pullPolicy, c_Args := [''broker''],
        c_Env := [value_env EnvAgentDeployObject encodedAgentDeploy,
                  value_env EnvTerminationGraceSeconds (itoa graceSeconds)],
        c_Ports := [\<lparr>cp_Name = ''broker'', cp_ContainerPort = AgentBrokerPort, cp_Protocol = ''TCP''\<rparr>,
                    \<lparr>cp_Name = ''introspect'', cp_ContainerPort = AgentBrokerIntrospectionPort, cp_Protocol = ''TCP''\<rparr>],
        c_ReadinessProbe := Some brokerReadinessProbe,
        c_LivenessProbe := Some brokerLivenessProbe,
        c_PreStop := Some brokerDrainExec\<rparr>))"

definition newInitRuntimeContainer ::
  "string \<Rightarrow> string \<Rightarrow> string \<Rightarrow> ContainerTemplate option \<Rightarrow> ResourceRequirements \<Rightarrow> CoreContainer" where
"newInitRuntimeContainer img pullPolicy encodedAgentDeploy tmpl defaultResources =
   ApplyDefaultResourcesIfMissing defaultResources (apply_template tmpl
     ((new_container ContainerNameInitRuntime)\<lparr>
        c_Image := img, c_ImagePullPolicy := pullPolicy, c_Args := [''init-runtime''],
        c_Env := [value_env EnvAgentDeployObject encodedAgentDeploy]\<rparr>))"

section \<open>The pod\<close>

text \<open>\<open>applyRunVolMount\<close> on a sub-slice updates those elements of the slice.\<close>

definition mount_first :: "CoreContainer list \<Rightarrow> CoreContainer list" where
"mount_first cs = applyRunVolMount (take 1 cs) @ drop 1 cs"

definition mount_last :: "CoreContainer list \<Rightarrow> CoreContainer list" where
"mount_last cs = take (length cs - 1) cs @ applyRunVolMount (drop (length cs - 1) cs)"

definition pod_grace :: "AgentDeploy \<Rightarrow> int" where
"pod_grace ad =
   (case apt_TerminationGracePeriodSeconds (aad_PodTemplate (ad_agent ad)) of
      None \<Rightarrow> DefaultTerminationGracePeriodSeconds
    | Some g \<Rightarrow> g)"

definition buildPodSpec ::
  "(AgentDeploy \<Rightarrow> string) \<Rightarrow> AgentDeploy \<Rightarrow> string \<Rightarrow> string \<Rightarrow> ResourceRequirements \<Rightarrow> PodSpec" where
"buildPodSpec marshal ad img imagePullPolicy defaultResources =
   (let encodedAgentDeploy = EncodeAgentDeploy marshal ad;
        grace = pod_grace ad;
        containers = newBrokerContainer img imagePullPolicy encodedAgentDeploy
                       (aad_BrokerContainer (ad_agent ad)) grace defaultResources # aad_Sidecars (ad_agent ad);
        initContainers = [newInitRuntimeContainer img imagePullPolicy encodedAgentDeploy
                            (aad_InitContainer (ad_agent ad)) defaultResources] @
                         aad_InitContainers (ad_agent ad) @ [newAgentContainer ad];
        ps = new_pod_spec\<lparr>ps_Containers := containers, ps_InitContainers := initContainers,
               ps_Volumes := kynomeshRunVolume # aad_Volumes (ad_agent ad),
               ps_Subdomain := HeadlessServiceName ad\<rparr>;
        ps = ApplyToPodSpec (aad_PodTemplate (ad_agent ad)) ps;
        ps = (if ps_TerminationGracePeriodSeconds ps = None
              then ps\<lparr>ps_TerminationGracePeriodSeconds := Some grace\<rparr> else ps);
        ps = ps\<lparr>ps_Containers := applyCommonEnv ad (ps_Containers ps)\<rparr>;
        ps = ps\<lparr>ps_InitContainers := applyCommonEnv ad (ps_InitContainers ps)\<rparr>;
        ps = ps\<lparr>ps_Containers := mount_first (ps_Containers ps)\<rparr>;
        ps = ps\<lparr>ps_InitContainers := mount_first (ps_InitContainers ps)\<rparr>
    in ps\<lparr>ps_InitContainers := mount_last (ps_InitContainers ps)\<rparr>)"

section \<open>Lemmas\<close>

lemma env_name [simp]: "ev_Name (field_env n p) = n" "ev_Name (value_env n v) = n"
  by (simp_all add: field_env_def value_env_def)

lemma commonEnv_names:
  "map ev_Name (commonEnv ad) = [EnvNamespace, EnvPodName, EnvAgentSetName, EnvAgentDeployName]"
  by (simp add: commonEnv_def)

lemma commonEnv_distinct: "distinct (map ev_Name (commonEnv ad))"
  unfolding commonEnv_names by (simp add: EnvNamespace_def EnvPodName_def EnvAgentSetName_def EnvAgentDeployName_def)

lemma override_by_name_None: "override_by_name vs n = None \<longleftrightarrow> n \<notin> ev_Name ` set vs"
  by (auto simp: override_by_name_def find_None_iff)

lemma override_by_name_Some:
  assumes "distinct (map ev_Name vs)"
  shows "override_by_name vs n = Some v \<longleftrightarrow> v \<in> set vs \<and> ev_Name v = n"
  using assms
proof (induction vs)
  case (Cons a vs)
  have "override_by_name (a # vs) n =
      (case override_by_name vs n of None \<Rightarrow> (if ev_Name a = n then Some a else None) | Some x \<Rightarrow> Some x)"
    by (simp add: override_by_name_def find_append split: option.split)
  then show ?case
    using Cons override_by_name_None [of vs n] by (cases "override_by_name vs n") (auto simp: image_iff)
qed (simp add: override_by_name_def)

text \<open>After a merge, the entries that carry an override's name are copies of that override.\<close>

lemma mergeEnv_override:
  assumes "distinct (map ev_Name vs)" "v \<in> set vs"
  shows "v \<in> set (mergeEnv es vs)" and "e \<in> set (mergeEnv es vs) \<Longrightarrow> ev_Name e = ev_Name v \<Longrightarrow> e = v"
proof -
  have ov: "override_by_name vs (ev_Name v) = Some v"
    using assms by (simp add: override_by_name_Some)
  then show "v \<in> set (mergeEnv es vs)"
    using assms(2) by (auto simp: mergeEnv_def image_iff) (metis (no_types, lifting) option.simps(5))
  show "e = v" if "e \<in> set (mergeEnv es vs)" "ev_Name e = ev_Name v"
    using that assms ov by (auto simp: mergeEnv_def override_by_name_Some override_by_name_None
        inj_on_def distinct_map split: option.splits) (metis imageI)
qed

lemma appendMount_present: "\<exists>m \<in> set (appendMountIfAbsent ms m0). vm_Name m = vm_Name m0"
  by (auto simp: appendMountIfAbsent_def list_ex_iff)

lemma mount_first_Cons [simp]:
  "mount_first (c # cs) = c\<lparr>c_VolumeMounts := appendMountIfAbsent (c_VolumeMounts c) kynomeshRunMount\<rparr> # cs"
  by (simp add: mount_first_def applyRunVolMount_def)

lemma mount_last_snoc [simp]:
  "mount_last (cs @ [c]) = cs @ [c\<lparr>c_VolumeMounts := appendMountIfAbsent (c_VolumeMounts c) kynomeshRunMount\<rparr>]"
  by (simp add: mount_last_def applyRunVolMount_def)

lemma applyCommonEnv_simps [simp]:
  "applyCommonEnv ad [] = []"
  "applyCommonEnv ad (c # cs) = c\<lparr>c_Env := mergeEnv (c_Env c) (commonEnv ad)\<rparr> # applyCommonEnv ad cs"
  "applyCommonEnv ad (xs @ ys) = applyCommonEnv ad xs @ applyCommonEnv ad ys"
  by (simp_all add: applyCommonEnv_def)

abbreviation finish :: "AgentDeploy \<Rightarrow> CoreContainer \<Rightarrow> CoreContainer" where
"finish ad c \<equiv> c\<lparr>c_Env := mergeEnv (c_Env c) (commonEnv ad),
                 c_VolumeMounts := appendMountIfAbsent (c_VolumeMounts c) kynomeshRunMount\<rparr>"

lemma buildPodSpec_containers:
  "ps_Containers (buildPodSpec marshal ad img pull res) =
     finish ad (newBrokerContainer img pull (EncodeAgentDeploy marshal ad)
                  (aad_BrokerContainer (ad_agent ad)) (pod_grace ad) res) #
     applyCommonEnv ad (aad_Sidecars (ad_agent ad))"
  "ps_InitContainers (buildPodSpec marshal ad img pull res) =
     finish ad (newInitRuntimeContainer img pull (EncodeAgentDeploy marshal ad)
                  (aad_InitContainer (ad_agent ad)) res) #
     applyCommonEnv ad (aad_InitContainers (ad_agent ad)) @ [finish ad (newAgentContainer ad)]"
  "ps_Volumes (buildPodSpec marshal ad img pull res) = kynomeshRunVolume # aad_Volumes (ad_agent ad)"
  "ps_TerminationGracePeriodSeconds (buildPodSpec marshal ad img pull res) = Some (pod_grace ad)"
proof -
  have [simp]: "mount_last (c # cs @ [d]) =
      c # cs @ [d\<lparr>c_VolumeMounts := appendMountIfAbsent (c_VolumeMounts d) kynomeshRunMount\<rparr>]" for c cs d
    using mount_last_snoc [of "c # cs"] by simp
  show "ps_Containers (buildPodSpec marshal ad img pull res) =
     finish ad (newBrokerContainer img pull (EncodeAgentDeploy marshal ad)
                  (aad_BrokerContainer (ad_agent ad)) (pod_grace ad) res) #
     applyCommonEnv ad (aad_Sidecars (ad_agent ad))"
    "ps_InitContainers (buildPodSpec marshal ad img pull res) =
     finish ad (newInitRuntimeContainer img pull (EncodeAgentDeploy marshal ad)
                  (aad_InitContainer (ad_agent ad)) res) #
     applyCommonEnv ad (aad_InitContainers (ad_agent ad)) @ [finish ad (newAgentContainer ad)]"
    "ps_Volumes (buildPodSpec marshal ad img pull res) = kynomeshRunVolume # aad_Volumes (ad_agent ad)"
    "ps_TerminationGracePeriodSeconds (buildPodSpec marshal ad img pull res) = Some (pod_grace ad)"
    by (simp_all add: buildPodSpec_def Let_def ApplyToPodSpec_def new_pod_spec_def or_opt_def pod_grace_def
        split: option.split)
qed

lemma container_template_fields:
  "c_Name (apply_template t c) = c_Name c" "c_Name (ApplyDefaultResourcesIfMissing d c) = c_Name c"
  "set (c_Env c) \<subseteq> set (c_Env (apply_template t c))" "c_Env (ApplyDefaultResourcesIfMissing d c) = c_Env c"
  by (auto simp: apply_template_def ApplyToContainer_def ApplyDefaultResourcesIfMissing_def split: option.splits)

lemma new_container_names:
  "c_Name (newBrokerContainer img pull enc t g res) = ContainerNameAgentBroker"
  "c_Name (newInitRuntimeContainer img pull enc t res) = ContainerNameInitRuntime"
  "c_Name (newAgentContainer ad) = ContainerNameAgent"
  by (simp_all add: newBrokerContainer_def newInitRuntimeContainer_def newAgentContainer_def container_template_fields
      new_container_def Let_def split: option.split)

text \<open>Of several entries with one name a container sees the last.\<close>

definition effective_env :: "string \<Rightarrow> EnvVar list \<Rightarrow> EnvVar option" where
"effective_env n env = find (\<lambda>e. ev_Name e = n) (rev env)"

lemma find_map_same: "(\<And>x. P (f x) = P x) \<Longrightarrow> (\<And>x. P x \<Longrightarrow> f x = x) \<Longrightarrow> find P (map f xs) = find P xs"
  by (induction xs) simp_all

lemma effective_env_mergeEnv:
  assumes "n \<notin> ev_Name ` set vs"
  shows "effective_env n (mergeEnv es vs) = effective_env n es"
proof -
  define f where "f = (\<lambda>e. case override_by_name vs (ev_Name e) of Some v \<Rightarrow> v | None \<Rightarrow> e)"
  have kept: "ev_Name (f e) = ev_Name e" for e
    by (auto simp: f_def override_by_name_def find_Some_iff split: option.split)
  have "f e = e" if "ev_Name e = n" for e
    using assms that override_by_name_None [of vs "ev_Name e"] by (simp add: f_def)
  then have "find (\<lambda>e. ev_Name e = n) (map f (rev es)) = find (\<lambda>e. ev_Name e = n) (rev es)"
    by (intro find_map_same) (simp_all add: kept)
  moreover have "find (\<lambda>e. ev_Name e = n) (rev (filter (\<lambda>v. ev_Name v \<notin> ev_Name ` set es) vs)) = None"
    using assms by (auto simp: find_None_iff)
  ultimately show ?thesis
    by (simp add: effective_env_def mergeEnv_def f_def [symmetric] find_append rev_map)
qed

lemma broker_grace_env:
  "effective_env EnvTerminationGraceSeconds (c_Env (newBrokerContainer img pull enc t g res)) =
   Some (case Option.bind t (\<lambda>t. effective_env EnvTerminationGraceSeconds (ct_Env t)) of
           Some e \<Rightarrow> e
         | None \<Rightarrow> value_env EnvTerminationGraceSeconds (itoa g))"
  by (cases t) (auto simp: newBrokerContainer_def container_template_fields(4) apply_template_def ApplyToContainer_def
      new_container_def effective_env_def find_append split: option.splits)

lemma applyCommonEnv_names [simp]: "map c_Name (applyCommonEnv ad cs) = map c_Name cs"
  by (simp add: applyCommonEnv_def)

section \<open>Properties\<close>

text \<open>A deploy whose agent and sidecar try to set the controller's variables.\<close>

definition demo_deploy :: AgentDeploy where
"demo_deploy =
   \<lparr>ad_Meta = new_meta ''ns'' ''set-a'',
    ad_Spec = \<lparr>ads_Agent = (new_agent ''a'')\<lparr>
                 aad_Sidecars := [(new_container ''s'')\<lparr>c_Env := [value_env ''POD_NAME'' ''mine'', value_env ''X'' ''1'']\<rparr>]\<rparr>,
               ads_AgentSetName = ''set'', ads_Replicas = None, ads_Topology = zero_topology\<rparr>,
    ad_Status = zero_status\<rparr>"

text \<open>
  C9. The controller's environment cannot be shadowed.  In every container of a rendered pod,
  user containers included, each of the controller's variables is present, and every entry with
  its name is the controller's.
\<close>

theorem pod_env_not_shadowed:
  assumes "ps = buildPodSpec marshal ad img pull res"
    and "c \<in> set (ps_Containers ps @ ps_InitContainers ps)" "v \<in> set (commonEnv ad)"
  shows "v \<in> set (c_Env c) \<and> (\<forall>e \<in> set (c_Env c). ev_Name e = ev_Name v \<longrightarrow> e = v)"
proof -
  obtain es where "c_Env c = mergeEnv es (commonEnv ad)"
    using assms(1,2) by (auto simp: buildPodSpec_containers applyCommonEnv_def)
  then show ?thesis
    using mergeEnv_override [OF commonEnv_distinct assms(3)] by simp
qed

theorem pod_env_not_shadowed_witness:
  "\<exists>c \<in> set (ps_Containers (buildPodSpec (\<lambda>_. ''enc'') demo_deploy ''img'' [] no_resources)).
     c_Name c = ''s'' \<and> field_env EnvPodName ''metadata.name'' \<in> set (c_Env c) \<and> value_env ''POD_NAME'' ''mine'' \<notin> set (c_Env c)"
proof -
  define ps where "ps = buildPodSpec (\<lambda>_. ''enc'') demo_deploy ''img'' [] no_resources"
  define c where "c = hd (applyCommonEnv demo_deploy (aad_Sidecars (ad_agent demo_deploy)))"
  have c: "c \<in> set (ps_Containers ps @ ps_InitContainers ps)" "c \<in> set (ps_Containers ps)" "c_Name c = ''s''"
    by (simp_all add: c_def ps_def buildPodSpec_containers) (simp_all add: demo_deploy_def new_container_def)
  have "field_env EnvPodName ''metadata.name'' \<in> set (commonEnv demo_deploy)"
    by (simp add: commonEnv_def)
  from pod_env_not_shadowed [OF ps_def c(1) this] c(2,3) show ?thesis
    unfolding ps_def [symmetric] by (intro bexI [of _ c]) (auto simp: field_env_def value_env_def EnvPodName_def)
qed

text \<open>
  C34. The shape of a rendered pod.  The broker is the first container, the runtime initialiser the
  first and the agent the last init container, with the user's in between in their order; these
  three mount the run volume, which is declared first.  The pod's grace period is set, and it is the
  one the broker's drain is told, unless the user's broker template has an entry for that variable:
  then the template's last entry is in force, whatever the grace period is.
\<close>

theorem rendered_pod_shape:
  assumes "ps = buildPodSpec marshal ad img pull res"
  shows "map c_Name (ps_Containers ps) = ContainerNameAgentBroker # map c_Name (aad_Sidecars (ad_agent ad)) \<and>
    map c_Name (ps_InitContainers ps) =
      ContainerNameInitRuntime # map c_Name (aad_InitContainers (ad_agent ad)) @ [ContainerNameAgent] \<and>
    (\<forall>c \<in> {hd (ps_Containers ps), hd (ps_InitContainers ps), last (ps_InitContainers ps)}.
       \<exists>m \<in> set (c_VolumeMounts c). vm_Name m = vol_Name (hd (ps_Volumes ps))) \<and>
    (\<exists>g. ps_TerminationGracePeriodSeconds ps = Some g \<and>
       effective_env EnvTerminationGraceSeconds (c_Env (hd (ps_Containers ps))) =
         Some (case Option.bind (aad_BrokerContainer (ad_agent ad))
                      (\<lambda>t. effective_env EnvTerminationGraceSeconds (ct_Env t)) of
                 Some e \<Rightarrow> e
               | None \<Rightarrow> value_env EnvTerminationGraceSeconds (itoa g)))"
proof (intro conjI)
  show "map c_Name (ps_Containers ps) = ContainerNameAgentBroker # map c_Name (aad_Sidecars (ad_agent ad))"
    "map c_Name (ps_InitContainers ps) =
       ContainerNameInitRuntime # map c_Name (aad_InitContainers (ad_agent ad)) @ [ContainerNameAgent]"
    unfolding assms by (simp_all add: buildPodSpec_containers new_container_names)
  show "\<forall>c \<in> {hd (ps_Containers ps), hd (ps_InitContainers ps), last (ps_InitContainers ps)}.
           \<exists>m \<in> set (c_VolumeMounts c). vm_Name m = vol_Name (hd (ps_Volumes ps))"
    unfolding assms using appendMount_present [of _ kynomeshRunMount]
    by (simp add: buildPodSpec_containers kynomeshRunVolume_def kynomeshRunMount_def)
  have "EnvTerminationGraceSeconds \<notin> ev_Name ` set (commonEnv ad)"
    using commonEnv_names [of ad, THEN arg_cong, of set]
    by (simp add: EnvTerminationGraceSeconds_def EnvNamespace_def EnvPodName_def EnvAgentSetName_def EnvAgentDeployName_def)
  then show "\<exists>g. ps_TerminationGracePeriodSeconds ps = Some g \<and>
       effective_env EnvTerminationGraceSeconds (c_Env (hd (ps_Containers ps))) =
         Some (case Option.bind (aad_BrokerContainer (ad_agent ad))
                      (\<lambda>t. effective_env EnvTerminationGraceSeconds (ct_Env t)) of
                 Some e \<Rightarrow> e
               | None \<Rightarrow> value_env EnvTerminationGraceSeconds (itoa g))"
    unfolding assms by (simp add: buildPodSpec_containers effective_env_mergeEnv broker_grace_env)
qed

text \<open>The same deploy with a broker template that sets the drain's variable.\<close>

definition demo_shadow :: AgentDeploy where
"demo_shadow = demo_deploy\<lparr>ad_Spec := (ad_Spec demo_deploy)\<lparr>ads_Agent := (ads_Agent (ad_Spec demo_deploy))\<lparr>
   aad_BrokerContainer := Some \<lparr>ct_Resources = no_resources, ct_ImagePullPolicy = [], ct_SecurityContext = None,
     ct_Env = [value_env EnvTerminationGraceSeconds ''5''], ct_EnvFrom = []\<rparr>\<rparr>\<rparr>\<rparr>"

theorem rendered_pod_shape_witness:
  "let render = (\<lambda>ad. buildPodSpec (\<lambda>_. ''enc'') ad ''img'' [] no_resources);
       drain = (\<lambda>ad. effective_env EnvTerminationGraceSeconds (c_Env (hd (ps_Containers (render ad)))))
   in map c_Name (ps_Containers (render demo_deploy)) = [''broker'', ''s''] \<and>
      (\<exists>g. ps_TerminationGracePeriodSeconds (render demo_deploy) = Some g \<and>
           drain demo_deploy = Some (value_env EnvTerminationGraceSeconds (itoa g))) \<and>
      drain demo_shadow = Some (value_env EnvTerminationGraceSeconds ''5'')"
  using rendered_pod_shape [OF refl, of "\<lambda>_. ''enc''" demo_deploy "''img''" "[]" no_resources]
    rendered_pod_shape [OF refl, of "\<lambda>_. ''enc''" demo_shadow "''img''" "[]" no_resources]
  by (simp add: Let_def demo_shadow_def demo_deploy_def new_agent_def new_container_def ContainerNameAgentBroker_def
      effective_env_def)

text \<open>
  C30. Scaling and rollout settings do not change the pod.  Two AgentDeploys with the same name and
  namespace that differ only in replicas, scaling, update strategy, drift reload, topology-neutral
  metadata and status render the same pod, so changing these never restarts one.
\<close>

theorem scaling_does_not_change_pods:
  "buildPodSpec marshal
     (ad\<lparr>ad_Meta := new_meta (om_Namespace (ad_Meta ad)) (om_Name (ad_Meta ad))\<lparr>
           om_Labels := ls, om_Annotations := as, om_Generation := gen, om_UID := uid, om_OwnerReferences := os\<rparr>,
         ad_Spec := (ad_Spec ad)\<lparr>ads_Replicas := n,
           ads_Agent := (ad_agent ad)\<lparr>aad_Scale := sc, aad_UpdateStrategy := us, aad_DriftReload := dr\<rparr>\<rparr>,
         ad_Status := st\<rparr>) img pull res =
   buildPodSpec marshal ad img pull res"
proof -
  define ad' where "ad' = ad\<lparr>ad_Meta := new_meta (om_Namespace (ad_Meta ad)) (om_Name (ad_Meta ad))\<lparr>
           om_Labels := ls, om_Annotations := as, om_Generation := gen, om_UID := uid, om_OwnerReferences := os\<rparr>,
         ad_Spec := (ad_Spec ad)\<lparr>ads_Replicas := n,
           ads_Agent := (ad_agent ad)\<lparr>aad_Scale := sc, aad_UpdateStrategy := us, aad_DriftReload := dr\<rparr>\<rparr>,
         ad_Status := st\<rparr>"
  have "EncodeAgentDeploy marshal ad' = EncodeAgentDeploy marshal ad" "commonEnv ad' = commonEnv ad"
    "newAgentContainer ad' = newAgentContainer ad" "pod_grace ad' = pod_grace ad" "HeadlessServiceName ad' = HeadlessServiceName ad"
    "applyCommonEnv ad' = applyCommonEnv ad" "aad_PodTemplate (ad_agent ad') = aad_PodTemplate (ad_agent ad)"
    "aad_BrokerContainer (ad_agent ad') = aad_BrokerContainer (ad_agent ad)" "aad_Volumes (ad_agent ad') = aad_Volumes (ad_agent ad)"
    "aad_InitContainer (ad_agent ad') = aad_InitContainer (ad_agent ad)" "aad_Sidecars (ad_agent ad') = aad_Sidecars (ad_agent ad)"
    "aad_InitContainers (ad_agent ad') = aad_InitContainers (ad_agent ad)"
    by (simp_all add: ad'_def EncodeAgentDeploy_def AgentDeploy_SimpleCopy_def commonEnv_def newAgentContainer_def
        pod_grace_def HeadlessServiceName_def applyCommonEnv_def new_meta_def)
  then have "buildPodSpec marshal ad' img pull res = buildPodSpec marshal ad img pull res"
    by (simp add: buildPodSpec_def Let_def)
  then show ?thesis
    by (simp add: ad'_def)
qed

end
