(* ===== verification/Pods.thy ===== *)
theory Pods
  imports PodSpecs Kube
begin

text \<open>
  \<open>pods.go\<close>: the pods of an AgentDeploy and their rolling update.  The pod client, the controller
  reference, the hash of a pod spec, the scaling of an int-or-percent value and the order of map
  iteration are arguments.  The random numbers of \<open>RandomString\<close> are a stream, and the state of a pass is the world together
  with the number of values drawn.  Events and logs are left out.
\<close>

section \<open>Names\<close>

definition seeds :: string where
"seeds = ''abcdefghijklmnopqrstuvwxyzABCDEFGHIJKLMNOPQRSTUVWXYZ0123456789''"

definition to_lower :: "char \<Rightarrow> char" where
"to_lower c = (if 65 \<le> (of_char c :: nat) \<and> (of_char c :: nat) \<le> 90 then char_of ((of_char c :: nat) + 32) else c)"

definition RandomString :: "(nat \<Rightarrow> nat) \<Rightarrow> nat \<Rightarrow> nat \<Rightarrow> string" where
"RandomString rnd n len = map (\<lambda>i. seeds ! (rnd i mod length seeds)) [n ..< n + len]"

definition RandomLowerCaseString :: "(nat \<Rightarrow> nat) \<Rightarrow> nat \<Rightarrow> nat \<Rightarrow> string" where
"RandomLowerCaseString rnd n len = map to_lower (RandomString rnd n len)"

definition randomSuffixLength :: nat where
"randomSuffixLength = 5"

section \<open>Pods\<close>

record PodCondition =
  pc_Type :: string
  pc_Status :: ConditionStatus

record Pod =
  pod_Meta :: ObjectMeta
  pod_Spec :: PodSpec
  pod_Conditions :: "PodCondition list"

abbreviation pod_key :: "Pod \<Rightarrow> NamespacedName" where
"pod_key p \<equiv> \<lparr>Namespace = om_Namespace (pod_Meta p), Name = om_Name (pod_Meta p)\<rparr>"

definition pod_hash :: "Pod \<Rightarrow> string" where
"pod_hash p = the_default [] (fmlookup (om_Annotations (pod_Meta p)) KeyHash)"

definition pod_slot :: "Pod \<Rightarrow> int" where
"pod_slot p = (case atoi (the_default [] (fmlookup (om_Annotations (pod_Meta p)) KeyReplica)) of None \<Rightarrow> -1 | Some i \<Rightarrow> i)"

definition live :: "Pod \<Rightarrow> bool" where
"live p \<longleftrightarrow> om_DeletionTimestamp (pod_Meta p) = None"

definition podReady :: "Pod \<Rightarrow> bool" where
"podReady p = list_ex (\<lambda>c. pc_Type c = ''Ready'' \<and> pc_Status c = ConditionTrue) (pod_Conditions p)"

definition newPod :: "OwnerReference \<Rightarrow> AgentDeploy \<Rightarrow> int \<Rightarrow> PodSpec \<Rightarrow> string \<Rightarrow> string \<Rightarrow> Pod" where
"newPod owner ad replica podSpec hash suffix =
   (let name = om_Name (ad_Meta ad) @ ''-'' @ itoa replica @ ''-'' @ suffix;
        hostname = om_Name (ad_Meta ad) @ ''-'' @ itoa replica;
        ls = fmap_of_list
          [(KeyAppName, om_Name (ad_Meta ad)),
           (KeyAgentSetName, ads_AgentSetName (ad_Spec ad)),
           (KeyAgentDeployName, aad_Name (ad_agent ad)),
           (KeyComponent, ComponentAgent),
           (KeyPartOf, Project),
           (KeyManagedBy, ControllerAgentDeploy),
           (KeyReplica, itoa replica),
           (KeyServing, ''true'')];
        ls = (if t_IsEntry (ads_Topology (ad_Spec ad)) then fmupd KeyEntry ''true'' ls else ls)
    in \<lparr>pod_Meta = (new_meta (om_Namespace (ad_Meta ad)) name)\<lparr>
            om_Labels := ls,
            om_Annotations := fmap_of_list
              [(KeyHash, hash), (KeyReplica, itoa replica), (KeyDefaultContainer, ContainerNameAgent)],
            om_OwnerReferences := [owner]\<rparr>,
        pod_Spec = podSpec\<lparr>ps_Hostname := hostname,
            ps_Subdomain := (if ps_Subdomain podSpec = [] then HeadlessServiceName ad else ps_Subdomain podSpec)\<rparr>,
        pod_Conditions = []\<rparr>)"

definition groupPodsByReplica :: "Pod list \<Rightarrow> (int, Pod list) fmap" where
"groupPodsByReplica pods =
   foldl (\<lambda>out p. fmupd (pod_slot p) (the_default [] (fmlookup out (pod_slot p)) @ [p]) out) fmempty pods"

section \<open>Replica counts\<close>

definition clampInt :: "int \<Rightarrow> int \<Rightarrow> int \<Rightarrow> int" where
"clampInt v lo hi = (if v < lo then lo else if v > hi then hi else v)"

definition atLeastOne :: "int \<Rightarrow> int" where
"atLeastOne v = (if v < 1 then 1 else v)"

definition scaleBounds :: "Scale \<Rightarrow> int \<times> int" where
"scaleBounds s =
   (let lo = (case sc_Min s of
                None \<Rightarrow> DefaultMinReplicas
              | Some m \<Rightarrow> if m > DefaultMinReplicas then m else DefaultMinReplicas);
        hi = (case sc_Max s of None \<Rightarrow> DefaultMaxReplicas | Some m \<Rightarrow> m)
    in (lo, if hi < lo then lo else hi))"

definition DesiredReplicas :: "AgentDeploy \<Rightarrow> int" where
"DesiredReplicas ad =
   (if sc_Disabled (aad_Scale (ad_agent ad))
    then (case ads_Replicas (ad_Spec ad) of None \<Rightarrow> 1 | Some n \<Rightarrow> atLeastOne n)
    else let (lo, hi) = scaleBounds (aad_Scale (ad_agent ad))
         in (case ads_Replicas (ad_Spec ad) of None \<Rightarrow> lo | Some n \<Rightarrow> clampInt n lo hi))"

definition ResolveMaxUnavailable ::
  "(IntOrString \<Rightarrow> int \<Rightarrow> bool \<Rightarrow> int option) \<Rightarrow> AgentDeploy \<Rightarrow> int \<Rightarrow> int" where
"ResolveMaxUnavailable scaled ad desired =
   (let mu = GetMaxUnavailable (GetRollingUpdateStrategy (aad_UpdateStrategy (ad_agent ad)))
    in case scaled mu desired True of None \<Rightarrow> 1 | Some n \<Rightarrow> if n < 1 then 1 else n)"

section \<open>Calls\<close>

datatype rec_error =
  PodListFailed api_error
| PodCreateFailed int api_error
| PodDeleteFailed string api_error

record 'w pod_env =
  pe_client :: "(NamespacedName, Pod, 'w) kclient"
  pe_rand :: "nat \<Rightarrow> nat"
  pe_owner :: "AgentDeploy \<Rightarrow> OwnerReference"
  pe_ord :: "int fset \<Rightarrow> int list"
  pe_hash :: "PodSpec \<Rightarrow> string"
  pe_scaled :: "IntOrString \<Rightarrow> int \<Rightarrow> bool \<Rightarrow> int option"

definition createPodForReplica ::
  "'w pod_env \<Rightarrow> AgentDeploy \<Rightarrow> PodSpec \<Rightarrow> string \<Rightarrow> int \<Rightarrow> 'w \<times> nat \<Rightarrow> (rec_error + unit) \<times> 'w \<times> nat" where
"createPodForReplica env ad podSpec hash replica s =
   (case s of (w, n) \<Rightarrow>
      let suffix = RandomLowerCaseString (pe_rand env) n randomSuffixLength;
          pod = newPod (pe_owner env ad) ad replica podSpec hash suffix;
          n' = n + randomSuffixLength
      in case kcreate (pe_client env) (pod_key pod) pod w of
           (Inl AlreadyExists, w') \<Rightarrow> (Inr (), w', n')
         | (Inl e, w') \<Rightarrow> (Inl (PodCreateFailed replica e), w', n')
         | (Inr _, w') \<Rightarrow> (Inr (), w', n'))"

definition deletePod :: "'w pod_env \<Rightarrow> Pod \<Rightarrow> 'w \<times> nat \<Rightarrow> (rec_error + unit) \<times> 'w \<times> nat" where
"deletePod env p s =
   (case s of (w, n) \<Rightarrow>
      if \<not> live p then (Inr (), w, n)
      else case kdelete (pe_client env) (pod_key p) w of
             (Inl NotFound, w') \<Rightarrow> (Inr (), w', n)
           | (Inl e, w') \<Rightarrow> (Inl (PodDeleteFailed (om_Name (pod_Meta p)) e), w', n)
           | (Inr _, w') \<Rightarrow> (Inr (), w', n))"

definition owned_pod :: "AgentDeploy \<Rightarrow> NamespacedName \<Rightarrow> Pod \<Rightarrow> bool" where
"owned_pod ad k p \<longleftrightarrow>
   Namespace k = om_Namespace (ad_Meta ad) \<and>
   fmlookup (om_Labels (pod_Meta p)) KeyAgentSetName = Some (ads_AgentSetName (ad_Spec ad)) \<and>
   fmlookup (om_Labels (pod_Meta p)) KeyAgentDeployName = Some (aad_Name (ad_agent ad)) \<and>
   fmlookup (om_Labels (pod_Meta p)) KeyManagedBy = Some ControllerAgentDeploy"

definition ListOwnedPods ::
  "(NamespacedName, Pod, 'w) kclient \<Rightarrow> AgentDeploy \<Rightarrow> 'w \<Rightarrow> (api_error + Pod list) \<times> 'w" where
"ListOwnedPods c ad w =
   (case klist c (owned_pod ad) w of
      (Inl e, w') \<Rightarrow> (Inl e, w')
    | (Inr items, w') \<Rightarrow> (Inr (map snd items), w'))"

section \<open>One pass\<close>

text \<open>The pods of one slot: the first live pod on the desired hash is kept, further ones are
  deleted; a live pod on another hash is noted.\<close>

fun scan_slot ::
  "'w pod_env \<Rightarrow> string \<Rightarrow> Pod list \<Rightarrow> Pod option \<Rightarrow> bool \<Rightarrow> 'w \<times> nat \<Rightarrow>
   (rec_error + Pod option \<times> bool) \<times> 'w \<times> nat" where
"scan_slot env hash [] kept hasLiveOld s = (Inr (kept, hasLiveOld), s)" |
"scan_slot env hash (p # pods) kept hasLiveOld s =
   (if \<not> live p then scan_slot env hash pods kept hasLiveOld s
    else if pod_hash p = hash then
      (case kept of
         None \<Rightarrow> scan_slot env hash pods (Some p) hasLiveOld s
       | Some _ \<Rightarrow>
           (case deletePod env p s of
              (Inl e, s') \<Rightarrow> (Inl e, s')
            | (Inr _, s') \<Rightarrow> scan_slot env hash pods kept hasLiveOld s'))
    else scan_slot env hash pods kept True s)"

record slots =
  needsCreate :: "int list"
  needsReplace :: "int list"
  updatedOnDesired :: nat
  updatedReadyOnDesired :: nat

fun classify_slots ::
  "'w pod_env \<Rightarrow> string \<Rightarrow> (int, Pod list) fmap \<Rightarrow> int list \<Rightarrow> slots \<Rightarrow> 'w \<times> nat \<Rightarrow>
   (rec_error + slots) \<times> 'w \<times> nat" where
"classify_slots env hash byReplica [] acc s = (Inr acc, s)" |
"classify_slots env hash byReplica (replica # rs) acc s =
   (case scan_slot env hash (the_default [] (fmlookup byReplica replica)) None False s of
      (Inl e, s') \<Rightarrow> (Inl e, s')
    | (Inr (Some kept, _), s') \<Rightarrow>
        classify_slots env hash byReplica rs
          (acc\<lparr>updatedOnDesired := updatedOnDesired acc + 1,
               updatedReadyOnDesired := updatedReadyOnDesired acc + (if podReady kept then 1 else 0)\<rparr>) s'
    | (Inr (None, True), s') \<Rightarrow>
        classify_slots env hash byReplica rs (acc\<lparr>needsReplace := needsReplace acc @ [replica]\<rparr>) s'
    | (Inr (None, False), s') \<Rightarrow>
        classify_slots env hash byReplica rs (acc\<lparr>needsCreate := needsCreate acc @ [replica]\<rparr>) s')"

definition scale_down ::
  "'w pod_env \<Rightarrow> int \<Rightarrow> (int, Pod list) fmap \<Rightarrow> 'w \<times> nat \<Rightarrow> (rec_error + unit) \<times> 'w \<times> nat" where
"scale_down env desired byReplica =
   for_each (\<lambda>replica s.
       if 0 \<le> replica \<and> replica < desired then (Inr (), s)
       else for_each (deletePod env) (the_default [] (fmlookup byReplica replica)) s)
     (pe_ord env (fmdom byReplica))"

definition replace_slot ::
  "'w pod_env \<Rightarrow> AgentDeploy \<Rightarrow> PodSpec \<Rightarrow> string \<Rightarrow> (int, Pod list) fmap \<Rightarrow> int \<Rightarrow> 'w \<times> nat \<Rightarrow>
   (rec_error + unit) \<times> 'w \<times> nat" where
"replace_slot env ad podSpec hash byReplica replica s =
   (case for_each (\<lambda>p s. if \<not> live p \<or> pod_hash p = hash then (Inr (), s) else deletePod env p s)
           (the_default [] (fmlookup byReplica replica)) s of
      (Inl e, s') \<Rightarrow> (Inl e, s')
    | (Inr _, s') \<Rightarrow> createPodForReplica env ad podSpec hash replica s')"

text \<open>The second half of a pass, from the classification on; the flag says that the current hash
  is to be promoted.\<close>

definition roll_slots ::
  "'w pod_env \<Rightarrow> AgentDeploy \<Rightarrow> int \<Rightarrow> PodSpec \<Rightarrow> string \<Rightarrow> (int, Pod list) fmap \<Rightarrow> slots \<Rightarrow> 'w \<times> nat \<Rightarrow>
   (rec_error + bool) \<times> 'w \<times> nat" where
"roll_slots env ad desired podSpec hash byReplica sl s =
   (case for_each (createPodForReplica env ad podSpec hash) (needsCreate sl) s of
      (Inl e, s') \<Rightarrow> (Inl e, s')
    | (Inr _, s') \<Rightarrow>
        if needsReplace sl = [] then
          (Inr (int (updatedOnDesired sl + length (needsCreate sl)) = desired), s')
        else if updatedOnDesired sl > 0 \<and> updatedReadyOnDesired sl < updatedOnDesired sl then (Inr False, s')
        else
          let batch = min (ResolveMaxUnavailable (pe_scaled env) ad desired) (int (length (needsReplace sl)))
          in case for_each (replace_slot env ad podSpec hash byReplica) (take (nat batch) (needsReplace sl)) s' of
               (Inl e, s'') \<Rightarrow> (Inl e, s'')
             | (Inr _, s'') \<Rightarrow> (Inr False, s''))"

definition roll_pods ::
  "'w pod_env \<Rightarrow> AgentDeploy \<Rightarrow> int \<Rightarrow> PodSpec \<Rightarrow> string \<Rightarrow> 'w \<times> nat \<Rightarrow> (rec_error + bool) \<times> 'w \<times> nat" where
"roll_pods env ad desired podSpec hash s =
   (case ListOwnedPods (pe_client env) ad (fst s) of
      (Inl e, w') \<Rightarrow> (Inl (PodListFailed e), w', snd s)
    | (Inr existing, w') \<Rightarrow>
        let byReplica = groupPodsByReplica existing
        in case scale_down env desired byReplica (w', snd s) of
             (Inl e, s1) \<Rightarrow> (Inl e, s1)
           | (Inr _, s1) \<Rightarrow>
               (case classify_slots env hash byReplica [0 .. desired - 1]
                       \<lparr>needsCreate = [], needsReplace = [], updatedOnDesired = 0, updatedReadyOnDesired = 0\<rparr> s1 of
                  (Inl e, s2) \<Rightarrow> (Inl e, s2)
                | (Inr sl, s2) \<Rightarrow> roll_slots env ad desired podSpec hash byReplica sl s2))"

text \<open>The status fields set before the pods are listed.\<close>

definition start_rollout :: "nanos \<Rightarrow> int \<Rightarrow> string \<Rightarrow> AgentDeployStatus \<Rightarrow> AgentDeployStatus" where
"start_rollout now desired hash st =
   (let st = (if uint32 desired \<noteq> adst_DesiredReplicas st then st\<lparr>adst_LastScaledAt := now\<rparr> else st);
        st = st\<lparr>adst_DesiredReplicas := uint32 desired\<rparr>
    in if adst_UpdateHash st \<noteq> hash
       then st\<lparr>adst_UpdateHash := hash, adst_UpdatedReplicas := 0, adst_UpdatedReadyReplicas := 0\<rparr>
       else st)"

definition reconcilePods ::
  "'w pod_env \<Rightarrow> nanos \<Rightarrow> PodSpec \<Rightarrow> AgentDeploy \<Rightarrow> 'w \<times> nat \<Rightarrow> (rec_error + unit) \<times> AgentDeploy \<times> 'w \<times> nat" where
"reconcilePods env now desiredPodSpec ad s =
   (let desired = DesiredReplicas ad;
        desiredHash = pe_hash env desiredPodSpec;
        ad = ad\<lparr>ad_Status := start_rollout now desired desiredHash (ad_Status ad)\<rparr>
    in case roll_pods env ad desired desiredPodSpec desiredHash s of
         (Inl e, s') \<Rightarrow> (Inl e, ad, s')
       | (Inr promote, s') \<Rightarrow>
           (Inr (), if promote then ad\<lparr>ad_Status := (ad_Status ad)\<lparr>adst_CurrentHash := desiredHash\<rparr>\<rparr> else ad, s'))"

definition pod_selector :: "AgentDeploy \<Rightarrow> string" where
"pod_selector ad =
   KeyAgentSetName @ ''='' @ ads_AgentSetName (ad_Spec ad) @ '','' @
   KeyAgentDeployName @ ''='' @ aad_Name (ad_agent ad) @ '','' @
   KeyManagedBy @ ''='' @ ControllerAgentDeploy"

definition updatePodStatus ::
  "'w pod_env \<Rightarrow> AgentDeploy \<Rightarrow> 'w \<Rightarrow> (api_error + unit) \<times> AgentDeploy \<times> 'w" where
"updatePodStatus env ad w =
   (case ListOwnedPods (pe_client env) ad w of
      (Inl e, w') \<Rightarrow> (Inl e, ad, w')
    | (Inr pods, w') \<Rightarrow>
        let alive = filter live pods;
            updated = filter (\<lambda>p. pod_hash p = adst_UpdateHash (ad_Status ad)) alive
        in (Inr (), ad\<lparr>ad_Status := (ad_Status ad)\<lparr>
              adst_Replicas := uint32 (int (length alive)),
              adst_ReadyReplicas := uint32 (int (length (filter podReady alive))),
              adst_UpdatedReplicas := uint32 (int (length updated)),
              adst_UpdatedReadyReplicas := uint32 (int (length (filter podReady updated))),
              adst_Selector := pod_selector ad\<rparr>\<rparr>, w'))"

end
