(* ===== verification/PodEffects.thy ===== *)
theory PodEffects
  imports Pods
begin

text \<open>
  What the calls of a pass of \<open>pods.go\<close> do to the stored pods, on every outcome: how the listed pods are
  grouped into slots, which pods each loop may delete and which slots it fills.
\<close>

section \<open>Grouping and classification\<close>

text \<open>What deleting a pod may leave behind: nothing, or the same pod marked as terminating.\<close>

definition pod_dele :: "Pod \<Rightarrow> Pod option \<Rightarrow> bool" where
"pod_dele p rest \<longleftrightarrow>
   (case rest of
      None \<Rightarrow> True
    | Some p' \<Rightarrow> \<not> live p' \<and>
        pod_Meta p' = (pod_Meta p)\<lparr>om_DeletionTimestamp := om_DeletionTimestamp (pod_Meta p')\<rparr>)"

definition keyed :: "(NamespacedName \<Rightarrow> Pod option) \<Rightarrow> bool" where
"keyed m \<longleftrightarrow> (\<forall>k p. m k = Some p \<longrightarrow> pod_key p = k)"

definition on_hash :: "string \<Rightarrow> Pod \<Rightarrow> bool" where
"on_hash hash p \<longleftrightarrow> live p \<and> pod_hash p = hash"

definition off_hash :: "string \<Rightarrow> Pod \<Rightarrow> bool" where
"off_hash hash p \<longleftrightarrow> live p \<and> pod_hash p \<noteq> hash"

definition slot_pods :: "Pod list \<Rightarrow> int \<Rightarrow> Pod list" where
"slot_pods pods i = filter (\<lambda>p. pod_slot p = i) pods"

definition kept_of :: "string \<Rightarrow> Pod list \<Rightarrow> int \<Rightarrow> Pod option" where
"kept_of hash pods i = find (on_hash hash) (slot_pods pods i)"

definition to_create :: "string \<Rightarrow> Pod list \<Rightarrow> int list \<Rightarrow> int list" where
"to_create hash pods = filter (\<lambda>i. kept_of hash pods i = None \<and> \<not> list_ex (off_hash hash) (slot_pods pods i))"

definition to_replace :: "string \<Rightarrow> Pod list \<Rightarrow> int list \<Rightarrow> int list" where
"to_replace hash pods = filter (\<lambda>i. kept_of hash pods i = None \<and> list_ex (off_hash hash) (slot_pods pods i))"

definition updated_slots :: "string \<Rightarrow> Pod list \<Rightarrow> int list \<Rightarrow> int list" where
"updated_slots hash pods = filter (\<lambda>i. kept_of hash pods i \<noteq> None)"

definition ready_slots :: "string \<Rightarrow> Pod list \<Rightarrow> int list \<Rightarrow> int list" where
"ready_slots hash pods = filter (\<lambda>i. case kept_of hash pods i of None \<Rightarrow> False | Some p \<Rightarrow> podReady p)"

text \<open>The slots a pass replaces: none while an updated pod is not ready, a batch otherwise.\<close>

definition replaced :: "string \<Rightarrow> Pod list \<Rightarrow> int \<Rightarrow> int list \<Rightarrow> int list" where
"replaced hash pods budget win =
   (if length (ready_slots hash pods win) < length (updated_slots hash pods win) then []
    else take (nat budget) (to_replace hash pods win))"

lemma groupPodsByReplica_lookup:
  "the_default [] (fmlookup (groupPodsByReplica pods) i) = slot_pods pods i"
proof -
  have "the_default [] (fmlookup (foldl (\<lambda>out p. fmupd (pod_slot p) (the_default [] (fmlookup out (pod_slot p)) @ [p]) out) m pods) i) =
      the_default [] (fmlookup m i) @ slot_pods pods i" for m
    by (induction pods arbitrary: m) (auto simp: slot_pods_def)
  from this [of fmempty] show ?thesis
    by (simp add: groupPodsByReplica_def)
qed

lemma groupPodsByReplica_dom: "fset (fmdom (groupPodsByReplica pods)) = pod_slot ` set pods"
proof -
  have "fset (fmdom (foldl (\<lambda>out p. fmupd (pod_slot p) (the_default [] (fmlookup out (pod_slot p)) @ [p]) out) m pods)) =
      fset (fmdom m) \<union> pod_slot ` set pods" for m
    by (induction pods arbitrary: m) auto
  from this [of fmempty] show ?thesis
    by (simp add: groupPodsByReplica_def)
qed

section \<open>Effects of the calls\<close>

definition pod_name_keys :: "AgentDeploy \<Rightarrow> int \<Rightarrow> NamespacedName set" where
"pod_name_keys ad r =
   {\<lparr>Namespace = om_Namespace (ad_Meta ad), Name = om_Name (ad_Meta ad) @ ''-'' @ itoa r @ ''-'' @ suffix\<rparr> | suffix.
      length suffix = randomSuffixLength}"

lemma pod_name_keys_disjoint:
  assumes "k \<in> pod_name_keys ad r" "k \<in> pod_name_keys ad r'"
  shows "r = r'"
proof -
  obtain s s' where "itoa r @ ''-'' @ s = itoa r' @ ''-'' @ s'" "length s = length s'"
    using assms by (auto simp: pod_name_keys_def)
  then have "itoa r = itoa r'"
    by (simp flip: append_assoc)
  then show ?thesis
    by (rule itoa_inject)
qed

lemma newPod_fields:
  "pod_Meta (newPod owner ad r ps hash sfx) = (new_meta (om_Namespace (ad_Meta ad)) (om_Name (ad_Meta ad) @ ''-'' @ itoa r @ ''-'' @ sfx))
     \<lparr>om_Labels := om_Labels (pod_Meta (newPod owner ad r ps hash sfx)),
      om_Annotations := fmap_of_list
        [(KeyHash, hash), (KeyReplica, itoa r), (KeyDefaultContainer, ContainerNameAgent)],
      om_OwnerReferences := [owner]\<rparr>"
  by (simp add: newPod_def Let_def)

lemmas label_keys = KeyComponent_def KeyPartOf_def KeyManagedBy_def KeyAppName_def KeyHash_def KeyAgentSetName_def
  KeyAgentDeployName_def KeyReplica_def KeyServing_def KeyEntry_def KeyServiceKind_def KeyDefaultContainer_def

lemma newPod_on_hash:
  assumes "0 \<le> r" "r < 2 ^ 63"
  shows "on_hash hash (newPod owner ad r ps hash sfx)" "pod_slot (newPod owner ad r ps hash sfx) = r"
    and "owned_pod ad (pod_key (newPod owner ad r ps hash sfx)) (newPod owner ad r ps hash sfx)"
proof -
  have ann: "KeyHash \<noteq> KeyReplica" "KeyReplica \<noteq> KeyDefaultContainer" "KeyHash \<noteq> KeyDefaultContainer"
    by (simp_all add: label_keys)
  show "on_hash hash (newPod owner ad r ps hash sfx)"
    by (simp add: on_hash_def live_def pod_hash_def newPod_def new_meta_def Let_def)
  show "pod_slot (newPod owner ad r ps hash sfx) = r"
    using assms ann by (simp add: pod_slot_def newPod_def new_meta_def Let_def)
  show "owned_pod ad (pod_key (newPod owner ad r ps hash sfx)) (newPod owner ad r ps hash sfx)"
    by (simp add: owned_pod_def newPod_def new_meta_def Let_def label_keys)
qed

lemma newPod_key: "length sfx = randomSuffixLength \<Longrightarrow> pod_key (newPod owner ad r ps hash sfx) \<in> pod_name_keys ad r"
  by (auto simp: pod_name_keys_def newPod_def new_meta_def Let_def)

lemma length_RandomLowerCaseString [simp]: "length (RandomLowerCaseString rnd n len) = len"
  by (simp add: RandomLowerCaseString_def RandomString_def)

text \<open>The name a creation draws, and a live pod of a slot on the wanted hash.\<close>

definition drawn_key :: "(nat \<Rightarrow> nat) \<Rightarrow> AgentDeploy \<Rightarrow> int \<Rightarrow> nat \<Rightarrow> NamespacedName" where
"drawn_key rnd ad i n =
   \<lparr>Namespace = om_Namespace (ad_Meta ad),
    Name = om_Name (ad_Meta ad) @ ''-'' @ itoa i @ ''-'' @ RandomLowerCaseString rnd n randomSuffixLength\<rparr>"

lemma drawn_key_in: "drawn_key rnd ad i n \<in> pod_name_keys ad i"
  by (auto simp: drawn_key_def pod_name_keys_def)

lemma newPod_drawn:
  "pod_key (newPod owner ad i ps hash (RandomLowerCaseString rnd n randomSuffixLength)) = drawn_key rnd ad i n"
  by (simp add: drawn_key_def newPod_def new_meta_def Let_def)

definition serves :: "AgentDeploy \<Rightarrow> string \<Rightarrow> int \<Rightarrow> NamespacedName \<Rightarrow> Pod \<Rightarrow> bool" where
"serves ad hash i k p \<longleftrightarrow> owned_pod ad k p \<and> on_hash hash p \<and> pod_slot p = i"

text \<open>No stored pod bears one of the next names: \<open>c\<close> creations cannot collide.\<close>

definition unused_names ::
  "(nat \<Rightarrow> nat) \<Rightarrow> AgentDeploy \<Rightarrow> int set \<Rightarrow> (NamespacedName \<Rightarrow> Pod option) \<Rightarrow> nat \<Rightarrow> nat \<Rightarrow> bool" where
"unused_names rnd ad I m n c \<longleftrightarrow> (\<forall>i \<in> I. \<forall>j < randomSuffixLength * c. m (drawn_key rnd ad i (n + j)) = None)"

text \<open>
  What a sequence of calls does to the stored pods: only pods with a key in \<open>K\<close> are touched, only
  pods of the slots \<open>R\<close> appear, and at most \<open>c\<close> names are drawn.
\<close>

definition effect ::
  "('w \<Rightarrow> NamespacedName \<Rightarrow> Pod option) \<Rightarrow> AgentDeploy \<Rightarrow> NamespacedName set \<Rightarrow> int set \<Rightarrow> nat \<Rightarrow>
   'w \<times> nat \<Rightarrow> 'w \<times> nat \<Rightarrow> bool" where
"effect stored ad K R c s s' \<longleftrightarrow>
   (\<forall>k p. k \<notin> K \<longrightarrow> stored (fst s) k = Some p \<longrightarrow> stored (fst s') k = Some p) \<and>
   (\<forall>k. stored (fst s') k \<noteq> None \<longrightarrow> stored (fst s) k \<noteq> None \<or> (\<exists>r \<in> R. k \<in> pod_name_keys ad r)) \<and>
   snd s \<le> snd s' \<and> snd s' \<le> snd s + randomSuffixLength * c"

text \<open>The contract of the pod client and of map iteration.\<close>

locale pod_rollout = kube "pe_client env" stored pod_dele + map_order "pe_ord env"
  for env :: "'w pod_env" and stored :: "'w \<Rightarrow> NamespacedName \<Rightarrow> Pod option"
begin

lemma effect_same: "stored (fst s') = stored (fst s) \<Longrightarrow> snd s' = snd s \<Longrightarrow> effect stored ad K R c s s'"
  by (simp add: effect_def)

lemma effect_mono: "effect stored ad K R c s s' \<Longrightarrow> K \<subseteq> K' \<Longrightarrow> R \<subseteq> R' \<Longrightarrow> c \<le> c' \<Longrightarrow> effect stored ad K' R' c' s s'"
  by (fastforce simp: effect_def randomSuffixLength_def)

lemma effect_trans:
  assumes "effect stored ad K R c s t" "effect stored ad K' R' c' t u"
  shows "effect stored ad (K \<union> K') (R \<union> R') (c + c') s u"
  unfolding effect_def
proof (intro conjI allI impI)
  show "stored (fst u) k = Some p" if "k \<notin> K \<union> K'" "stored (fst s) k = Some p" for k p
    using assms that by (auto simp: effect_def)
  show "stored (fst s) k \<noteq> None \<or> (\<exists>r \<in> R \<union> R'. k \<in> pod_name_keys ad r)" if "stored (fst u) k \<noteq> None" for k
    using assms that unfolding effect_def by (metis UnCI)
  show "snd s \<le> snd u" "snd u \<le> snd s + randomSuffixLength * (c + c')"
    using assms by (simp_all add: effect_def add_mult_distrib2)
qed

lemma deletePod_effect:
  assumes "deletePod env p s = (r, s')"
  shows "effect stored ad (if live p then {pod_key p} else {}) {} 0 s s'"
proof -
  obtain w n where s: "s = (w, n)"
    by (cases s)
  show ?thesis
  proof (cases "live p")
    case True
    obtain r1 w1 where d: "kdelete (pe_client env) (pod_key p) w = (r1, w1)"
      by (cases "kdelete (pe_client env) (pod_key p) w")
    have "s' = (w1, n)"
      using assms d True s by (auto simp: deletePod_def split: sum.splits api_error.splits)
    then show ?thesis
      by - (rule delete_cases [OF d]; use True s in \<open>auto simp: effect_def split: if_splits\<close>)
  qed (use assms s in \<open>simp add: deletePod_def effect_def\<close>)
qed

lemma createPod_effect:
  assumes "createPodForReplica env ad ps hash replica s = (r, s')"
  shows "effect stored ad {} {replica} 1 s s'"
    and "r = Inr () \<Longrightarrow> 0 \<le> replica \<Longrightarrow> replica < 2 ^ 63 \<Longrightarrow>
         stored (fst s) (drawn_key (pe_rand env) ad replica (snd s)) = None \<Longrightarrow>
         \<exists>p. stored (fst s') (drawn_key (pe_rand env) ad replica (snd s)) = Some p \<and>
             serves ad hash replica (drawn_key (pe_rand env) ad replica (snd s)) p"
proof -
  obtain w n where s: "s = (w, n)"
    by (cases s)
  define sfx where "sfx = RandomLowerCaseString (pe_rand env) n randomSuffixLength"
  define pod where "pod = newPod (pe_owner env ad) ad replica ps hash sfx"
  have key: "pod_key pod = drawn_key (pe_rand env) ad replica n"
    unfolding pod_def sfx_def by (rule newPod_drawn)
  obtain r1 w1 where c: "kcreate (pe_client env) (pod_key pod) pod w = (r1, w1)"
    by (cases "kcreate (pe_client env) (pod_key pod) pod w")
  have k: "pod_key pod \<in> pod_name_keys ad replica"
    unfolding key by (rule drawn_key_in)
  have res: "s' = (w1, n + randomSuffixLength)" "r = Inr () \<Longrightarrow> r1 = Inr () \<or> r1 = Inl AlreadyExists"
    using assms s c by (auto simp: createPodForReplica_def Let_def pod_def sfx_def split: sum.splits api_error.splits)
  show "effect stored ad {} {replica} 1 s s'"
    by (rule create_cases [OF c]) (use s res(1) k in \<open>auto simp: effect_def split: if_splits\<close>)
  show "\<exists>p. stored (fst s') (drawn_key (pe_rand env) ad replica (snd s)) = Some p \<and>
             serves ad hash replica (drawn_key (pe_rand env) ad replica (snd s)) p"
    if "r = Inr ()" "0 \<le> replica" "replica < 2 ^ 63" "stored (fst s) (drawn_key (pe_rand env) ad replica (snd s)) = None"
  proof (intro exI [of _ pod] conjI)
    have "r1 \<noteq> Inl AlreadyExists"
      using create_exists [of "pod_key pod" pod w w1] c that(4) s key by auto
    then show "stored (fst s') (drawn_key (pe_rand env) ad replica (snd s)) = Some pod"
      using res that(1) c create_ok s key by fastforce
    show "serves ad hash replica (drawn_key (pe_rand env) ad replica (snd s)) pod"
      using newPod_on_hash [OF that(2,3), where owner = "pe_owner env ad" and ad = ad and ps = ps and sfx = sfx and hash = hash] s
      unfolding serves_def pod_def [symmetric] key by simp
  qed
qed

lemma for_each_effect:
  assumes "for_each f xs s = (r, s')"
    and "\<And>x s r s'. x \<in> set xs \<Longrightarrow> f x s = (r, s') \<Longrightarrow> effect stored ad (K x) (R x) (c x) s s'"
  shows "effect stored ad (\<Union>x \<in> set xs. K x) (\<Union>x \<in> set xs. R x) (sum_list (map c xs)) s s'"
  using assms
proof (induction xs arbitrary: s)
  case (Cons x xs)
  obtain r1 s1 where f: "f x s = (r1, s1)"
    by (cases "f x s")
  have e: "effect stored ad (K x) (R x) (c x) s s1"
    using Cons.prems(2) f by (meson list.set_intros(1))
  show ?case
  proof (cases r1)
    case (Inr u)
    have "for_each f xs s1 = (r, s')"
      using Inr f Cons.prems(1) by simp
    moreover have "y \<in> set xs \<Longrightarrow> f y t = (rt, t') \<Longrightarrow> effect stored ad (K y) (R y) (c y) t t'" for y t rt t'
      using Cons.prems(2) by (meson list.set_intros(2))
    ultimately have "effect stored ad (\<Union>x \<in> set xs. K x) (\<Union>x \<in> set xs. R x) (sum_list (map c xs)) s1 s'"
      by (rule Cons.IH)
    from effect_trans [OF e this] show ?thesis
      by simp
  next
    case (Inl e)
    then have "s' = s1"
      using f Cons.prems(1) by simp
    then show ?thesis
      using effect_mono [OF e] by simp
  qed
qed (simp add: effect_same)

end

section \<open>Effects of a pass\<close>

abbreviation keys_of :: "(Pod \<Rightarrow> bool) \<Rightarrow> Pod list \<Rightarrow> NamespacedName set" where
"keys_of P pods \<equiv> pod_key ` {p \<in> set pods. P p}"

lemma hash_excl:
  "on_hash hash p \<Longrightarrow> \<not> off_hash hash p" "off_hash hash p \<Longrightarrow> \<not> on_hash hash p"
  "\<not> live p \<Longrightarrow> \<not> on_hash hash p" "\<not> live p \<Longrightarrow> \<not> off_hash hash p"
  "on_hash hash p \<or> off_hash hash p \<or> \<not> live p"
  by (auto simp: on_hash_def off_hash_def)

lemma scan_slot_Cons:
  "\<not> live p \<Longrightarrow> scan_slot env hash (p # pods) kept old s = scan_slot env hash pods kept old s"
  "off_hash hash p \<Longrightarrow> scan_slot env hash (p # pods) kept old s = scan_slot env hash pods kept True s"
  "on_hash hash p \<Longrightarrow> scan_slot env hash (p # pods) None old s = scan_slot env hash pods (Some p) old s"
  "on_hash hash p \<Longrightarrow> scan_slot env hash (p # pods) (Some k) old s =
     (case deletePod env p s of
        (Inl e, s') \<Rightarrow> (Inl e, s')
      | (Inr _, s') \<Rightarrow> scan_slot env hash pods (Some k) old s')"
  by (auto simp: on_hash_def off_hash_def)

declare scan_slot.simps(2) [simp del]

context pod_rollout
begin

lemma scan_slot_kept:
  assumes "scan_slot env hash pods (Some k) old s = (r, s')"
  shows "effect stored ad (keys_of (on_hash hash) pods) {} 0 s s' \<and>
         (\<forall>res. r = Inr res \<longrightarrow> res = (Some k, old \<or> list_ex (off_hash hash) pods))"
  using assms
proof (induction pods arbitrary: old s)
  case (Cons p pods)
  have mono: "effect stored ad (keys_of (on_hash hash) (p # pods)) {} 0 t t'"
    if "effect stored ad (keys_of (on_hash hash) pods) {} 0 t t'" for t t'
    by (rule effect_mono [OF that]) auto
  consider "\<not> live p" | "off_hash hash p" | "on_hash hash p"
    using hash_excl(5) by blast
  then show ?case
  proof cases
    case 1
    from Cons.IH [OF Cons.prems [unfolded scan_slot_Cons(1) [OF 1]]] mono show ?thesis
      using hash_excl(4) [OF 1] by simp
  next
    case 2
    from Cons.IH [OF Cons.prems [unfolded scan_slot_Cons(2) [OF 2]]] mono show ?thesis
      using 2 by auto
  next
    case 3
    obtain r1 s1 where d: "deletePod env p s = (r1, s1)"
      by (cases "deletePod env p s")
    have e: "effect stored ad {pod_key p} {} 0 s s1"
      using deletePod_effect [OF d] 3 by (simp add: on_hash_def)
    show ?thesis
    proof (cases r1)
      case (Inl x)
      have "effect stored ad (keys_of (on_hash hash) (p # pods)) {} 0 s s1"
        by (rule effect_mono [OF e]) (use 3 in auto)
      then show ?thesis
        using Cons.prems d Inl by (auto simp: scan_slot_Cons(4) [OF 3])
    next
      case (Inr u)
      then have "scan_slot env hash pods (Some k) old s1 = (r, s')"
        using Cons.prems d by (simp add: scan_slot_Cons(4) [OF 3])
      note IH = Cons.IH [OF this]
      have "effect stored ad (keys_of (on_hash hash) (p # pods)) {} 0 s s'"
        by (rule effect_mono [OF effect_trans [OF e conjunct1 [OF IH]]]) (use 3 in auto)
      then show ?thesis
        using IH hash_excl(1) [OF 3] by simp
    qed
  qed
qed (auto simp: effect_same)

lemma scan_slot_None:
  assumes "scan_slot env hash pods None old s = (r, s')" "distinct pods"
  shows "effect stored ad (keys_of (\<lambda>p. on_hash hash p \<and> find (on_hash hash) pods \<noteq> Some p) pods) {} 0 s s' \<and>
         (\<forall>res. r = Inr res \<longrightarrow> res = (find (on_hash hash) pods, old \<or> list_ex (off_hash hash) pods))"
  using assms
proof (induction pods arbitrary: old s)
  case (Cons p pods)
  let ?K = "\<lambda>ps. keys_of (\<lambda>q. on_hash hash q \<and> find (on_hash hash) ps \<noteq> Some q) ps"
  have skip: "effect stored ad (?K (p # pods)) {} 0 t t'" if "\<not> on_hash hash p" "effect stored ad (?K pods) {} 0 t t'" for t t'
    by (rule effect_mono [OF that(2)]) (use that(1) in auto)
  consider "on_hash hash p" | "\<not> on_hash hash p" "\<not> live p" | "off_hash hash p" "\<not> on_hash hash p"
    using hash_excl [where hash = hash and p = p] by blast
  then show ?case
  proof cases
    case 1
    then have "scan_slot env hash pods (Some p) old s = (r, s')"
      using Cons.prems(1) by (simp add: scan_slot_Cons(3) [OF 1])
    note k = scan_slot_kept [OF this, of ad]
    have "effect stored ad (?K (p # pods)) {} 0 s s'"
      by (rule effect_mono [OF conjunct1 [OF k]]) (use 1 Cons.prems(2) in auto)
    then show ?thesis
      using 1 k hash_excl(1) [OF 1] by simp
  next
    case 2
    then have "scan_slot env hash pods None old s = (r, s')"
      using Cons.prems(1) by (simp add: scan_slot_Cons(1))
    from Cons.IH [OF this] show ?thesis
      using 2 Cons.prems(2) skip hash_excl(4) [OF 2(2)] by simp
  next
    case 3
    then have "scan_slot env hash pods None True s = (r, s')"
      using Cons.prems(1) by (simp add: scan_slot_Cons(2) [OF 3(1)])
    from Cons.IH [OF this] show ?thesis
      using 3 Cons.prems(2) skip by auto
  qed
qed (auto simp: effect_same)

lemma classify_slots_effect:
  assumes "classify_slots env hash (groupPodsByReplica pods) rs acc s = (r, s')" "distinct pods"
  shows "effect stored ad (keys_of (\<lambda>p. on_hash hash p \<and> pod_slot p \<in> set rs \<and> kept_of hash pods (pod_slot p) \<noteq> Some p) pods) {} 0 s s' \<and>
         (\<forall>res. r = Inr res \<longrightarrow> res =
            \<lparr>needsCreate = needsCreate acc @ to_create hash pods rs,
             needsReplace = needsReplace acc @ to_replace hash pods rs,
             updatedOnDesired = updatedOnDesired acc + length (updated_slots hash pods rs),
             updatedReadyOnDesired = updatedReadyOnDesired acc + length (ready_slots hash pods rs)\<rparr>)"
  using assms(1)
proof (induction rs arbitrary: acc s)
  case (Cons i rs)
  let ?K = "\<lambda>rs. keys_of (\<lambda>p. on_hash hash p \<and> pod_slot p \<in> set rs \<and> kept_of hash pods (pod_slot p) \<noteq> Some p) pods"
  obtain r1 s1 where sc: "scan_slot env hash (slot_pods pods i) None False s = (r1, s1)"
    by (cases "scan_slot env hash (slot_pods pods i) None False s")
  have scan: "effect stored ad (keys_of (\<lambda>p. on_hash hash p \<and> kept_of hash pods i \<noteq> Some p) (slot_pods pods i)) {} 0 s s1"
    "\<And>res. r1 = Inr res \<Longrightarrow> res = (kept_of hash pods i, list_ex (off_hash hash) (slot_pods pods i))"
    using scan_slot_None [OF sc, of ad] assms(2) by (auto simp: kept_of_def slot_pods_def)
  have e: "effect stored ad (?K [i]) {} 0 s s1"
    by (rule effect_mono [OF scan(1)]) (auto simp: slot_pods_def)
  show ?case
  proof (cases r1)
    case (Inl x)
    then have "r = Inl x" "s' = s1"
      using Cons.prems sc by (simp_all add: groupPodsByReplica_lookup)
    then show ?thesis
      using effect_mono [OF e, of "?K (i # rs)" "{}" 0] by auto
  next
    case (Inr res)
    define acc' where "acc' = (case kept_of hash pods i of
        Some p \<Rightarrow> acc\<lparr>updatedOnDesired := updatedOnDesired acc + 1,
               updatedReadyOnDesired := updatedReadyOnDesired acc + (if podReady p then 1 else 0)\<rparr>
      | None \<Rightarrow> if list_ex (off_hash hash) (slot_pods pods i)
                then acc\<lparr>needsReplace := needsReplace acc @ [i]\<rparr> else acc\<lparr>needsCreate := needsCreate acc @ [i]\<rparr>)"
    have "r1 = Inr (kept_of hash pods i, list_ex (off_hash hash) (slot_pods pods i))"
      using Inr scan(2) by simp
    then have "classify_slots env hash (groupPodsByReplica pods) rs acc' s1 = (r, s')"
      using Cons.prems sc
      by (cases "kept_of hash pods i"; cases "list_ex (off_hash hash) (slot_pods pods i)")
        (simp_all add: groupPodsByReplica_lookup acc'_def)
    note IH = Cons.IH [OF this]
    have "effect stored ad (?K [i] \<union> ?K rs) {} 0 s s'"
      using effect_trans [OF e conjunct1 [OF IH]] by simp
    then have "effect stored ad (?K (i # rs)) {} 0 s s'"
      by (rule effect_mono) auto
    moreover have "res = \<lparr>needsCreate = needsCreate acc @ to_create hash pods (i # rs),
             needsReplace = needsReplace acc @ to_replace hash pods (i # rs),
             updatedOnDesired = updatedOnDesired acc + length (updated_slots hash pods (i # rs)),
             updatedReadyOnDesired = updatedReadyOnDesired acc + length (ready_slots hash pods (i # rs))\<rparr>"
      if "r = Inr res" for res
      unfolding IH [THEN conjunct2, rule_format, OF that]
      by (cases "kept_of hash pods i"; cases "list_ex (off_hash hash) (slot_pods pods i)")
        (simp_all add: acc'_def to_create_def to_replace_def updated_slots_def ready_slots_def)
    ultimately show ?thesis
      by blast
  qed
qed (auto simp: effect_same to_create_def to_replace_def updated_slots_def ready_slots_def)

lemma scale_down_effect:
  assumes "scale_down env desired (groupPodsByReplica pods) s = (r, s')"
  shows "effect stored ad (keys_of (\<lambda>p. live p \<and> \<not> (0 \<le> pod_slot p \<and> pod_slot p < desired)) pods) {} 0 s s'"
proof -
  let ?out = "\<lambda>i. \<not> (0 \<le> i \<and> i < desired)"
  have "effect stored ad (if ?out i then keys_of live (slot_pods pods i) else {}) {} 0 t t'"
    if "(if 0 \<le> i \<and> i < desired then (Inr (), t) else for_each (deletePod env) (slot_pods pods i) t) = (rt, t')" for i t rt t'
  proof (cases "?out i")
    case True
    then have "for_each (deletePod env) (slot_pods pods i) t = (rt, t')"
      using that by auto
    from for_each_effect [OF this deletePod_effect] show ?thesis
      by (rule effect_mono) (use True in auto)
  qed (use that in \<open>auto intro: effect_same\<close>)
  from for_each_effect [OF assms [unfolded scale_down_def groupPodsByReplica_lookup] this]
  show ?thesis
    by (rule effect_mono) (auto simp: slot_pods_def split: if_splits)
qed

lemma replace_slot_effect:
  assumes "replace_slot env ad ps hash (groupPodsByReplica pods) i s = (r, s')"
  shows "effect stored ad (keys_of (off_hash hash) (slot_pods pods i)) {i} 1 s s'"
proof -
  let ?f = "\<lambda>p s. if \<not> live p \<or> pod_hash p = hash then (Inr (), s) else deletePod env p s"
  obtain r1 s1 where l: "for_each ?f (slot_pods pods i) s = (r1, s1)"
    by (cases "for_each ?f (slot_pods pods i) s")
  have "effect stored ad (if off_hash hash p then {pod_key p} else {}) {} 0 t t'" if "?f p t = (rt, t')" for p t rt t'
    using that deletePod_effect [of p t rt t' ad] by (auto simp: off_hash_def intro: effect_same split: if_splits)
  from for_each_effect [OF l this] have e: "effect stored ad (keys_of (off_hash hash) (slot_pods pods i)) {} 0 s s1"
    by (rule effect_mono) auto
  show ?thesis
  proof (cases r1)
    case (Inl x)
    then show ?thesis
      using assms l effect_mono [OF e] by (simp add: replace_slot_def groupPodsByReplica_lookup)
  next
    case (Inr u)
    then have "createPodForReplica env ad ps hash i s1 = (r, s')"
      using assms l by (simp add: replace_slot_def groupPodsByReplica_lookup)
    from effect_trans [OF e createPod_effect(1) [OF this]] show ?thesis
      by simp
  qed
qed

lemma replace_slot_fills:
  assumes "replace_slot env ad ps hash (groupPodsByReplica pods) i s = (Inr (), s')"
    and "0 \<le> i" "i < 2 ^ 63" "stored (fst s) (drawn_key (pe_rand env) ad i (snd s)) = None"
  shows "\<exists>p. stored (fst s') (drawn_key (pe_rand env) ad i (snd s)) = Some p \<and>
             serves ad hash i (drawn_key (pe_rand env) ad i (snd s)) p"
proof -
  let ?f = "\<lambda>p s. if \<not> live p \<or> pod_hash p = hash then (Inr (), s) else deletePod env p s"
  obtain r1 s1 where l: "for_each ?f (slot_pods pods i) s = (r1, s1)"
    by (cases "for_each ?f (slot_pods pods i) s")
  have "effect stored ad UNIV {} 0 t t'" if "?f p t = (rt, t')" for p t rt t'
    using that effect_mono [OF deletePod_effect [of p t rt t' ad], of UNIV "{}" 0] by (auto intro: effect_same split: if_splits)
  from for_each_effect [OF l this] have "effect stored ad UNIV {} 0 s s1"
    by (rule effect_mono) auto
  then have s1: "snd s1 = snd s" "stored (fst s1) (drawn_key (pe_rand env) ad i (snd s)) = None"
    using assms(4) by (auto simp: effect_def)
  have "createPodForReplica env ad ps hash i s1 = (Inr (), s')"
    using assms(1) l by (auto simp: replace_slot_def groupPodsByReplica_lookup split: sum.splits)
  from createPod_effect(2) [OF this refl assms(2,3)] s1 show ?thesis
    by simp
qed

text \<open>A loop over slots whose body fills its slot fills all of them, when no name collides.\<close>

lemma fill_slots:
  assumes "for_each f rs t = (Inr (), t')"
    and step: "\<And>i t r t'. i \<in> set rs \<Longrightarrow> f i t = (r, t') \<Longrightarrow> effect stored ad K {i} 1 t t'"
    and fills: "\<And>i t t'. i \<in> set rs \<Longrightarrow> f i t = (Inr (), t') \<Longrightarrow>
      stored (fst t) (drawn_key (pe_rand env) ad i (snd t)) = None \<Longrightarrow>
      \<exists>p. stored (fst t') (drawn_key (pe_rand env) ad i (snd t)) = Some p \<and>
          serves ad hash i (drawn_key (pe_rand env) ad i (snd t)) p"
    and "effect stored ad K' R c s t" "distinct rs" "R \<inter> set rs = {}"
    and "unused_names (pe_rand env) ad (set rs) (stored (fst s)) (snd s) (c + length rs)"
    and "\<forall>k \<in> K. stored (fst s) k \<noteq> None"
  shows "\<forall>i \<in> set rs. \<exists>k p. stored (fst t') k = Some p \<and> stored (fst s) k = None \<and> serves ad hash i k p"
  using assms
proof (induction rs arbitrary: t K' R c)
  case (Cons i rs)
  obtain t1 where f: "f i t = (Inr (), t1)" and rest: "for_each f rs t1 = (Inr (), t')"
    using Cons.prems(1) by (auto split: prod.splits sum.splits)
  define k where "k = drawn_key (pe_rand env) ad i (snd t)"
  obtain j where j: "snd t = snd s + j" "j \<le> randomSuffixLength * c"
    using Cons.prems(4) by (metis add_le_cancel_left effect_def le_Suc_ex)
  then have "j < randomSuffixLength * (c + length (i # rs))"
    by (simp add: randomSuffixLength_def)
  then have k0: "stored (fst s) k = None"
    using Cons.prems(7) j by (simp add: unused_names_def k_def)
  have "stored (fst t) k = None"
  proof (rule ccontr)
    assume "stored (fst t) k \<noteq> None"
    then obtain r where "r \<in> R" "k \<in> pod_name_keys ad r"
      using Cons.prems(4) k0 by (auto simp: effect_def)
    then show False
      using Cons.prems(6) pod_name_keys_disjoint [of k ad r i] drawn_key_in by (auto simp: k_def)
  qed
  then obtain p where p: "stored (fst t1) k = Some p" "serves ad hash i k p"
    using Cons.prems(3) f unfolding k_def by (meson list.set_intros(1))
  have e1: "effect stored ad K {i} 1 t t1"
    using Cons.prems(2) f by (meson list.set_intros(1))
  have steps: "\<And>j t r t'. j \<in> set rs \<Longrightarrow> f j t = (r, t') \<Longrightarrow> effect stored ad K {j} 1 t t'"
    using Cons.prems(2) by (meson list.set_intros(2))
  have "effect stored ad (\<Union>x \<in> set rs. K) (\<Union>x \<in> set rs. {x}) (sum_list (map (\<lambda>_. 1) rs)) t1 t'"
    by (rule for_each_effect [OF rest steps])
  then have "effect stored ad K (set rs) (sum_list (map (\<lambda>_. 1) rs)) t1 t'"
    by (rule effect_mono) auto
  moreover have "k \<notin> K"
    using k0 Cons.prems(8) by auto
  ultimately have "stored (fst t') k = Some p"
    using p(1) by (simp add: effect_def)
  moreover have "\<forall>i \<in> set rs. \<exists>k p. stored (fst t') k = Some p \<and> stored (fst s) k = None \<and> serves ad hash i k p"
  proof (rule Cons.IH [OF rest steps _ effect_trans [OF Cons.prems(4) e1]])
    show "unused_names (pe_rand env) ad (set rs) (stored (fst s)) (snd s) (c + 1 + length rs)"
      using Cons.prems(7) by (simp add: unused_names_def)
  qed (use Cons.prems in auto)
  ultimately show ?case
    using k0 p(2) by auto
qed simp

lemma roll_slots_effect:
  assumes "roll_slots env ad desired ps hash (groupPodsByReplica pods) sl s = (r, s')"
    and sl: "sl = \<lparr>needsCreate = to_create hash pods win, needsReplace = to_replace hash pods win,
      updatedOnDesired = length (updated_slots hash pods win), updatedReadyOnDesired = length (ready_slots hash pods win)\<rparr>"
    and "rep = replaced hash pods (ResolveMaxUnavailable (pe_scaled env) ad desired) win"
  obtains r1 s1 where "for_each (createPodForReplica env ad ps hash) (to_create hash pods win) s = (r1, s1)"
    and "r1 = Inr () \<or> s' = s1 \<and> (\<exists>e. r = Inl e)"
    and "r1 = Inr () \<Longrightarrow> \<exists>r2. for_each (replace_slot env ad ps hash (groupPodsByReplica pods)) rep s1 = (r2, s') \<and>
           ((\<exists>e. r2 = Inl e) \<longleftrightarrow> (\<exists>e. r = Inl e))"
proof -
  obtain r1 s1 where c: "for_each (createPodForReplica env ad ps hash) (to_create hash pods win) s = (r1, s1)"
    by (cases "for_each (createPodForReplica env ad ps hash) (to_create hash pods win) s")
  let ?b = "ResolveMaxUnavailable (pe_scaled env) ad desired"
  have batch: "take (nat (min ?b (int (length xs)))) xs = take (nat ?b) xs" for xs :: "int list"
    by (simp add: min_def)
  show thesis
  proof (rule that [OF c])
    show "r1 = Inr () \<or> s' = s1 \<and> (\<exists>e. r = Inl e)"
      using assms(1) c by (cases r1) (auto simp: roll_slots_def sl)
    show "\<exists>r2. for_each (replace_slot env ad ps hash (groupPodsByReplica pods)) rep s1 = (r2, s') \<and>
           ((\<exists>e. r2 = Inl e) \<longleftrightarrow> (\<exists>e. r = Inl e))" if "r1 = Inr ()"
      using assms(1) c that
      by (auto simp: roll_slots_def sl assms(3) replaced_def Let_def batch split: if_splits prod.splits sum.splits)
  qed
qed

end

lemma slots_partition:
  "length (updated_slots hash pods win) + length (to_create hash pods win) + length (to_replace hash pods win) = length win"
  by (induction win) (auto simp: updated_slots_def to_create_def to_replace_def)

lemma roll_slots_promotes:
  assumes "roll_slots env ad desired ps hash (groupPodsByReplica pods) sl s = (Inr promote, s')"
    and "sl = \<lparr>needsCreate = to_create hash pods win, needsReplace = to_replace hash pods win,
      updatedOnDesired = length (updated_slots hash pods win), updatedReadyOnDesired = length (ready_slots hash pods win)\<rparr>"
    and "desired = int (length win)"
  shows "promote \<longleftrightarrow> to_replace hash pods win = []"
  using assms slots_partition [of hash pods win]
  by (auto simp: roll_slots_def Let_def split: prod.splits sum.splits if_splits)

definition listed_pods :: "AgentDeploy \<Rightarrow> (NamespacedName \<Rightarrow> Pod option) \<Rightarrow> Pod list \<Rightarrow> bool" where
"listed_pods ad m pods \<longleftrightarrow>
   distinct (map pod_key pods) \<and> (\<forall>p. p \<in> set pods \<longleftrightarrow> m (pod_key p) = Some p \<and> owned_pod ad (pod_key p) p)"

text \<open>The pods a pass deletes.\<close>

definition touched :: "string \<Rightarrow> Pod list \<Rightarrow> int \<Rightarrow> int list \<Rightarrow> Pod \<Rightarrow> bool" where
"touched hash pods desired rep p \<longleftrightarrow>
   live p \<and> \<not> (0 \<le> pod_slot p \<and> pod_slot p < desired) \<or>
   on_hash hash p \<and> 0 \<le> pod_slot p \<and> pod_slot p < desired \<and> kept_of hash pods (pod_slot p) \<noteq> Some p \<or>
   off_hash hash p \<and> pod_slot p \<in> set rep"

lemma to_create_replaced:
  assumes "distinct win" and cr: "cr = to_create hash pods win" and rep: "rep = replaced hash pods b win"
  shows "distinct cr" "distinct rep" "set cr \<inter> set rep = {}" "set cr \<union> set rep \<subseteq> set win"
    "length cr + length rep \<le> length win"
proof -
  show d: "distinct cr" "distinct rep"
    using assms by (simp_all add: to_create_def replaced_def to_replace_def)
  have sub: "set rep \<subseteq> set (to_replace hash pods win)"
    by (auto simp: rep replaced_def dest: in_set_takeD)
  then show dj: "set cr \<inter> set rep = {}"
    by (auto simp: cr to_create_def to_replace_def)
  show un: "set cr \<union> set rep \<subseteq> set win"
    using sub by (auto simp: cr to_create_def to_replace_def)
  have "card (set cr) + card (set rep) \<le> card (set win)"
    using card_mono [OF _ un] card_Un_disjoint [OF _ _ dj] by simp
  then show "length cr + length rep \<le> length win"
    using d assms(1) by (simp add: distinct_card)
qed

lemma unused_names_mono: "unused_names rnd ad I m n c \<Longrightarrow> J \<subseteq> I \<Longrightarrow> c' \<le> c \<Longrightarrow> unused_names rnd ad J m n c'"
  by (auto simp: unused_names_def randomSuffixLength_def)

context pod_rollout
begin

lemma ListOwnedPods_result:
  assumes "ListOwnedPods (pe_client env) ad w = (r, w')"
  shows "stored w' = stored w" and "keyed (stored w) \<Longrightarrow> r = Inr pods \<Longrightarrow> listed_pods ad (stored w) pods"
proof -
  obtain r1 w1 where l: "klist (pe_client env) (owned_pod ad) w = (r1, w1)"
    by (cases "klist (pe_client env) (owned_pod ad) w")
  then have w': "w' = w1" "r = Inr pods \<Longrightarrow> \<exists>items. r1 = Inr items \<and> pods = map snd items"
    using assms by (cases r1; auto simp: ListOwnedPods_def)+
  show "stored w' = stored w"
    using list_frame [OF l] w' by simp
  show "listed_pods ad (stored w) pods" if kd: "keyed (stored w)" and rp: "r = Inr pods"
  proof -
    obtain items where items: "r1 = Inr items" "pods = map snd items"
      using w'(2) [OF rp] by blast
    note res = list_result [OF l [unfolded items(1)]]
    have key: "pod_key (snd x) = fst x" if "x \<in> set items" for x
      using res that kd by (cases x) (auto simp: keyed_def)
    then have "map pod_key pods = map fst items"
      by (simp add: items(2))
    moreover have "p \<in> set pods \<longleftrightarrow> stored w (pod_key p) = Some p \<and> owned_pod ad (pod_key p) p" for p
      using res key by (force simp: items(2) image_iff)
    ultimately show ?thesis
      using res by (simp add: listed_pods_def)
  qed
qed

text \<open>The second half of a pass, started from a state that the first half reached.\<close>

lemma roll_slots_outcome:
  assumes roll: "roll_slots env ad desired ps hash (groupPodsByReplica pods) sl s2 = (r, s')"
    and sl: "sl = \<lparr>needsCreate = to_create hash pods win, needsReplace = to_replace hash pods win,
      updatedOnDesired = length (updated_slots hash pods win), updatedReadyOnDesired = length (ready_slots hash pods win)\<rparr>"
    and cr: "cr = to_create hash pods win"
    and rep: "rep = replaced hash pods (ResolveMaxUnavailable (pe_scaled env) ad desired) win"
    and e2: "effect stored ad K {} 0 s s2" and win: "distinct win"
    and K: "keys_of (\<lambda>p. off_hash hash p \<and> pod_slot p \<in> set rep) pods \<subseteq> K" "\<forall>k \<in> K. stored (fst s) k \<noteq> None"
  shows "effect stored ad K (set cr \<union> set rep) (length cr + length rep) s s'"
    and "r = Inr res \<Longrightarrow> set win \<subseteq> {0 ..< 2 ^ 63} \<Longrightarrow> unused_names (pe_rand env) ad (set win) (stored (fst s)) (snd s) (length win) \<Longrightarrow>
      \<forall>i \<in> set cr \<union> set rep. \<exists>k p. stored (fst s') k = Some p \<and> serves ad hash i k p"
proof -
  note wf = to_create_replaced [OF win cr rep]
  obtain r1 s1 where c: "for_each (createPodForReplica env ad ps hash) cr s2 = (r1, s1)"
    and stop: "r1 = Inr () \<or> s' = s1 \<and> (\<exists>e. r = Inl e)"
    and go: "r1 = Inr () \<Longrightarrow> \<exists>r2. for_each (replace_slot env ad ps hash (groupPodsByReplica pods)) rep s1 = (r2, s') \<and>
           ((\<exists>e. r2 = Inl e) \<longleftrightarrow> (\<exists>e. r = Inl e))"
    using roll_slots_effect [OF roll sl rep, folded cr] by blast
  have rep_step: "effect stored ad K {i} 1 t t'"
    if "i \<in> set rep" "replace_slot env ad ps hash (groupPodsByReplica pods) i t = (rt, t')" for i t rt t'
    by (rule effect_mono [OF replace_slot_effect [OF that(2)]]) (use K(1) that(1) in \<open>auto simp: slot_pods_def\<close>)
  have ec: "effect stored ad {} (set cr) (length cr) s2 s1"
    by (rule effect_mono [OF for_each_effect [OF c createPod_effect(1)]]) (auto simp: sum_list_triv)
  have e1: "effect stored ad K (set cr) (length cr) s s1"
    using effect_trans [OF e2 ec] by simp
  have er: "effect stored ad K (set rep) (length rep) s1 t" if "for_each (replace_slot env ad ps hash (groupPodsByReplica pods)) rep s1 = (r2, t)" for r2 t
    by (rule effect_mono [OF for_each_effect [OF that rep_step]]) (auto simp: sum_list_triv)
  show "effect stored ad K (set cr \<union> set rep) (length cr + length rep) s s'"
  proof (cases "r1 = Inr ()")
    case True
    then obtain r2 where "for_each (replace_slot env ad ps hash (groupPodsByReplica pods)) rep s1 = (r2, s')"
      using go by blast
    from effect_trans [OF e1 er [OF this]] show ?thesis
      by simp
  next
    case False
    then have "s' = s1"
      using stop by simp
    then show ?thesis
      using effect_mono [OF e1] by simp
  qed
  show "\<forall>i \<in> set cr \<union> set rep. \<exists>k p. stored (fst s') k = Some p \<and> serves ad hash i k p"
    if "r = Inr res" and bound: "set win \<subseteq> {0 ..< 2 ^ 63}" and unused: "unused_names (pe_rand env) ad (set win) (stored (fst s)) (snd s) (length win)"
  proof -
    have r1: "r1 = Inr ()"
      using stop that(1) by simp
    from go [OF this] obtain r2 where "for_each (replace_slot env ad ps hash (groupPodsByReplica pods)) rep s1 = (r2, s')"
      "(\<exists>e. r2 = Inl e) \<longleftrightarrow> (\<exists>e. r = Inl e)"
      by (elim exE conjE)
    then have loop: "for_each (replace_slot env ad ps hash (groupPodsByReplica pods)) rep s1 = (Inr (), s')"
      using that(1) by (cases r2) simp_all
    have range: "0 \<le> i" "i < 2 ^ 63" if "i \<in> set cr \<union> set rep" for i
      using that wf(4) bound by auto
    have "\<forall>i \<in> set cr. \<exists>k p. stored (fst s1) k = Some p \<and> stored (fst s) k = None \<and> serves ad hash i k p"
    proof (rule fill_slots [OF c [unfolded r1] createPod_effect(1) _ e2])
      show "unused_names (pe_rand env) ad (set cr) (stored (fst s)) (snd s) (0 + length cr)"
        by (rule unused_names_mono [OF unused]) (use wf(4,5) in auto)
    qed (use createPod_effect(2) range wf(1) in auto)
    moreover have "stored (fst s') k = Some p" if "stored (fst s1) k = Some p" "stored (fst s) k = None" for k p
    proof -
      have "k \<notin> K"
        using that(2) K(2) by auto
      then show ?thesis
        using er [OF loop] that(1) by (simp add: effect_def)
    qed
    moreover have "\<forall>i \<in> set rep. \<exists>k p. stored (fst s') k = Some p \<and> stored (fst s) k = None \<and> serves ad hash i k p"
    proof (rule fill_slots [OF loop rep_step _ e1])
      show "unused_names (pe_rand env) ad (set rep) (stored (fst s)) (snd s) (length cr + length rep)"
        by (rule unused_names_mono [OF unused]) (use wf(4,5) in auto)
    qed (use replace_slot_fills range wf(2,3) K(2) in auto)
    ultimately show ?thesis
      by blast
  qed
qed

lemma roll_pods_outcome:
  assumes "roll_pods env ad desired ps hash s = (r, s')" "keyed (stored (fst s))"
    and "cr = (\<lambda>pods. to_create hash pods [0 .. desired - 1])"
    and "rep = (\<lambda>pods. replaced hash pods (ResolveMaxUnavailable (pe_scaled env) ad desired) [0 .. desired - 1])"
  obtains e where "r = Inl e" "stored (fst s') = stored (fst s)"
  | pods where "listed_pods ad (stored (fst s)) pods"
      "effect stored ad (keys_of (touched hash pods desired (rep pods)) pods) (set (cr pods) \<union> set (rep pods)) (nat desired) s s'"
      "\<And>res. r = Inr res \<Longrightarrow> desired < 2 ^ 63 \<Longrightarrow>
         unused_names (pe_rand env) ad {0 ..< desired} (stored (fst s)) (snd s) (nat desired) \<Longrightarrow>
         \<forall>i \<in> set (cr pods) \<union> set (rep pods). \<exists>k p. stored (fst s') k = Some p \<and> serves ad hash i k p"
      "\<And>promote. r = Inr promote \<Longrightarrow> 0 \<le> desired \<Longrightarrow> promote \<longleftrightarrow> to_replace hash pods [0 .. desired - 1] = []"
proof -
  obtain lr w0 where l: "ListOwnedPods (pe_client env) ad (fst s) = (lr, w0)"
    by (cases "ListOwnedPods (pe_client env) ad (fst s)")
  note w0 = ListOwnedPods_result(1) [OF l]
  show thesis
  proof (cases lr)
    case (Inl e)
    then show thesis
      using that(1) assms(1) l w0 by (auto simp: roll_pods_def)
  next
    case (Inr pods)
    let ?win = "[0 .. desired - 1]"
    let ?group = "groupPodsByReplica pods"
    have listed: "listed_pods ad (stored (fst s)) pods"
      using ListOwnedPods_result(2) [OF l assms(2) Inr] .
    then have dist: "distinct pods"
      by (simp add: listed_pods_def distinct_map)
    have cr: "distinct (cr pods)" "distinct (rep pods)" "set (cr pods) \<inter> set (rep pods) = {}"
      "set (cr pods) \<union> set (rep pods) \<subseteq> {0 ..< desired}" "length (cr pods) + length (rep pods) \<le> nat desired"
      using to_create_replaced [of ?win, OF _ fun_cong [OF assms(3)] fun_cong [OF assms(4)], of pods] by (auto simp: subset_iff)
    obtain r1 s1 where sd: "scale_down env desired ?group (w0, snd s) = (r1, s1)"
      by (cases "scale_down env desired ?group (w0, snd s)")
    let ?K = "keys_of (touched hash pods desired (rep pods)) pods"
    let ?R = "set (cr pods) \<union> set (rep pods)"
    have e0: "effect stored ad {} {} 0 s (w0, snd s)"
      using w0 by (simp add: effect_same)
    have e1: "effect stored ad ?K {} 0 s s1"
      by (rule effect_mono [OF effect_trans [OF e0 scale_down_effect [OF sd]]]) (auto simp: touched_def)
    show thesis
    proof (cases r1)
      case (Inl e)
      then have "s' = s1" "r = Inl e"
        using assms(1) l \<open>lr = Inr pods\<close> sd by (simp_all add: roll_pods_def Let_def)
      then show thesis
        using effect_mono [OF e1, of ?K ?R "nat desired"] by (intro that(2) [OF listed]) auto
    next
      case (Inr u)
      let ?acc = "\<lparr>needsCreate = [], needsReplace = [], updatedOnDesired = 0, updatedReadyOnDesired = 0\<rparr>"
      obtain r2 s2 where cl: "classify_slots env hash ?group ?win ?acc s1 = (r2, s2)"
        by (cases "classify_slots env hash ?group ?win ?acc s1")
      note sorted_out = classify_slots_effect [OF cl dist, of ad]
      have e2: "effect stored ad ?K {} 0 s s2"
        by (rule effect_mono [OF effect_trans [OF e1 conjunct1 [OF sorted_out]]]) (auto simp: touched_def)
      show thesis
      proof (cases r2)
        case (Inl e)
        then have "s' = s2" "r = Inl e"
          using assms(1) l \<open>lr = Inr pods\<close> sd Inr cl by (simp_all add: roll_pods_def Let_def)
        then show thesis
          using effect_mono [OF e2, of ?K ?R "nat desired"] by (intro that(2) [OF listed]) auto
      next
        case (Inr sl)
        then have roll: "roll_slots env ad desired ps hash ?group sl s2 = (r, s')"
          using assms(1) l \<open>lr = Inr pods\<close> sd \<open>r1 = Inr u\<close> cl by (simp add: roll_pods_def Let_def)
        have sl: "sl = \<lparr>needsCreate = to_create hash pods ?win, needsReplace = to_replace hash pods ?win,
            updatedOnDesired = length (updated_slots hash pods ?win), updatedReadyOnDesired = length (ready_slots hash pods ?win)\<rparr>"
          using sorted_out Inr by simp
        have win: "distinct ?win" "set ?win \<subseteq> {0 ..< desired}" "length ?win = nat desired"
          by auto
        have K: "keys_of (\<lambda>p. off_hash hash p \<and> pod_slot p \<in> set (rep pods)) pods \<subseteq> ?K" "\<forall>k \<in> ?K. stored (fst s) k \<noteq> None"
          using listed by (auto simp: touched_def listed_pods_def)
        note half = roll_slots_outcome [OF roll sl refl refl e2 win(1), folded fun_cong [OF assms(3)] fun_cong [OF assms(4)], OF K]
        have "effect stored ad ?K ?R (nat desired) s s'"
          by (rule effect_mono [OF half(1)]) (use cr(5) in auto)
        moreover have "\<forall>i \<in> ?R. \<exists>k p. stored (fst s') k = Some p \<and> serves ad hash i k p"
          if "r = Inr res" "desired < 2 ^ 63"
            "unused_names (pe_rand env) ad {0 ..< desired} (stored (fst s)) (snd s) (nat desired)" for res
        proof (rule half(2) [OF that(1)])
          show "set ?win \<subseteq> {0 ..< 2 ^ 63}"
            using that(2) by auto
          show "unused_names (pe_rand env) ad (set ?win) (stored (fst s)) (snd s) (length ?win)"
            by (rule unused_names_mono [OF that(3) win(2)]) simp
        qed
        moreover have "promote \<longleftrightarrow> to_replace hash pods ?win = []" if "r = Inr promote" "0 \<le> desired" for promote
          using roll_slots_promotes [OF roll [unfolded that(1)] sl] win(3) that(2) by simp
        ultimately show thesis
          by (rule that(2) [OF listed])
      qed
    qed
  qed
qed

end

end
