(* ===== verification/Rollout.thy ===== *)
theory Rollout
  imports PodEffects
begin

text \<open>
  The rolling update of \<open>pods.go\<close> against an API server that meets the contract \<open>kube\<close>.  The effect of
  a pass on the stored pods is bounded first, for every outcome; from it follow that a pass disrupts
  no more slots than its budget, that a converged set of pods is left alone, and that passes
  separated by a settling environment reach the wanted pods.
\<close>

section \<open>One pass\<close>

text \<open>Slots of the window that lose, or have altered, a live pod on another hash.\<close>

definition disrupted ::
  "AgentDeploy \<Rightarrow> string \<Rightarrow> int \<Rightarrow> (NamespacedName \<Rightarrow> Pod option) \<Rightarrow> (NamespacedName \<Rightarrow> Pod option) \<Rightarrow> int set" where
"disrupted ad hash desired m m' =
   {i. 0 \<le> i \<and> i < desired \<and>
       (\<exists>k p. m k = Some p \<and> owned_pod ad k p \<and> off_hash hash p \<and> pod_slot p = i \<and> m' k \<noteq> Some p)}"

lemma disrupted_same [simp]: "disrupted ad hash desired m m = {}"
  by (auto simp: disrupted_def)

definition pending :: "AgentDeploy \<Rightarrow> string \<Rightarrow> int \<Rightarrow> (NamespacedName \<Rightarrow> Pod option) \<Rightarrow> int set" where
"pending ad hash desired m = {i. 0 \<le> i \<and> i < desired \<and> \<not> (\<exists>k p. m k = Some p \<and> serves ad hash i k p)}"

lemma ResolveMaxUnavailable_pos: "1 \<le> ResolveMaxUnavailable scaled ad desired"
  by (simp add: ResolveMaxUnavailable_def Let_def split: option.split)

lemma listed_lookup:
  assumes "listed_pods ad m pods" "keyed m" "m k = Some p" "owned_pod ad k p"
  shows "p \<in> set pods" and "pod_key p = k" and "p' \<in> set pods \<Longrightarrow> pod_key p' = k \<Longrightarrow> p' = p"
  using assms by (auto simp: listed_pods_def keyed_def)

lemma find_SomeD: "find P xs = Some x \<Longrightarrow> x \<in> set xs \<and> P x"
  by (induction xs) (auto split: if_splits)

lemma kept_of_Some:
  "kept_of hash pods i = Some p \<Longrightarrow> p \<in> set pods \<and> on_hash hash p \<and> pod_slot p = i"
  by (auto simp: kept_of_def slot_pods_def dest: find_SomeD)

lemma kept_of_None: "kept_of hash pods i = None \<longleftrightarrow> (\<forall>p \<in> set pods. pod_slot p = i \<longrightarrow> \<not> on_hash hash p)"
  by (auto simp: kept_of_def slot_pods_def find_None_iff)

lemma pending_slots:
  assumes "listed_pods ad m pods" "keyed m"
  shows "pending ad hash desired m = {i. 0 \<le> i \<and> i < desired \<and> kept_of hash pods i = None}"
proof -
  have "(\<exists>k p. m k = Some p \<and> serves ad hash i k p) \<longleftrightarrow> \<not> kept_of hash pods i = None" for i
  proof
    assume "\<exists>k p. m k = Some p \<and> serves ad hash i k p"
    then obtain k p where "m k = Some p" "serves ad hash i k p"
      by blast
    then show "\<not> kept_of hash pods i = None"
      using listed_lookup(1) [OF assms] unfolding kept_of_None serves_def by blast
  next
    assume "\<not> kept_of hash pods i = None"
    then obtain p where "p \<in> set pods" "pod_slot p = i" "on_hash hash p"
      unfolding kept_of_None by blast
    then show "\<exists>k p. m k = Some p \<and> serves ad hash i k p"
      using assms(1) unfolding listed_pods_def serves_def by blast
  qed
  then show ?thesis
    by (simp add: pending_def)
qed

text \<open>What a pass may do, whatever its outcome, and what it achieves when it succeeds.\<close>

lemma status_irrelevant:
  "owned_pod (ad\<lparr>ad_Status := st\<rparr>) = owned_pod ad" "serves (ad\<lparr>ad_Status := st\<rparr>) = serves ad"
  "listed_pods (ad\<lparr>ad_Status := st\<rparr>) = listed_pods ad" "drawn_key rnd (ad\<lparr>ad_Status := st\<rparr>) = drawn_key rnd ad"
  "unused_names rnd (ad\<lparr>ad_Status := st\<rparr>) = unused_names rnd ad"
  "effect stored (ad\<lparr>ad_Status := st\<rparr>) = effect stored ad"
  "ResolveMaxUnavailable scaled (ad\<lparr>ad_Status := st\<rparr>) = ResolveMaxUnavailable scaled ad"
  "DesiredReplicas (ad\<lparr>ad_Status := st\<rparr>) = DesiredReplicas ad"
proof -
  show *: "owned_pod (ad\<lparr>ad_Status := st\<rparr>) = owned_pod ad" "drawn_key rnd (ad\<lparr>ad_Status := st\<rparr>) = drawn_key rnd ad"
    by (simp_all add: fun_eq_iff owned_pod_def drawn_key_def)
  show "serves (ad\<lparr>ad_Status := st\<rparr>) = serves ad" "listed_pods (ad\<lparr>ad_Status := st\<rparr>) = listed_pods ad"
    "unused_names rnd (ad\<lparr>ad_Status := st\<rparr>) = unused_names rnd ad"
    by (simp_all add: fun_eq_iff serves_def listed_pods_def unused_names_def *)
  have "pod_name_keys (ad\<lparr>ad_Status := st\<rparr>) = pod_name_keys ad"
    by (simp add: fun_eq_iff pod_name_keys_def)
  then show "effect stored (ad\<lparr>ad_Status := st\<rparr>) = effect stored ad"
    by (simp add: fun_eq_iff effect_def)
qed (simp_all add: fun_eq_iff ResolveMaxUnavailable_def DesiredReplicas_def)

context pod_rollout
begin

lemma reconcilePods_roll:
  assumes "reconcilePods env now ps ad s = (r, ad', s')"
  obtains st r1 where "roll_pods env (ad\<lparr>ad_Status := st\<rparr>) (DesiredReplicas ad) ps (pe_hash env ps) s = (r1, s')"
    "\<And>b. r1 = Inr b \<Longrightarrow> r = Inr () \<and> (b \<longrightarrow> adst_CurrentHash (ad_Status ad') = pe_hash env ps)"
    "\<And>e. r1 = Inl e \<Longrightarrow> r = Inl e"
  using assms by (auto simp: reconcilePods_def Let_def split: prod.splits sum.splits if_splits) blast+

lemma pass_outcome:
  assumes "reconcilePods env now ps ad s = (r, ad', s')" "keyed (stored (fst s))"
    and "hash = pe_hash env ps" "desired = DesiredReplicas ad"
    and "cr = (\<lambda>pods. to_create hash pods [0 .. desired - 1])"
    and "rep = (\<lambda>pods. replaced hash pods (ResolveMaxUnavailable (pe_scaled env) ad desired) [0 .. desired - 1])"
  obtains e where "r = Inl e" "stored (fst s') = stored (fst s)"
  | pods where "listed_pods ad (stored (fst s)) pods"
      "effect stored ad (keys_of (touched hash pods desired (rep pods)) pods) (set (cr pods) \<union> set (rep pods)) (nat desired) s s'"
      "r = Inr () \<Longrightarrow> desired < 2 ^ 63 \<Longrightarrow>
         unused_names (pe_rand env) ad {0 ..< desired} (stored (fst s)) (snd s) (nat desired) \<Longrightarrow>
         \<forall>i \<in> set (cr pods) \<union> set (rep pods). \<exists>k p. stored (fst s') k = Some p \<and> serves ad hash i k p"
      "r = Inr () \<Longrightarrow> 0 \<le> desired \<Longrightarrow> to_replace hash pods [0 .. desired - 1] = [] \<Longrightarrow> adst_CurrentHash (ad_Status ad') = hash"
proof -
  obtain st r1 where roll: "roll_pods env (ad\<lparr>ad_Status := st\<rparr>) desired ps hash s = (r1, s')"
    and ok: "\<And>b. r1 = Inr b \<Longrightarrow> r = Inr () \<and> (b \<longrightarrow> adst_CurrentHash (ad_Status ad') = hash)"
    and err: "\<And>e. r1 = Inl e \<Longrightarrow> r = Inl e"
    using reconcilePods_roll [OF assms(1), folded assms(3,4)] by metis
  have r1: "\<exists>b. r1 = Inr b" if "r = Inr ()"
    using that err by (cases r1) auto
  show thesis
    using roll assms(2)
  proof (rule roll_pods_outcome [OF _ _ refl refl], goal_cases)
    case (1 e)
    then show ?case
      using that(1) err by blast
  next
    case (2 pods)
    note out = 2 [unfolded status_irrelevant, folded fun_cong [OF assms(5)] fun_cong [OF assms(6)]]
    show ?case
      by (rule that(2) [OF out(1,2)]) (use out(3,4) r1 ok in blast)+
  qed
qed

text \<open>A stored pod that a pass altered is one it may touch.\<close>

lemma altered_touched:
  assumes "listed_pods ad m pods" "keyed m" "effect stored ad (keys_of P pods) R c s s'" "m = stored (fst s)"
    and "m k = Some p" "stored (fst s') k \<noteq> Some p"
  shows "P p \<and> owned_pod ad k p"
proof -
  have "k \<in> keys_of P pods"
    using assms(3-6) by (auto simp: effect_def)
  then obtain p' where p': "p' \<in> set pods" "P p'" "pod_key p' = k"
    by auto
  then have "m k = Some p'" "owned_pod ad k p'"
    using assms(1) by (auto simp: listed_pods_def)
  then show ?thesis
    using assms(5) p'(2) by simp
qed

lemma pass_disruption:
  assumes run: "reconcilePods env now ps ad s = (r, ad', s')" "keyed (stored (fst s))"
    and hd: "hash = pe_hash env ps" "desired = DesiredReplicas ad"
  shows "card (disrupted ad hash desired (stored (fst s)) (stored (fst s'))) \<le> nat (ResolveMaxUnavailable (pe_scaled env) ad desired)"
    and "0 \<le> i \<Longrightarrow> i < desired \<Longrightarrow> stored (fst s) k = Some p \<Longrightarrow> serves ad hash i k p \<Longrightarrow>
      \<exists>k' p'. stored (fst s) k' = Some p' \<and> serves ad hash i k' p' \<and> stored (fst s') k' = Some p'"
    and "0 \<le> i \<Longrightarrow> i < desired \<Longrightarrow> stored (fst s) k = Some p \<Longrightarrow> serves ad hash i k p \<Longrightarrow>
      (\<And>k' p'. stored (fst s) k' = Some p' \<Longrightarrow> serves ad hash i k' p' \<Longrightarrow> \<not> podReady p') \<Longrightarrow>
      disrupted ad hash desired (stored (fst s)) (stored (fst s')) = {}"
    and "stored (fst s) k = Some p \<Longrightarrow> \<not> owned_pod ad k p \<Longrightarrow> stored (fst s') k = Some p"
proof -
  let ?b = "ResolveMaxUnavailable (pe_scaled env) ad desired"
  let ?win = "[0 .. desired - 1]"
  consider "stored (fst s') = stored (fst s)"
  | pods where "listed_pods ad (stored (fst s)) pods"
      "effect stored ad (keys_of (touched hash pods desired (replaced hash pods ?b ?win)) pods)
         (set (to_create hash pods ?win) \<union> set (replaced hash pods ?b ?win)) (nat desired) s s'"
    by (rule pass_outcome [OF run hd refl refl]) blast+
  note outcome = this
  have sub: "disrupted ad hash desired (stored (fst s)) (stored (fst s')) \<subseteq> set (replaced hash pods ?b ?win)"
    if "listed_pods ad (stored (fst s)) pods"
      "effect stored ad (keys_of (touched hash pods desired (replaced hash pods ?b ?win)) pods)
         (set (to_create hash pods ?win) \<union> set (replaced hash pods ?b ?win)) (nat desired) s s'" for pods
    using altered_touched [OF that(1) run(2) that(2) refl] hash_excl(2)
    by (auto simp: disrupted_def touched_def)
  show "card (disrupted ad hash desired (stored (fst s)) (stored (fst s'))) \<le> nat ?b"
    using outcome
  proof cases
    case (2 pods)
    have "card (set (replaced hash pods ?b ?win)) \<le> nat ?b"
      using card_length [of "replaced hash pods ?b ?win"] by (simp add: replaced_def split: if_splits)
    then show ?thesis
      using card_mono [OF _ sub [OF 2]] by simp
  qed simp
  show "\<exists>k' p'. stored (fst s) k' = Some p' \<and> serves ad hash i k' p' \<and> stored (fst s') k' = Some p'"
    if sv: "0 \<le> i" "i < desired" "stored (fst s) k = Some p" "serves ad hash i k p"
    using outcome
  proof cases
    case 1
    then show ?thesis
      using sv by auto
  next
    case (2 pods)
    have "i \<notin> pending ad hash desired (stored (fst s))"
      using sv by (auto simp: pending_def)
    then obtain q where q: "kept_of hash pods i = Some q"
      using sv pending_slots [OF 2(1) run(2)] by auto
    note facts = kept_of_Some [OF q]
    have "\<not> touched hash pods desired (replaced hash pods ?b ?win) q"
      using q facts sv hash_excl(1) by (auto simp: touched_def)
    moreover have "stored (fst s) (pod_key q) = Some q" "owned_pod ad (pod_key q) q"
      using facts 2(1) by (auto simp: listed_pods_def)
    ultimately show ?thesis
      using altered_touched [OF 2(1) run(2) 2(2) refl] facts by (metis serves_def)
  qed
  show "disrupted ad hash desired (stored (fst s)) (stored (fst s')) = {}"
    if i: "0 \<le> i" "i < desired" "stored (fst s) k = Some p" "serves ad hash i k p"
      and "\<And>k' p'. stored (fst s) k' = Some p' \<Longrightarrow> serves ad hash i k' p' \<Longrightarrow> \<not> podReady p'"
    using outcome
  proof cases
    case (2 pods)
    have "i \<notin> pending ad hash desired (stored (fst s))"
      using i by (auto simp: pending_def)
    then obtain q where q: "kept_of hash pods i = Some q"
      using i pending_slots [OF 2(1) run(2)] by auto
    then have "stored (fst s) (pod_key q) = Some q" "serves ad hash i (pod_key q) q"
      using kept_of_Some [OF q] 2(1) by (auto simp: listed_pods_def serves_def)
    then have "\<not> podReady q"
      by (rule that(5))
    then have "set (ready_slots hash pods ?win) \<subset> set (updated_slots hash pods ?win)"
      using q i by (auto simp: ready_slots_def updated_slots_def split: option.splits)
    then have "card (set (ready_slots hash pods ?win)) < card (set (updated_slots hash pods ?win))"
      by (rule psubset_card_mono [rotated]) simp
    moreover have "distinct (ready_slots hash pods ?win)" "distinct (updated_slots hash pods ?win)"
      by (simp_all add: ready_slots_def updated_slots_def)
    ultimately have "replaced hash pods ?b ?win = []"
      by (simp add: replaced_def distinct_card)
    then show ?thesis
      using sub [OF 2] by simp
  qed simp
  show "stored (fst s') k = Some p" if "stored (fst s) k = Some p" "\<not> owned_pod ad k p"
    using outcome
  proof cases
    case (2 pods)
    then show ?thesis
      using altered_touched [OF 2(1) run(2) 2(2) refl] that by blast
  qed (use that in simp)
qed

lemma pass_noop:
  assumes run: "reconcilePods env now ps ad s = (Inr (), ad', s')" "keyed (stored (fst s))"
    and hd: "hash = pe_hash env ps" "desired = DesiredReplicas ad" and "0 \<le> desired"
    and one: "\<And>i. 0 \<le> i \<Longrightarrow> i < desired \<Longrightarrow> \<exists>!k. \<exists>p. stored (fst s) k = Some p \<and> serves ad hash i k p"
    and inside: "\<And>k p. stored (fst s) k = Some p \<Longrightarrow> owned_pod ad k p \<Longrightarrow> live p \<Longrightarrow> 0 \<le> pod_slot p \<and> pod_slot p < desired"
  shows "stored (fst s') = stored (fst s) \<and> adst_CurrentHash (ad_Status ad') = hash"
proof -
  let ?b = "ResolveMaxUnavailable (pe_scaled env) ad desired"
  let ?win = "[0 .. desired - 1]"
  obtain pods where listed: "listed_pods ad (stored (fst s)) pods"
    and eff: "effect stored ad (keys_of (touched hash pods desired (replaced hash pods ?b ?win)) pods)
         (set (to_create hash pods ?win) \<union> set (replaced hash pods ?b ?win)) (nat desired) s s'"
    and promote: "to_replace hash pods ?win = [] \<Longrightarrow> adst_CurrentHash (ad_Status ad') = hash"
    by (rule pass_outcome [OF run hd refl refl]) (use assms(5) in auto)
  have kept: "\<exists>p. kept_of hash pods i = Some p" if i: "0 \<le> i" "i < desired" for i
  proof -
    obtain k p where "stored (fst s) k = Some p" "serves ad hash i k p"
      using one [OF i] by blast
    then have "i \<notin> pending ad hash desired (stored (fst s))"
      using i by (auto simp: pending_def)
    then show ?thesis
      using i pending_slots [OF listed run(2)] by auto
  qed
  then have none: "to_create hash pods ?win = []" "to_replace hash pods ?win = []"
    by (auto simp: to_create_def to_replace_def filter_empty_conv)
  then have rep: "replaced hash pods ?b ?win = []"
    by (simp add: replaced_def)
  have untouched: "\<not> touched hash pods desired [] p" if "p \<in> set pods" for p
  proof -
    have p: "stored (fst s) (pod_key p) = Some p" "owned_pod ad (pod_key p) p"
      using that listed by (auto simp: listed_pods_def)
    have "kept_of hash pods (pod_slot p) = Some p" if in_win: "on_hash hash p" "0 \<le> pod_slot p" "pod_slot p < desired"
    proof -
      obtain q where q: "kept_of hash pods (pod_slot p) = Some q"
        using kept in_win by blast
      then have "stored (fst s) (pod_key q) = Some q" "serves ad hash (pod_slot p) (pod_key q) q"
        using kept_of_Some [OF q] listed by (auto simp: listed_pods_def serves_def)
      then have "pod_key q = pod_key p"
        using one [OF in_win(2,3)] p in_win(1) unfolding serves_def by blast
      then show ?thesis
        using q p \<open>stored (fst s) (pod_key q) = Some q\<close> by simp
    qed
    then show ?thesis
      using inside [OF p] by (auto simp: touched_def)
  qed
  then have "effect stored ad {} {} (nat desired) s s'"
    using effect_mono [OF eff, of "{}" "{}" "nat desired"] by (auto simp: none rep)
  then have "stored (fst s') k = stored (fst s) k" for k
    by (cases "stored (fst s) k") (auto simp: effect_def)
  then show ?thesis
    using promote none by auto
qed

lemma pass_progress:
  assumes run: "reconcilePods env now ps ad s = (Inr (), ad', s')" "keyed (stored (fst s))"
    and hd: "hash = pe_hash env ps" "desired = DesiredReplicas ad" and "desired < 2 ^ 63"
    and names: "unused_names (pe_rand env) ad {0 ..< desired} (stored (fst s)) (snd s) (nat desired)"
    and ready: "\<And>k p. stored (fst s) k = Some p \<Longrightarrow> owned_pod ad k p \<Longrightarrow> live p \<Longrightarrow> podReady p"
  shows "card (pending ad hash desired (stored (fst s'))) \<le>
         card (pending ad hash desired (stored (fst s))) - nat (ResolveMaxUnavailable (pe_scaled env) ad desired)"
proof -
  let ?b = "ResolveMaxUnavailable (pe_scaled env) ad desired"
  let ?win = "[0 .. desired - 1]"
  obtain pods where listed: "listed_pods ad (stored (fst s)) pods"
    and filled: "\<forall>i \<in> set (to_create hash pods ?win) \<union> set (replaced hash pods ?b ?win).
      \<exists>k p. stored (fst s') k = Some p \<and> serves ad hash i k p"
    by (rule pass_outcome [OF run hd refl refl]) (use assms(5) names in auto)
  have "podReady q" if "kept_of hash pods i = Some q" for q i
    using kept_of_Some [OF that] listed ready by (auto simp: listed_pods_def on_hash_def)
  then have "ready_slots hash pods ?win = updated_slots hash pods ?win"
    unfolding ready_slots_def updated_slots_def by (intro filter_cong) (auto split: option.splits)
  then have rep: "replaced hash pods ?b ?win = take (nat ?b) (to_replace hash pods ?win)"
    by (simp add: replaced_def)
  have pend: "pending ad hash desired (stored (fst s)) = set (to_create hash pods ?win) \<union> set (to_replace hash pods ?win)"
    unfolding pending_slots [OF listed run(2)] by (auto simp: to_create_def to_replace_def)
  have "pending ad hash desired (stored (fst s')) \<subseteq> set (drop (nat ?b) (to_replace hash pods ?win))"
  proof
    fix i
    assume i: "i \<in> pending ad hash desired (stored (fst s'))"
    then have "i \<in> pending ad hash desired (stored (fst s))"
      using pass_disruption(2) [OF run hd] by (fastforce simp: pending_def)
    moreover have "i \<notin> set (to_create hash pods ?win) \<union> set (take (nat ?b) (to_replace hash pods ?win))"
      using i filled rep by (auto simp: pending_def)
    ultimately show "i \<in> set (drop (nat ?b) (to_replace hash pods ?win))"
      using pend by (metis UnE UnI1 UnI2 append_take_drop_id set_append)
  qed
  then have "card (pending ad hash desired (stored (fst s'))) \<le> length (drop (nat ?b) (to_replace hash pods ?win))"
    using card_mono [of "set (drop (nat ?b) (to_replace hash pods ?win))"] card_length le_trans by blast
  moreover have "length (to_replace hash pods ?win) \<le> card (pending ad hash desired (stored (fst s)))"
  proof -
    have "distinct (to_replace hash pods ?win)"
      by (simp add: to_replace_def)
    then have "length (to_replace hash pods ?win) = card (set (to_replace hash pods ?win))"
      by (simp add: distinct_card)
    then show ?thesis
      unfolding pend by (simp add: card_mono)
  qed
  ultimately show ?thesis
    by simp
qed

end

section \<open>Passes that do not fail\<close>

locale reliable_rollout = pod_rollout env stored + reliable_kube "pe_client env" stored pod_dele Q
  for env :: "'w pod_env" and stored Q
begin

lemma deletePod_succeeds: "Q (fst s) \<Longrightarrow> \<exists>s'. deletePod env p s = (Inr (), s') \<and> Q (fst s')"
  using delete_serves [of "fst s" "pod_key p"]
  by (cases s; cases "kdelete (pe_client env) (pod_key p) (fst s)") (fastforce simp: deletePod_def)

lemma delete_loop_succeeds:
  assumes "Q (fst s)"
  shows "\<exists>s'. for_each (\<lambda>p s. if P p then (Inr (), s) else deletePod env p s) pods s = (Inr (), s') \<and> Q (fst s')"
proof (rule for_each_succeeds [where I = "\<lambda>s. Q (fst s)"])
  show "\<exists>s'. (if P p then (Inr (), s) else deletePod env p s) = (Inr (), s') \<and> Q (fst s')" if "Q (fst s)" for p s
    using deletePod_succeeds [OF that, of p] that by (cases "P p") auto
qed (rule assms)

lemma createPod_succeeds: "Q (fst s) \<Longrightarrow> \<exists>s'. createPodForReplica env ad ps hash i s = (Inr (), s') \<and> Q (fst s')"
proof -
  assume "Q (fst s)"
  obtain w n where s: "s = (w, n)"
    by (cases s)
  define pod where "pod = newPod (pe_owner env ad) ad i ps hash (RandomLowerCaseString (pe_rand env) n randomSuffixLength)"
  obtain r w' where c: "kcreate (pe_client env) (pod_key pod) pod w = (r, w')"
    by (cases "kcreate (pe_client env) (pod_key pod) pod w")
  then have "Q w'" "r = Inr () \<or> r = Inl AlreadyExists"
    using create_serves [of w] \<open>Q (fst s)\<close> s by auto
  then show ?thesis
    using c s by (auto simp: createPodForReplica_def Let_def pod_def)
qed

lemma scan_slot_succeeds: "Q (fst s) \<Longrightarrow> \<exists>res s'. scan_slot env hash pods kept old s = (Inr res, s') \<and> Q (fst s')"
proof (induction pods arbitrary: kept old s)
  case (Cons p pods)
  consider "\<not> live p" | "off_hash hash p" | "on_hash hash p"
    using hash_excl(5) by blast
  then show ?case
  proof cases
    case 3
    obtain s1 where "deletePod env p s = (Inr (), s1)" "Q (fst s1)"
      using deletePod_succeeds [OF Cons.prems] by blast
    then show ?thesis
      using Cons 3 by (cases kept) (simp_all add: scan_slot_Cons)
  qed (use Cons in \<open>simp_all add: scan_slot_Cons\<close>)
qed simp

lemma classify_slots_succeeds:
  "Q (fst s) \<Longrightarrow> \<exists>res s'. classify_slots env hash g rs acc s = (Inr res, s') \<and> Q (fst s')"
proof (induction rs arbitrary: acc s)
  case (Cons i rs)
  obtain kept old s1 where "scan_slot env hash (the_default [] (fmlookup g i)) None False s = (Inr (kept, old), s1)" "Q (fst s1)"
    using scan_slot_succeeds [OF Cons.prems] by (metis surj_pair)
  then show ?case
    using Cons.IH by (cases kept; cases old) simp_all
qed simp

lemma scale_down_succeeds: "Q (fst s) \<Longrightarrow> \<exists>s'. scale_down env desired g s = (Inr (), s') \<and> Q (fst s')"
  unfolding scale_down_def
proof (rule for_each_succeeds [where I = "\<lambda>s. Q (fst s)"])
  show "\<exists>s'. (if 0 \<le> i \<and> i < desired then (Inr (), s)
        else for_each (deletePod env) (the_default [] (fmlookup g i)) s) = (Inr (), s') \<and> Q (fst s')"
    if "Q (fst s)" for i s
    using delete_loop_succeeds [OF that, of "\<lambda>_. False" "the_default [] (fmlookup g i)"] that by (cases "0 \<le> i \<and> i < desired") auto
qed

lemma replace_slot_succeeds: "Q (fst s) \<Longrightarrow> \<exists>s'. replace_slot env ad ps hash g i s = (Inr (), s') \<and> Q (fst s')"
proof -
  assume q: "Q (fst s)"
  let ?f = "\<lambda>p s. if \<not> live p \<or> pod_hash p = hash then (Inr (), s) else deletePod env p s"
  obtain s1 where "for_each ?f (the_default [] (fmlookup g i)) s = (Inr (), s1)" "Q (fst s1)"
    using delete_loop_succeeds [OF q, of "\<lambda>p. \<not> live p \<or> pod_hash p = hash"] by blast
  then show ?thesis
    using createPod_succeeds by (simp add: replace_slot_def)
qed

lemma roll_slots_succeeds:
  "Q (fst s) \<Longrightarrow> \<exists>b s'. roll_slots env ad desired ps hash g sl s = (Inr b, s') \<and> Q (fst s')"
proof -
  assume "Q (fst s)"
  then obtain s1 where s1: "for_each (createPodForReplica env ad ps hash) (needsCreate sl) s = (Inr (), s1)" "Q (fst s1)"
    using for_each_succeeds [where I = "\<lambda>s. Q (fst s)"] createPod_succeeds by meson
  let ?xs = "take (nat (min (ResolveMaxUnavailable (pe_scaled env) ad desired) (int (length (needsReplace sl))))) (needsReplace sl)"
  have "\<exists>s2. for_each (replace_slot env ad ps hash g) ?xs s1 = (Inr (), s2) \<and> Q (fst s2)"
    by (rule for_each_succeeds) (use replace_slot_succeeds s1(2) in auto)
  then obtain s2 where "for_each (replace_slot env ad ps hash g) ?xs s1 = (Inr (), s2)" "Q (fst s2)"
    by blast
  then show ?thesis
    using s1 by (cases "needsReplace sl = []"; cases "updatedReadyOnDesired sl < updatedOnDesired sl")
      (auto simp: roll_slots_def Let_def)
qed

lemma pass_succeeds:
  assumes "Q (fst s)"
  shows "\<exists>ad' s'. reconcilePods env now ps ad s = (Inr (), ad', s') \<and> Q (fst s')"
proof -
  let ?ad = "ad\<lparr>ad_Status := start_rollout now (DesiredReplicas ad) (pe_hash env ps) (ad_Status ad)\<rparr>"
  obtain items w1 where l: "klist (pe_client env) (owned_pod ?ad) (fst s) = (Inr items, w1)" "Q w1"
    using list_serves [OF assms] by (metis surj_pair)
  let ?g = "groupPodsByReplica (map snd items)"
  obtain s2 where s2: "scale_down env (DesiredReplicas ad) ?g (w1, snd s) = (Inr (), s2)" "Q (fst s2)"
    using scale_down_succeeds [of "(w1, snd s)" "DesiredReplicas ad" ?g] l(2) by auto
  obtain sl s3 where s3: "classify_slots env (pe_hash env ps) ?g [0 .. DesiredReplicas ad - 1]
      \<lparr>needsCreate = [], needsReplace = [], updatedOnDesired = 0, updatedReadyOnDesired = 0\<rparr> s2 = (Inr sl, s3)" "Q (fst s3)"
    using classify_slots_succeeds [OF s2(2)] by blast
  obtain b s4 where "roll_slots env ?ad (DesiredReplicas ad) ps (pe_hash env ps) ?g sl s3 = (Inr b, s4)" "Q (fst s4)"
    using roll_slots_succeeds [OF s3(2)] by blast
  then show ?thesis
    using l(1) s2(1) s3(1) by (simp add: reconcilePods_def roll_pods_def ListOwnedPods_def Let_def)
qed

end

section \<open>Runs\<close>

text \<open>A world in which every live pod of the deploy is ready, and the environment's part between two
  passes: live pods stay, with their metadata.\<close>

definition settled :: "('w \<Rightarrow> NamespacedName \<Rightarrow> Pod option) \<Rightarrow> ('w \<Rightarrow> bool) \<Rightarrow> AgentDeploy \<Rightarrow> 'w \<Rightarrow> bool" where
"settled stored Q ad w \<longleftrightarrow>
   Q w \<and> keyed (stored w) \<and> (\<forall>k p. stored w k = Some p \<longrightarrow> owned_pod ad k p \<longrightarrow> live p \<longrightarrow> podReady p)"

definition settles :: "('w \<Rightarrow> NamespacedName \<Rightarrow> Pod option) \<Rightarrow> AgentDeploy \<Rightarrow> 'w \<Rightarrow> 'w \<Rightarrow> bool" where
"settles stored ad w w' \<longleftrightarrow>
   (\<forall>k p. stored w k = Some p \<longrightarrow> owned_pod ad k p \<longrightarrow> live p \<longrightarrow> (\<exists>p'. stored w' k = Some p' \<and> pod_Meta p' = pod_Meta p))"

text \<open>A number of passes, each from a settled world, with any status and clock.\<close>

inductive rollout ::
  "'w pod_env \<Rightarrow> ('w \<Rightarrow> NamespacedName \<Rightarrow> Pod option) \<Rightarrow> ('w \<Rightarrow> bool) \<Rightarrow> PodSpec \<Rightarrow> AgentDeploy \<Rightarrow>
   nat \<Rightarrow> 'w \<times> nat \<Rightarrow> 'w \<times> nat \<Rightarrow> bool"
  for env stored Q ps ad where
start: "settled stored Q ad (fst s) \<Longrightarrow> rollout env stored Q ps ad 0 s s" |
pass: "rollout env stored Q ps ad j s t \<Longrightarrow>
       unused_names (pe_rand env) ad {0 ..< DesiredReplicas ad} (stored (fst t)) (snd t) (nat (DesiredReplicas ad)) \<Longrightarrow>
       reconcilePods env now ps (ad\<lparr>ad_Status := st\<rparr>) t = (r, ad', t') \<Longrightarrow>
       settles stored ad (fst t') (fst u) \<Longrightarrow> settled stored Q ad (fst u) \<Longrightarrow>
       rollout env stored Q ps ad (Suc j) s u"

inductive_cases rolloutE: "rollout env stored Q ps ad j s u"

lemma rollout_settled: "rollout env stored Q ps ad j s u \<Longrightarrow> settled stored Q ad (fst s) \<and> settled stored Q ad (fst u)"
  by (induction rule: rollout.induct) auto

lemma settles_pending:
  "settles stored ad w w' \<Longrightarrow> pending ad hash desired (stored w') \<subseteq> pending ad hash desired (stored w)"
  by (fastforce simp: settles_def pending_def serves_def on_hash_def live_def owned_pod_def pod_hash_def pod_slot_def)

context reliable_rollout
begin

lemma rollout_progress:
  assumes "rollout env stored Q ps ad j s u" "DesiredReplicas ad < 2 ^ 63" "hash = pe_hash env ps" "desired = DesiredReplicas ad"
  shows "card (pending ad hash desired (stored (fst u))) \<le>
         card (pending ad hash desired (stored (fst s))) - j * nat (ResolveMaxUnavailable (pe_scaled env) ad desired)"
  using assms(1)
proof (induction rule: rollout.induct)
  case (pass j s t now st r ad' t' u)
  let ?b = "nat (ResolveMaxUnavailable (pe_scaled env) ad desired)"
  note ok = rollout_settled [OF pass.hyps(1)]
  obtain ad'' t'' where "reconcilePods env now ps (ad\<lparr>ad_Status := st\<rparr>) t = (Inr (), ad'', t'')"
    using pass_succeeds ok unfolding settled_def by blast
  then have run: "reconcilePods env now ps (ad\<lparr>ad_Status := st\<rparr>) t = (Inr (), ad', t')"
    using pass.hyps(3) by simp
  have "card (pending (ad\<lparr>ad_Status := st\<rparr>) hash desired (stored (fst t'))) \<le> card (pending (ad\<lparr>ad_Status := st\<rparr>) hash desired (stored (fst t))) - ?b"
    using pass_progress [OF run, of hash desired] ok pass.hyps(2) assms(2-4)
    unfolding status_irrelevant settled_def by blast
  moreover have "pending (ad\<lparr>ad_Status := st\<rparr>) = pending ad"
    by (simp add: fun_eq_iff pending_def status_irrelevant)
  moreover have "card (pending ad hash desired (stored (fst u))) \<le> card (pending ad hash desired (stored (fst t')))"
    using settles_pending [OF pass.hyps(4)]
    by (rule card_mono [rotated]) (rule finite_subset [of _ "{0 ..< desired}"], auto simp: pending_def)
  ultimately show ?case
    using pass.IH by simp
qed simp

end

section \<open>The in-memory server\<close>

definition terminate :: "Pod \<Rightarrow> Pod option" where
"terminate p = Some (p\<lparr>pod_Meta := (pod_Meta p)\<lparr>om_DeletionTimestamp := Some 0\<rparr>\<rparr>)"

definition mem_env ::
  "(nat \<Rightarrow> nat) \<Rightarrow> (AgentDeploy \<Rightarrow> OwnerReference) \<Rightarrow> (PodSpec \<Rightarrow> string) \<Rightarrow> (IntOrString \<Rightarrow> int \<Rightarrow> bool \<Rightarrow> int option) \<Rightarrow>
   (NamespacedName, Pod) mem pod_env" where
"mem_env rnd owner hash scaled =
   \<lparr>pe_client = mem_client terminate, pe_rand = rnd, pe_owner = owner, pe_ord = sorted_list_of_fset,
    pe_hash = hash, pe_scaled = scaled\<rparr>"

lemma mem_env_sel [simp]:
  "pe_client (mem_env rnd owner hash scaled) = mem_client terminate" "pe_rand (mem_env rnd owner hash scaled) = rnd"
  "pe_owner (mem_env rnd owner hash scaled) = owner" "pe_ord (mem_env rnd owner hash scaled) = sorted_list_of_fset"
  "pe_hash (mem_env rnd owner hash scaled) = hash" "pe_scaled (mem_env rnd owner hash scaled) = scaled"
  by (simp_all add: mem_env_def)

lemma mem_pods_kube: "kube (mem_client terminate) mem_stored pod_dele"
  by (rule kube_dele_mono [OF mem.kube_axioms]) (simp add: terminate_def pod_dele_def live_def)

interpretation mem_pods: reliable_rollout "mem_env rnd owner hash scaled" mem_stored "\<lambda>m. faults m = []"
  for rnd owner hash scaled
proof -
  show "reliable_rollout (mem_env rnd owner hash scaled) mem_stored (\<lambda>m. faults m = [])"
    by (intro reliable_rollout.intro pod_rollout.intro reliable_kube.intro)
      (simp_all add: mem_pods_kube sorted_order.map_order_axioms mem_reliable.reliable_kube_axioms [unfolded reliable_kube_def, THEN conjunct2])
qed

section \<open>Properties\<close>

definition ready_cond :: PodCondition where
"ready_cond = \<lparr>pc_Type = ''Ready'', pc_Status = ConditionTrue\<rparr>"

definition demo_owner :: "AgentDeploy \<Rightarrow> OwnerReference" where
"demo_owner ad = controller_ref ''AgentDeploy'' (om_Name (ad_Meta ad)) ''u''"

text \<open>Two replicas on hash \<open>old\<close>, both ready, in an API server without faults.\<close>

definition demo_two :: AgentDeploy where
"demo_two = demo_deploy\<lparr>ad_Spec := (ad_Spec demo_deploy)\<lparr>ads_Replicas := Some 2\<rparr>\<rparr>"

definition demo_old :: "int \<Rightarrow> Pod" where
"demo_old i = (newPod (demo_owner demo_two) demo_two i new_pod_spec ''old'' ''zzzzz'')\<lparr>pod_Conditions := [ready_cond]\<rparr>"

definition demo_world :: "(NamespacedName, Pod) mem" where
"demo_world = \<lparr>objects = [(pod_key (demo_old 0), demo_old 0), (pod_key (demo_old 1), demo_old 1)], faults = []\<rparr>"

definition demo_env :: "(NamespacedName, Pod) mem pod_env" where
"demo_env = mem_env (\<lambda>_. 0) demo_owner (\<lambda>_. ''new'') (\<lambda>_ _ _. Some 1)"

lemma demo_old_facts:
  "pod_key (demo_old 0) \<noteq> pod_key (demo_old 1)" "DesiredReplicas demo_two = 2" "DesiredReplicas demo_deploy = 1"
  "ResolveMaxUnavailable (pe_scaled demo_env) ad d = 1" "pe_hash demo_env ps = ''new''"
  "kube (pe_client demo_env) mem_stored pod_dele" "map_order (pe_ord demo_env)"
  "reliable_kube (pe_client demo_env) mem_stored pod_dele (\<lambda>m. faults m = [])"
proof -
  show "pod_key (demo_old 0) \<noteq> pod_key (demo_old 1)" "DesiredReplicas demo_two = 2" "DesiredReplicas demo_deploy = 1"
    by code_simp+
qed (simp_all add: demo_env_def ResolveMaxUnavailable_def Let_def mem_pods_kube sorted_order.map_order_axioms
    mem_pods.reliable_kube_axioms [simplified])

lemma keyed_map_of: "list_all (\<lambda>(k, p). pod_key p = k) kps \<Longrightarrow> keyed (map_of kps)"
  by (auto simp: keyed_def list_all_iff dest!: map_of_SomeD)

definition demo_new :: Pod where
"demo_new = newPod (demo_owner demo_deploy) demo_deploy 0 new_pod_spec ''new'' ''yyyyy''"

text \<open>One wanted pod, and a live leftover of the old hash in its slot.\<close>

definition demo_leftover :: "(NamespacedName, Pod) mem" where
"demo_leftover = \<lparr>objects = [(pod_key demo_new, demo_new), (pod_key (demo_old 0), demo_old 0)], faults = []\<rparr>"

lemma demo_leftover_facts:
  "pod_key demo_new \<noteq> pod_key (demo_old 0)" "serves demo_deploy ''new'' 0 (pod_key demo_new) demo_new"
  "\<not> serves demo_deploy ''new'' i (pod_key (demo_old 0)) (demo_old 0)"
  "pod_slot demo_new = 0" "pod_slot (demo_old 0) = 0" "live (demo_old 0)"
proof -
  have "pod_hash (demo_old 0) \<noteq> ''new''"
    by code_simp
  then show "\<not> serves demo_deploy ''new'' i (pod_key (demo_old 0)) (demo_old 0)"
    by (simp add: serves_def on_hash_def)
  show "pod_key demo_new \<noteq> pod_key (demo_old 0)" "serves demo_deploy ''new'' 0 (pod_key demo_new) demo_new"
    "pod_slot demo_new = 0" "pod_slot (demo_old 0) = 0" "live (demo_old 0)"
    by code_simp+
qed

text \<open>The pods of a world become ready.\<close>

definition demo_ready :: "(NamespacedName, Pod) mem \<Rightarrow> (NamespacedName, Pod) mem" where
"demo_ready w = w\<lparr>objects := map (\<lambda>(k, p). (k, p\<lparr>pod_Conditions := [ready_cond]\<rparr>)) (objects w)\<rparr>"

definition demo_single :: "(NamespacedName, Pod) mem" where
"demo_single = \<lparr>objects = [(pod_key (demo_old 0), demo_old 0)], faults = []\<rparr>"

lemma demo_ready_stored: "mem_stored (demo_ready w) k = map_option (\<lambda>p. p\<lparr>pod_Conditions := [ready_cond]\<rparr>) (mem_stored w k)"
proof -
  have "map_of (map (\<lambda>(k, p). (k, f p)) kps) k = map_option f (map_of kps k)" for kps :: "(NamespacedName \<times> Pod) list" and f :: "Pod \<Rightarrow> Pod"
    by (induction kps) auto
  then show ?thesis
    by (simp add: demo_ready_def mem_stored_def)
qed

lemma demo_ready_settles: "settles mem_stored ad w (demo_ready w)"
  by (simp add: settles_def demo_ready_stored)

lemma demo_ready_settled:
  assumes "keyed (mem_stored w)" "faults w = []"
  shows "settled mem_stored (\<lambda>m. faults m = []) ad (demo_ready w)"
proof -
  have "podReady (p\<lparr>pod_Conditions := [ready_cond]\<rparr>)" for p :: Pod
    by (simp add: podReady_def ready_cond_def)
  moreover have "keyed (mem_stored (demo_ready w))"
    using assms(1) by (auto simp: keyed_def demo_ready_stored)
  moreover have "faults (demo_ready w) = []"
    using assms(2) by (simp add: demo_ready_def)
  ultimately show ?thesis
    by (auto simp: settled_def demo_ready_stored)
qed

text \<open>
  C1. A pass disrupts no more slots than its budget.  Whatever the outcome of a pass, errors
  included, the number of slots in which a live pod of another hash was deleted is at most the resolved
  \<open>maxUnavailable\<close>; a slot that already had a live pod on the wanted hash keeps one of them; while such a
  slot has no ready pod nothing is replaced; and pods of other owners are not touched.
\<close>

theorem rolling_update_bounded:
  assumes "kube (pe_client env) stored pod_dele" "map_order (pe_ord env)" "keyed (stored w)"
    and "reconcilePods env now ps ad (w, n) = (r, ad', w', n')"
    and "hash = pe_hash env ps" "desired = DesiredReplicas ad"
  shows "card (disrupted ad hash desired (stored w) (stored w')) \<le> nat (ResolveMaxUnavailable (pe_scaled env) ad desired) \<and>
    (\<forall>i k p. 0 \<le> i \<and> i < desired \<and> stored w k = Some p \<and> serves ad hash i k p \<longrightarrow>
       (\<exists>k' p'. stored w k' = Some p' \<and> serves ad hash i k' p' \<and> stored w' k' = Some p') \<and>
       ((\<forall>k' p'. stored w k' = Some p' \<and> serves ad hash i k' p' \<longrightarrow> \<not> podReady p') \<longrightarrow>
          disrupted ad hash desired (stored w) (stored w') = {})) \<and>
    (\<forall>k p. stored w k = Some p \<and> \<not> owned_pod ad k p \<longrightarrow> stored w' k = Some p)"
proof -
  note facts = pod_rollout.pass_disruption [OF pod_rollout.intro [OF assms(1,2)] assms(4), unfolded fst_conv, OF assms(3,5,6)]
  show ?thesis
    using facts(1) facts(2) facts(3) facts(4) by blast
qed

theorem rolling_update_bounded_witness:
  "case reconcilePods demo_env 0 new_pod_spec demo_two (demo_world, 0) of (r, ad', w', n') \<Rightarrow>
     r = Inr () \<and> \<not> live (the (mem_stored w' (pod_key (demo_old 0)))) \<and>
     card (disrupted demo_two ''new'' 2 (mem_stored demo_world) (mem_stored w')) \<le> 1"
proof -
  obtain r ad' w' n' where run: "reconcilePods demo_env 0 new_pod_spec demo_two (demo_world, 0) = (r, ad', w', n')"
    by (metis surj_pair)
  have "case reconcilePods demo_env 0 new_pod_spec demo_two (demo_world, 0) of (r, ad', w', n') \<Rightarrow>
      r = Inr () \<and> \<not> live (the (mem_stored w' (pod_key (demo_old 0))))"
    by code_simp
  moreover have "keyed (mem_stored demo_world)"
    unfolding mem_stored_def by (rule keyed_map_of) (simp add: demo_world_def)
  from rolling_update_bounded [OF demo_old_facts(6,7) this run refl refl]
  have "card (disrupted demo_two ''new'' 2 (mem_stored demo_world) (mem_stored w')) \<le> 1"
    by (simp add: demo_old_facts)
  ultimately show ?thesis
    by (simp add: run)
qed

text \<open>
  C26. A converged set of pods is left alone.  When every slot of the window has exactly one live pod on
  the wanted hash and no live pod lies outside the window, a successful pass writes nothing and the
  current hash is promoted.  This holds whatever live pods of other hashes share the slots: such a
  leftover is never removed.
\<close>

theorem converged_pass_is_noop:
  assumes "kube (pe_client env) stored pod_dele" "map_order (pe_ord env)" "keyed (stored w)"
    and "reconcilePods env now ps ad (w, n) = (Inr (), ad', w', n')"
    and "hash = pe_hash env ps" "desired = DesiredReplicas ad" "0 \<le> desired"
    and "\<And>i. 0 \<le> i \<Longrightarrow> i < desired \<Longrightarrow> \<exists>!k. \<exists>p. stored w k = Some p \<and> serves ad hash i k p"
    and "\<And>k p. stored w k = Some p \<Longrightarrow> owned_pod ad k p \<Longrightarrow> live p \<Longrightarrow> 0 \<le> pod_slot p \<and> pod_slot p < desired"
  shows "stored w' = stored w \<and> adst_CurrentHash (ad_Status ad') = hash"
  using pod_rollout.pass_noop [OF pod_rollout.intro [OF assms(1,2)] assms(4), unfolded fst_conv, OF assms(3,5-9)] by simp

theorem converged_pass_is_noop_witness:
  "case reconcilePods demo_env 0 new_pod_spec demo_deploy (demo_leftover, 0) of (r, ad', w', n') \<Rightarrow>
     r = Inr () \<and> mem_stored w' = mem_stored demo_leftover \<and> mem_stored w' (pod_key (demo_old 0)) = Some (demo_old 0)"
proof -
  obtain r ad' w' n' where run: "reconcilePods demo_env 0 new_pod_spec demo_deploy (demo_leftover, 0) = (r, ad', w', n')"
    by (metis surj_pair)
  have "case reconcilePods demo_env 0 new_pod_spec demo_deploy (demo_leftover, 0) of (r, ad', w', n') \<Rightarrow> r = Inr ()"
    by code_simp
  then have r: "r = Inr ()"
    by (simp add: run)
  have st: "mem_stored demo_leftover = [pod_key demo_new \<mapsto> demo_new, pod_key (demo_old 0) \<mapsto> demo_old 0]"
    using demo_leftover_facts(1) by (auto simp: mem_stored_def demo_leftover_def)
  have "mem_stored w' = mem_stored demo_leftover \<and> adst_CurrentHash (ad_Status ad') = ''new''"
  proof (rule converged_pass_is_noop [OF demo_old_facts(6,7) _ run [unfolded r] demo_old_facts(5) [symmetric] demo_old_facts(3) [symmetric]])
    show "keyed (mem_stored demo_leftover)"
      unfolding mem_stored_def by (rule keyed_map_of) (simp add: demo_leftover_def)
    show "\<exists>!k. \<exists>p. mem_stored demo_leftover k = Some p \<and> serves demo_deploy ''new'' i k p" if "0 \<le> i" "i < 1" for i
    proof -
      have "i = 0"
        using that by simp
      then show ?thesis
        using demo_leftover_facts(1-3) unfolding st by (intro ex1I [of _ "pod_key demo_new"]) (auto split: if_splits)
    qed
    show "0 \<le> pod_slot p \<and> pod_slot p < 1" if "mem_stored demo_leftover k = Some p" for k p
      using that demo_leftover_facts unfolding st by (auto split: if_splits)
  qed simp
  then show ?thesis
    using r st by (simp add: run)
qed

text \<open>
  C5. A rollout completes.  Against an API server that serves every call, when the pods become ready
  between passes and no drawn pod name is taken, every pass succeeds and after passes whose budgets
  add up to the replica count every slot has a live pod on the wanted hash; as the budget is at least
  one, as many passes as replicas suffice.
\<close>

theorem rollout_completes:
  assumes "reliable_kube (pe_client env) stored pod_dele Q" "map_order (pe_ord env)"
    and "rollout env stored Q ps ad j s u" "DesiredReplicas ad < 2 ^ 63"
    and "nat (DesiredReplicas ad) \<le> j * nat (ResolveMaxUnavailable (pe_scaled env) ad (DesiredReplicas ad))"
    and "0 \<le> i" "i < DesiredReplicas ad"
  shows "\<exists>k p. stored (fst u) k = Some p \<and> serves ad (pe_hash env ps) i k p"
proof -
  have "reliable_rollout env stored Q"
    using assms(1,2) by (intro reliable_rollout.intro pod_rollout.intro) (auto simp: reliable_kube_def)
  note progress = reliable_rollout.rollout_progress [OF this assms(3,4) refl refl]
  have window: "pending ad h d m \<subseteq> {0 ..< d}" for h d m
    by (auto simp: pending_def)
  have "card (pending ad (pe_hash env ps) (DesiredReplicas ad) (stored (fst s))) \<le> nat (DesiredReplicas ad)"
    using card_mono [OF _ window] by (metis card_atLeastLessThan_int diff_zero finite_atLeastLessThan_int)
  then have "card (pending ad (pe_hash env ps) (DesiredReplicas ad) (stored (fst u))) = 0"
    using progress assms(5) by linarith
  then have "pending ad (pe_hash env ps) (DesiredReplicas ad) (stored (fst u)) = {}"
    using finite_subset [OF window] by (metis card_0_eq finite_atLeastLessThan_int)
  then show ?thesis
    using assms(6,7) by (auto simp: pending_def)
qed

theorem rollout_completes_witness:
  "case reconcilePods demo_env 0 new_pod_spec demo_deploy (demo_ready demo_single, 0) of (r, ad', w', n') \<Rightarrow>
     \<exists>k p. mem_stored (demo_ready w') k = Some p \<and> serves demo_deploy ''new'' 0 k p"
proof -
  let ?Q = "\<lambda>m. faults m = []" and ?w = "demo_ready demo_single"
  obtain r ad' w' n' where run: "reconcilePods demo_env 0 new_pod_spec demo_deploy (?w, 0) = (r, ad', w', n')"
    by (metis surj_pair)
  have "case reconcilePods demo_env 0 new_pod_spec demo_deploy (?w, 0) of (r, ad', w', n') \<Rightarrow>
      faults w' = [] \<and> list_all (\<lambda>(k, p). pod_key p = k) (objects w')"
    by code_simp
  then have w': "faults w' = []" "keyed (mem_stored w')"
    by (simp_all add: run mem_stored_def keyed_map_of)
  have "keyed (mem_stored demo_single)"
    unfolding mem_stored_def by (rule keyed_map_of) (simp add: demo_single_def)
  then have start: "rollout demo_env mem_stored ?Q new_pod_spec demo_deploy 0 (?w, 0) (?w, 0)"
    using demo_ready_settled [of demo_single] by (intro rollout.start) (simp add: demo_single_def)
  have "rollout demo_env mem_stored ?Q new_pod_spec demo_deploy (Suc 0) (?w, 0) (demo_ready w', n')"
  proof (rule rollout.pass [OF start])
    show "reconcilePods demo_env 0 new_pod_spec (demo_deploy\<lparr>ad_Status := ad_Status demo_deploy\<rparr>) (?w, 0) = (r, ad', w', n')"
      using run by simp
    have "list_all (\<lambda>j. mem_stored ?w (drawn_key (pe_rand demo_env) demo_deploy 0 j) = None) [0 ..< 5]"
      by code_simp
    moreover have "{0 ..< 1 :: int} = {0}"
      by auto
    ultimately show "unused_names (pe_rand demo_env) demo_deploy {0 ..< DesiredReplicas demo_deploy} (mem_stored (fst (?w, 0))) (snd (?w, 0))
        (nat (DesiredReplicas demo_deploy))"
      by (auto simp: unused_names_def demo_old_facts list_all_iff randomSuffixLength_def)
  qed (simp_all add: demo_ready_settles demo_ready_settled w')
  from rollout_completes [OF demo_old_facts(8,7) this, of 0] show ?thesis
    by (simp add: demo_old_facts run)
qed

end
