(* ===== verification/Services.thy ===== *)
theory Services
  imports AgentTypes Kube
begin

text \<open>
  \<open>services.go\<close>: the two Services of an AgentDeploy.  The create, compare and recreate sequence is the
  one that \<open>entry_service.go\<close> and \<open>daemon.go\<close> of the AgentSet controller repeat, so it is stated once,
  over any kind of object that carries the hash of its spec as an annotation.
\<close>

section \<open>Hashed objects\<close>

text \<open>The errors are named after the call that failed and keep the object's kind.\<close>

datatype upsert_error =
  UpsertGetFailed string api_error
| UpsertCreateFailed string api_error
| UpsertDeleteFailed string api_error
| UpsertRecreateFailed string api_error

text \<open>\<open>ann\<close> reads the hash annotation of an object; \<open>desired\<close> already carries \<open>desiredHash\<close>.\<close>

definition upsert_object ::
  "('k, 'o, 'w) kclient \<Rightarrow> ('o \<Rightarrow> string) \<Rightarrow> string \<Rightarrow> 'k \<Rightarrow> 'o \<Rightarrow> string \<Rightarrow> 'w \<Rightarrow> (upsert_error + unit) \<times> 'w" where
"upsert_object c ann kind key desired desiredHash w =
   (case kget c key w of
      (Inl NotFound, w1) \<Rightarrow>
        (case kcreate c key desired w1 of
           (Inl AlreadyExists, w2) \<Rightarrow> (Inr (), w2)
         | (Inl e, w2) \<Rightarrow> (Inl (UpsertCreateFailed kind e), w2)
         | (Inr _, w2) \<Rightarrow> (Inr (), w2))
    | (Inl e, w1) \<Rightarrow> (Inl (UpsertGetFailed kind e), w1)
    | (Inr existing, w1) \<Rightarrow>
        if ann existing = desiredHash then (Inr (), w1)
        else
          (let (r, w2) = kdelete c key w1
           in if (case r of Inl e \<Rightarrow> e \<noteq> NotFound | Inr _ \<Rightarrow> False)
              then (Inl (UpsertDeleteFailed kind (projl r)), w2)
              else (case kcreate c key desired w2 of
                      (Inl AlreadyExists, w3) \<Rightarrow> (Inr (), w3)
                    | (Inl e, w3) \<Rightarrow> (Inl (UpsertRecreateFailed kind e), w3)
                    | (Inr _, w3) \<Rightarrow> (Inr (), w3))))"

section \<open>Services\<close>

record ServicePort =
  sp_Name :: string
  sp_Port :: int
  sp_TargetPort :: IntOrString
  sp_Protocol :: string

record ServiceSpec =
  ss_Type :: string
  ss_ClusterIP :: string
  ss_Selector :: labels
  ss_Ports :: "ServicePort list"
  ss_PublishNotReadyAddresses :: bool

record Service =
  svc_Meta :: ObjectMeta
  svc_Spec :: ServiceSpec

abbreviation svc_key :: "Service \<Rightarrow> NamespacedName" where
"svc_key s \<equiv> \<lparr>Namespace = om_Namespace (svc_Meta s), Name = om_Name (svc_Meta s)\<rparr>"

definition svc_hash :: "Service \<Rightarrow> string" where
"svc_hash s = the_default [] (fmlookup (om_Annotations (svc_Meta s)) KeyHash)"

definition with_hash :: "string \<Rightarrow> ObjectMeta \<Rightarrow> ObjectMeta" where
"with_hash h m = m\<lparr>om_Annotations := fmupd KeyHash h (om_Annotations m)\<rparr>"

definition newHeadlessService :: "OwnerReference \<Rightarrow> AgentDeploy \<Rightarrow> Service" where
"newHeadlessService owner ad =
   \<lparr>svc_Meta = (new_meta (om_Namespace (ad_Meta ad)) (HeadlessServiceName ad))\<lparr>
      om_Labels := fmap_of_list
        [(KeyAppName, om_Name (ad_Meta ad)),
         (KeyAgentSetName, ads_AgentSetName (ad_Spec ad)),
         (KeyAgentDeployName, aad_Name (ad_agent ad)),
         (KeyComponent, ComponentAgent),
         (KeyPartOf, Project),
         (KeyManagedBy, ControllerAgentDeploy),
         (KeyServiceKind, ServiceKindHeadless)],
      om_OwnerReferences := [owner]\<rparr>,
    svc_Spec =
      \<lparr>ss_Type = [], ss_ClusterIP = ''None'',
       ss_Selector = fmap_of_list
         [(KeyAgentSetName, ads_AgentSetName (ad_Spec ad)),
          (KeyAgentDeployName, aad_Name (ad_agent ad)),
          (KeyManagedBy, ControllerAgentDeploy)],
       ss_Ports = [\<lparr>sp_Name = ''introspect'', sp_Port = AgentBrokerIntrospectionPort,
                    sp_TargetPort = StrVal ''introspect'', sp_Protocol = ''TCP''\<rparr>],
       ss_PublishNotReadyAddresses = True\<rparr>\<rparr>"

definition newClusterIPService :: "OwnerReference \<Rightarrow> AgentDeploy \<Rightarrow> Service" where
"newClusterIPService owner ad =
   \<lparr>svc_Meta = (new_meta (om_Namespace (ad_Meta ad)) (ServiceName ad))\<lparr>
      om_Labels := fmap_of_list
        [(KeyAppName, om_Name (ad_Meta ad)),
         (KeyAgentSetName, ads_AgentSetName (ad_Spec ad)),
         (KeyAgentDeployName, aad_Name (ad_agent ad)),
         (KeyComponent, ComponentAgent),
         (KeyPartOf, Project),
         (KeyManagedBy, ControllerAgentDeploy),
         (KeyServiceKind, ServiceKindClusterIP)],
      om_OwnerReferences := [owner]\<rparr>,
    svc_Spec =
      \<lparr>ss_Type = ''ClusterIP'', ss_ClusterIP = [],
       ss_Selector = fmap_of_list
         [(KeyAgentSetName, ads_AgentSetName (ad_Spec ad)),
          (KeyAgentDeployName, aad_Name (ad_agent ad)),
          (KeyManagedBy, ControllerAgentDeploy),
          (KeyServing, ''true'')],
       ss_Ports = [\<lparr>sp_Name = ''broker'', sp_Port = AgentBrokerPort,
                    sp_TargetPort = StrVal ''broker'', sp_Protocol = ''TCP''\<rparr>],
       ss_PublishNotReadyAddresses = False\<rparr>\<rparr>"

record 'w svc_env =
  se_client :: "(NamespacedName, Service, 'w) kclient"
  se_hash :: "ServiceSpec \<Rightarrow> string"

definition upsertService :: "'w svc_env \<Rightarrow> Service \<Rightarrow> string \<Rightarrow> 'w \<Rightarrow> (upsert_error + unit) \<times> 'w" where
"upsertService env desired kind w =
   (let desiredHash = se_hash env (svc_Spec desired);
        desired = desired\<lparr>svc_Meta := with_hash desiredHash (svc_Meta desired)\<rparr>
    in upsert_object (se_client env) svc_hash kind (svc_key desired) desired desiredHash w)"

definition reconcileServices :: "'w svc_env \<Rightarrow> OwnerReference \<Rightarrow> AgentDeploy \<Rightarrow> 'w \<Rightarrow> (upsert_error + unit) \<times> 'w" where
"reconcileServices env owner ad w =
   (case upsertService env (newHeadlessService owner ad) ''headless'' w of
      (Inl e, w') \<Rightarrow> (Inl e, w')
    | (Inr _, w') \<Rightarrow> upsertService env (newClusterIPService owner ad) ''ClusterIP'' w')"

section \<open>The upsert leaves the wanted hash\<close>

text \<open>Deleting a Service or a Deployment removes it.\<close>

definition removed :: "'o \<Rightarrow> 'o option \<Rightarrow> bool" where
"removed obj rest \<longleftrightarrow> rest = None"

text \<open>The contract of the sequence: other objects are untouched whatever happens; success leaves an object
  with the wanted hash, the existing one if it already had it, the desired one otherwise.\<close>

locale hashed_upsert = kube cl stored removed
  for cl :: "('k, 'o, 'w) kclient" and stored +
  fixes ann :: "'o \<Rightarrow> string"
begin

lemma upsert_frame:
  assumes "upsert_object cl ann kind key desired h w = (r, w')" "k \<noteq> key"
  shows "stored w' k = stored w k"
proof -
  obtain rg w1 where g: "kget cl key w = (rg, w1)"
    by (cases "kget cl key w")
  note sg = get_frame [OF g]
  have create: "stored v' k = stored v k" if "kcreate cl key desired v = (rc, v')" for v rc v'
    by (rule create_cases [OF that]) (use assms(2) in auto)
  have delete: "stored v' k = stored v k" if "kdelete cl key v = (rd, v')" for v rd v'
    by (rule delete_cases [OF that]) (use assms(2) in auto)
  show ?thesis
    using assms(1) g sg create delete unfolding upsert_object_def
    by (auto split: sum.splits api_error.splits prod.splits if_splits; metis)
qed

lemma upsert_stores:
  assumes "upsert_object cl ann kind key desired h w = (Inr (), w')" "ann desired = h"
  shows "\<exists>obj. stored w' key = Some obj \<and> ann obj = h \<and>
    (if \<exists>old. stored w key = Some old \<and> ann old = h then stored w' = stored w else obj = desired)"
proof -
  obtain rg w1 where g: "kget cl key w = (rg, w1)"
    by (cases "kget cl key w")
  note sg = get_frame [OF g]
  have fill: "stored v' key = Some desired"
    if "stored v key = None" "kcreate cl key desired v = (rc, v')" "rc = Inr () \<or> rc = Inl AlreadyExists" for v rc v'
    using that create_ok create_exists by fastforce
  consider (missing) "rg = Inl NotFound" | (failed) e where "rg = Inl e" "e \<noteq> NotFound" | (found) old where "rg = Inr old"
    by (cases rg) auto
  then show ?thesis
  proof cases
    case missing
    then have none: "stored w key = None"
      using get_missing [OF g] by simp
    obtain rc w2 where c: "kcreate cl key desired w1 = (rc, w2)"
      by (cases "kcreate cl key desired w1")
    have "rc = Inr () \<or> rc = Inl AlreadyExists" "w2 = w'"
      using assms(1) g missing c by (auto simp: upsert_object_def split: sum.splits api_error.splits)
    then have "stored w' key = Some desired"
      using fill [OF _ c] none sg by simp
    then show ?thesis
      using none assms(2) by simp
  next
    case failed
    then show ?thesis
      using assms(1) g by (cases e) (simp_all add: upsert_object_def)
  next
    case found
    then have old: "stored w key = Some old"
      using get_result [OF g] by simp
    show ?thesis
    proof (cases "ann old = h")
      case True
      then show ?thesis
        using assms(1) g found old sg by (simp add: upsert_object_def)
    next
      case False
      obtain rd w2 where d: "kdelete cl key w1 = (rd, w2)"
        by (cases "kdelete cl key w1")
      obtain rc w3 where c: "kcreate cl key desired w2 = (rc, w3)"
        by (cases "kcreate cl key desired w2")
      have ok: "rd = Inr () \<or> rd = Inl NotFound" "rc = Inr () \<or> rc = Inl AlreadyExists" "w3 = w'"
        using assms(1) g found False d c
        by (auto simp: upsert_object_def Let_def split: sum.splits api_error.splits if_splits)
      have "stored w2 key = None"
        using ok(1) d delete_ok [of key w1 w2] delete_missing [of key w1 w2] delete_err [of key w1 NotFound w2]
        by (auto simp: removed_def)
      then have "stored w' key = Some desired"
        using fill [OF _ c] ok by simp
      then show ?thesis
        using old False assms(2) by simp
    qed
  qed
qed

end

lemma mem_removed: "kube (mem_client (\<lambda>_. None)) mem_stored removed"
  by (rule kube_dele_mono [OF mem.kube_axioms]) (simp add: removed_def)

interpretation mem_services: hashed_upsert "mem_client (\<lambda>_. None)" mem_stored svc_hash
  by (rule hashed_upsert.intro) (rule mem_removed)

lemma svc_hash_with_hash [simp]: "svc_hash (s\<lparr>svc_Meta := with_hash h (svc_Meta s)\<rparr>) = h"
  by (simp add: svc_hash_def with_hash_def)

lemma with_hash_key [simp]: "om_Namespace (with_hash h m) = om_Namespace m" "om_Name (with_hash h m) = om_Name m"
  by (simp_all add: with_hash_def)

lemma upsertService_result:
  assumes "kube (se_client env) stored removed" "upsertService env svc kind w = (r, w')"
  shows "k \<noteq> svc_key svc \<Longrightarrow> stored w' k = stored w k"
    and "r = Inr () \<Longrightarrow> \<exists>s. stored w' (svc_key svc) = Some s \<and> svc_hash s = se_hash env (svc_Spec svc)"
    and "r = Inr () \<Longrightarrow> stored w (svc_key svc) = Some s \<Longrightarrow> svc_hash s = se_hash env (svc_Spec svc) \<Longrightarrow> stored w' = stored w"
proof -
  have hu: "hashed_upsert (se_client env) stored"
    using assms(1) by (rule hashed_upsert.intro)
  let ?h = "se_hash env (svc_Spec svc)"
  have up: "upsert_object (se_client env) svc_hash kind (svc_key svc) (svc\<lparr>svc_Meta := with_hash ?h (svc_Meta svc)\<rparr>) ?h w = (r, w')"
    using assms(2) by (simp add: upsertService_def Let_def)
  show "stored w' k = stored w k" if "k \<noteq> svc_key svc"
    using hashed_upsert.upsert_frame [OF hu up that] .
  show "\<exists>s. stored w' (svc_key svc) = Some s \<and> svc_hash s = ?h" if "r = Inr ()"
    using hashed_upsert.upsert_stores [OF hu up [unfolded that]] by auto
  show "stored w' = stored w" if "r = Inr ()" "stored w (svc_key svc) = Some s" "svc_hash s = ?h"
    using hashed_upsert.upsert_stores [OF hu up [unfolded that(1)]] that(2,3) by auto
qed

lemma service_keys:
  "svc_key (newHeadlessService owner ad) \<noteq> svc_key (newClusterIPService owner ad)"
  by (simp add: newHeadlessService_def newClusterIPService_def new_meta_def HeadlessServiceName_def ServiceName_def)

lemma reconcileServices_steps:
  assumes "reconcileServices env owner ad w = (r, w')"
  shows "\<exists>r1 w1. upsertService env (newHeadlessService owner ad) ''headless'' w = (r1, w1) \<and>
    (r1 = Inr () \<and> upsertService env (newClusterIPService owner ad) ''ClusterIP'' w1 = (r, w') \<or> r1 \<noteq> Inr () \<and> r \<noteq> Inr () \<and> w' = w1)"
  using assms by (auto simp: reconcileServices_def split: sum.splits prod.splits)

section \<open>Properties\<close>

text \<open>
  C19. The Services of an AgentDeploy converge.  Whatever the outcome, no other Service is touched; a
  successful run leaves both Services stored with the hash of their wanted spec, and a second
  successful run then changes nothing.
\<close>

theorem services_converge:
  assumes "kube (se_client env) stored removed" "reconcileServices env owner ad w = (r, w')"
  shows "(\<forall>k. k \<notin> {svc_key (newHeadlessService owner ad), svc_key (newClusterIPService owner ad)} \<longrightarrow> stored w' k = stored w k) \<and>
    (r = Inr () \<longrightarrow>
       (\<forall>svc \<in> {newHeadlessService owner ad, newClusterIPService owner ad}.
          \<exists>s. stored w' (svc_key svc) = Some s \<and> svc_hash s = se_hash env (svc_Spec svc)) \<and>
       (\<forall>w''. reconcileServices env owner ad w' = (Inr (), w'') \<longrightarrow> stored w'' = stored w'))"
proof -
  let ?h = "newHeadlessService owner ad" and ?c = "newClusterIPService owner ad"
  note up = upsertService_result [OF assms(1)]
  obtain r1 w1 where one: "upsertService env ?h ''headless'' w = (r1, w1)"
    and rest: "r1 = Inr () \<and> upsertService env ?c ''ClusterIP'' w1 = (r, w') \<or> r1 \<noteq> Inr () \<and> r \<noteq> Inr () \<and> w' = w1"
    using reconcileServices_steps [OF assms(2)] by (elim exE conjE)
  have two: "upsertService env ?c ''ClusterIP'' w1 = (r, w')" if "r1 = Inr ()"
    using rest that by simp
  have fin: "r = Inr () \<Longrightarrow> r1 = Inr ()" "r1 \<noteq> Inr () \<Longrightarrow> w' = w1"
    using rest by auto
  have frame: "stored w' k = stored w k" if "k \<noteq> svc_key ?h" "k \<noteq> svc_key ?c" for k
    using up(1) [OF one that(1)] up(1) [OF two that(2)] fin(2) by (cases "r1 = Inr ()") auto
  have stores: "\<exists>s. stored w' (svc_key svc) = Some s \<and> svc_hash s = se_hash env (svc_Spec svc)"
    if "r = Inr ()" "svc \<in> {?h, ?c}" for svc
    using that up(2) [OF one fin(1) [OF that(1)]] up(2) [OF two that(1)] up(1) [OF two service_keys] fin(1) by auto
  have "stored w'' = stored w'" if "r = Inr ()" and again: "reconcileServices env owner ad w' = (Inr (), w'')" for w''
  proof -
    obtain v where a: "upsertService env ?h ''headless'' w' = (Inr (), v)"
      and b: "upsertService env ?c ''ClusterIP'' v = (Inr (), w'')"
      using reconcileServices_steps [OF again] by auto
    have "stored v = stored w'"
      using stores [OF that(1), of ?h] up(3) [OF a refl] by auto
    moreover have "stored w'' = stored v"
      using stores [OF that(1), of ?c] up(3) [OF b refl] calculation by auto
    ultimately show ?thesis
      by simp
  qed
  then show ?thesis
    using frame stores by auto
qed

definition demo_deploy_of :: "string \<Rightarrow> AgentDeploy" where
"demo_deploy_of n =
   \<lparr>ad_Meta = new_meta ''ns'' (''set-'' @ n),
    ad_Spec = \<lparr>ads_Agent = new_agent n, ads_AgentSetName = ''set'', ads_Replicas = None, ads_Topology = zero_topology\<rparr>,
    ad_Status = zero_status\<rparr>"

definition demo_svc_env :: "(NamespacedName, Service) mem svc_env" where
"demo_svc_env = \<lparr>se_client = mem_client (\<lambda>_. None), se_hash = (\<lambda>s. ss_Type s @ ss_ClusterIP s)\<rparr>"

definition demo_svc_ref :: OwnerReference where
"demo_svc_ref = controller_ref ''AgentDeploy'' ''set-x'' ''u''"

theorem services_converge_witness:
  "case reconcileServices demo_svc_env demo_svc_ref (demo_deploy_of ''x'') \<lparr>objects = [], faults = []\<rparr> of (r, w') \<Rightarrow>
     r = Inr () \<and> (\<exists>s. mem_stored w' \<lparr>Namespace = ''ns'', Name = ''set-x-headless''\<rparr> = Some s \<and> svc_hash s = ''None'')"
proof -
  obtain r w' where run: "reconcileServices demo_svc_env demo_svc_ref (demo_deploy_of ''x'') \<lparr>objects = [], faults = []\<rparr> = (r, w')"
    by (cases "reconcileServices demo_svc_env demo_svc_ref (demo_deploy_of ''x'') \<lparr>objects = [], faults = []\<rparr>")
  have "fst (reconcileServices demo_svc_env demo_svc_ref (demo_deploy_of ''x'') \<lparr>objects = [], faults = []\<rparr>) = Inr ()"
    by code_simp
  then have r: "r = Inr ()"
    by (simp add: run)
  have "kube (se_client demo_svc_env) mem_stored removed"
    by (simp add: demo_svc_env_def mem_removed)
  note conv = services_converge [OF this run, unfolded r]
  have "svc_key (newHeadlessService demo_svc_ref (demo_deploy_of ''x'')) = \<lparr>Namespace = ''ns'', Name = ''set-x-headless''\<rparr>"
    "se_hash demo_svc_env (svc_Spec (newHeadlessService demo_svc_ref (demo_deploy_of ''x''))) = ''None''"
    by code_simp+
  then show ?thesis
    using conv by (simp add: run r)
qed

end
