(* ===== verification/DeployController.thy ===== *)
theory DeployController
  imports Rollout Services Conditions
begin

text \<open>
  \<open>agentdeploy/controller.go\<close>: one reconcile of an AgentDeploy.  The state is the API world with the
  number of random values drawn, and the watch sets of the scaler and of the drift watcher.  The
  clock is read once per reconcile, error texts are an argument, a panic is \<open>None\<close>.
\<close>

section \<open>State and errors\<close>

datatype ctl_error =
  DeployGetFailed api_error
| ServicesFailed upsert_error
| PodsFailed rec_error
| PodStatusFailed api_error
| StatusPatchFailed api_error

record 'w deploy_env =
  de_get :: "NamespacedName \<Rightarrow> 'w \<Rightarrow> (api_error + AgentDeploy) \<times> 'w"
  de_patch :: "NamespacedName \<Rightarrow> AgentDeployStatus \<Rightarrow> AgentDeployStatus \<Rightarrow> 'w \<Rightarrow> (api_error + unit) \<times> 'w"
  de_pods :: "'w pod_env"
  de_services :: "'w svc_env"
  de_owner :: "AgentDeploy \<Rightarrow> OwnerReference"
  de_config :: "config option"
  de_unmarshal :: "string \<Rightarrow> ResourceRequirements option"
  de_marshal :: "AgentDeploy \<Rightarrow> string"
  de_image :: string
  de_imagePullPolicy :: string
  de_text :: "ctl_error \<Rightarrow> string"
  de_sort :: "Condition list \<Rightarrow> Condition list"

record 'w deploy_state =
  ds_api :: "'w \<times> nat"
  ds_scaler :: "NamespacedName fset"
  ds_drift :: "NamespacedName fset"

section \<open>Operations\<close>

definition upd_status :: "(AgentDeployStatus \<Rightarrow> AgentDeployStatus) \<Rightarrow> AgentDeploy \<Rightarrow> AgentDeploy" where
"upd_status f ad = ad\<lparr>ad_Status := f (ad_Status ad)\<rparr>"

definition upd_conds :: "(Condition list \<Rightarrow> Condition list) \<Rightarrow> AgentDeploy \<Rightarrow> AgentDeploy" where
"upd_conds f = upd_status (\<lambda>st. st\<lparr>adst_Conditions := f (adst_Conditions st)\<rparr>)"

definition fail_deploy :: "'w deploy_env \<Rightarrow> nanos \<Rightarrow> string \<Rightarrow> ctl_error \<Rightarrow> AgentDeploy \<Rightarrow> AgentDeploy" where
"fail_deploy env now reason e ad =
   upd_status (\<lambda>st. st\<lparr>adst_Phase := AgentDeployPhaseFailed, adst_Reason := reason, adst_Message := de_text env e\<rparr>)
     (upd_conds (MarkFalse (de_sort env) now AgentDeployConditionDeployed reason (de_text env e)) ad)"

definition finish_deploy :: "'w deploy_env \<Rightarrow> nanos \<Rightarrow> AgentDeploy \<Rightarrow> AgentDeploy" where
"finish_deploy env now ad =
   (let st = ad_Status ad
    in if adst_DesiredReplicas st > 0 \<and> adst_ReadyReplicas st = adst_DesiredReplicas st
       then upd_conds (MarkTrue (de_sort env) now AgentDeployConditionPodsHealthy)
              (upd_status (\<lambda>st. st\<lparr>adst_Phase := AgentDeployPhaseRunning\<rparr>) ad)
       else upd_conds (MarkFalse (de_sort env) now AgentDeployConditionPodsHealthy ''NotAllReady''
                (itoa (adst_ReadyReplicas st) @ ''/'' @ itoa (adst_DesiredReplicas st) @ '' replicas ready''))
              (upd_status (\<lambda>st. st\<lparr>adst_Phase := AgentDeployPhaseUnknown\<rparr>) ad))"

definition reconcile_deploy ::
  "'w deploy_env \<Rightarrow> nanos \<Rightarrow> AgentDeploy \<Rightarrow> 'w \<times> nat \<Rightarrow> ((ctl_error + unit) \<times> AgentDeploy \<times> 'w \<times> nat) option" where
"reconcile_deploy env now ad s =
   (let ad = upd_conds (InitializeConditions (de_sort env) now
                          [AgentDeployConditionDeployed, AgentDeployConditionPodsHealthy]) ad;
        ad = upd_status (\<lambda>st. st\<lparr>adst_ObservedGeneration := om_Generation (ad_Meta ad)\<rparr>) ad
    in case reconcileServices (de_services env) (de_owner env ad) ad (fst s) of
         (Inl e, w) \<Rightarrow> Some (Inl (ServicesFailed e), fail_deploy env now ''ServiceFailed'' (ServicesFailed e) ad, w, snd s)
       | (Inr _, w) \<Rightarrow>
           (case GetDefaultContainerResources (de_unmarshal env) (GetDefaults (de_config env)) of
              None \<Rightarrow> None
            | Some res \<Rightarrow>
                (case reconcilePods (de_pods env) now
                        (buildPodSpec (de_marshal env) ad (de_image env) (de_imagePullPolicy env) res) ad (w, snd s) of
                   (Inl e, ad, s) \<Rightarrow> Some (Inl (PodsFailed e), fail_deploy env now ''PodsFailed'' (PodsFailed e) ad, s)
                 | (Inr _, ad, s) \<Rightarrow>
                     let ad = upd_conds (MarkTrue (de_sort env) now AgentDeployConditionDeployed) ad;
                         ad = upd_status (\<lambda>st. st\<lparr>adst_Reason := [], adst_Message := []\<rparr>) ad
                     in (case updatePodStatus (de_pods env) ad (fst s) of
                           (Inl e, ad, w) \<Rightarrow> Some (Inl (PodStatusFailed e), ad, w, snd s)
                         | (Inr _, ad, w) \<Rightarrow> Some (Inr (), finish_deploy env now ad, w, snd s)))))"

definition persist_deploy ::
  "'w deploy_env \<Rightarrow> NamespacedName \<Rightarrow> AgentDeploy \<Rightarrow> AgentDeploy \<Rightarrow> 'w \<Rightarrow> (ctl_error + unit) \<times> 'w" where
"persist_deploy env key original updated w =
   (if ad_Status original = ad_Status updated then (Inr (), w)
    else case de_patch env key (ad_Status original) (ad_Status updated) w of
           (Inl e, w') \<Rightarrow> (Inl (StatusPatchFailed e), w')
         | (Inr _, w') \<Rightarrow> (Inr (), w'))"

definition Reconcile_deploy ::
  "'w deploy_env \<Rightarrow> nanos \<Rightarrow> NamespacedName \<Rightarrow> 'w deploy_state \<Rightarrow> ((ctl_error + unit) \<times> 'w deploy_state) option" where
"Reconcile_deploy env now req st =
   (let forget = st\<lparr>ds_scaler := ds_scaler st |-| {|req|}, ds_drift := ds_drift st |-| {|req|}\<rparr>
    in case de_get env req (fst (ds_api st)) of
         (Inl NotFound, w) \<Rightarrow> Some (Inr (), forget\<lparr>ds_api := (w, snd (ds_api st))\<rparr>)
       | (Inl e, w) \<Rightarrow> Some (Inl (DeployGetFailed e), st\<lparr>ds_api := (w, snd (ds_api st))\<rparr>)
       | (Inr original, w) \<Rightarrow>
           if om_DeletionTimestamp (ad_Meta original) \<noteq> None
           then Some (Inr (), forget\<lparr>ds_api := (w, snd (ds_api st))\<rparr>)
           else
             let st = st\<lparr>ds_scaler := finsert req (ds_scaler st)\<rparr>;
                 st = (if IsEnabled (aad_DriftReload (ad_agent original))
                       then st\<lparr>ds_drift := finsert req (ds_drift st)\<rparr>
                       else st\<lparr>ds_drift := ds_drift st |-| {|req|}\<rparr>)
             in (case reconcile_deploy env now original (w, snd (ds_api st)) of
                   None \<Rightarrow> None
                 | Some (r, ad, w', n') \<Rightarrow>
                     (case persist_deploy env req original ad w' of
                        (Inl e, w'') \<Rightarrow> Some (case r of Inr _ \<Rightarrow> Inl e | Inl e' \<Rightarrow> Inl e', st\<lparr>ds_api := (w'', n')\<rparr>)
                      | (Inr _, w'') \<Rightarrow> Some (r, st\<lparr>ds_api := (w'', n')\<rparr>))))"

section \<open>Status fields\<close>

lemma upd_sel [simp]:
  "ad_Meta (upd_status f ad) = ad_Meta ad" "ad_Spec (upd_status f ad) = ad_Spec ad" "ad_Status (upd_status f ad) = f (ad_Status ad)"
  "ad_Meta (upd_conds g ad) = ad_Meta ad" "ad_Spec (upd_conds g ad) = ad_Spec ad"
  "ad_Status (upd_conds g ad) = (ad_Status ad)\<lparr>adst_Conditions := g (adst_Conditions (ad_Status ad))\<rparr>"
  by (simp_all add: upd_status_def upd_conds_def)

lemma reconcilePods_ad:
  assumes "reconcilePods env now ps ad s = (r, ad', s')"
  shows "ad_Meta ad' = ad_Meta ad" "ad_Spec ad' = ad_Spec ad"
    "adst_DesiredReplicas (ad_Status ad') = uint32 (DesiredReplicas ad)"
    "adst_Conditions (ad_Status ad') = adst_Conditions (ad_Status ad)"
  using assms by (auto simp: reconcilePods_def start_rollout_def Let_def split: prod.splits sum.splits if_splits)

lemma updatePodStatus_result:
  assumes "updatePodStatus env ad w = (r, ad', w')"
  shows "ad_Meta ad' = ad_Meta ad" "ad_Spec ad' = ad_Spec ad"
    "adst_DesiredReplicas (ad_Status ad') = adst_DesiredReplicas (ad_Status ad)"
    "adst_Conditions (ad_Status ad') = adst_Conditions (ad_Status ad)"
    "r = Inr () \<Longrightarrow> \<exists>pods. ListOwnedPods (pe_client env) ad w = (Inr pods, w') \<and>
       adst_ReadyReplicas (ad_Status ad') = uint32 (int (length (filter podReady (filter live pods))))"
  using assms by (auto simp: updatePodStatus_def Let_def split: prod.splits sum.splits)

lemma status_only:
  assumes "ad_Meta ad' = ad_Meta ad" "ad_Spec ad' = ad_Spec ad"
  shows "owned_pod ad' = owned_pod ad" "DesiredReplicas ad' = DesiredReplicas ad"
  using assms by (simp_all add: fun_eq_iff owned_pod_def DesiredReplicas_def)

definition ready_pods :: "AgentDeploy \<Rightarrow> (NamespacedName \<Rightarrow> Pod option) \<Rightarrow> NamespacedName set" where
"ready_pods ad m = {k. \<exists>p. m k = Some p \<and> owned_pod ad k p \<and> live p \<and> podReady p}"

lemma ready_count:
  assumes "listed_pods ad m pods" "keyed m"
  shows "length (filter podReady (filter live pods)) = card (ready_pods ad m)"
proof -
  have "ready_pods ad m = pod_key ` set (filter podReady (filter live pods))"
  proof (intro subset_antisym subsetI)
    fix k
    assume "k \<in> ready_pods ad m"
    then obtain p where p: "m k = Some p" "owned_pod ad k p" "live p" "podReady p"
      by (auto simp: ready_pods_def)
    then show "k \<in> pod_key ` set (filter podReady (filter live pods))"
      using listed_lookup(1,2) [OF assms p(1,2)] by (intro image_eqI [of _ _ p]) (simp_all only: set_filter mem_Collect_eq simp_thms)
  next
    fix k
    assume "k \<in> pod_key ` set (filter podReady (filter live pods))"
    then show "k \<in> ready_pods ad m"
    proof (rule imageE)
      fix p
      assume k: "k = pod_key p" and "p \<in> set (filter podReady (filter live pods))"
      then have "p \<in> set pods" "live p" "podReady p"
        by simp_all
      then show ?thesis
        using assms(1) unfolding k ready_pods_def listed_pods_def by blast
    qed
  qed
  moreover have "distinct (map pod_key (filter podReady (filter live pods)))"
    using assms(1) by (simp add: listed_pods_def distinct_map_filter)
  ultimately show ?thesis
    using distinct_card [of "map pod_key (filter podReady (filter live pods))"] by (simp del: filter_filter)
qed

lemma DesiredReplicas_pos: "1 \<le> DesiredReplicas ad"
  by (auto simp: DesiredReplicas_def scaleBounds_def clampInt_def atLeastOne_def DefaultMinReplicas_def Let_def
      split: option.splits if_splits)

text \<open>The outcomes of a reconcile, from the first error on.\<close>

lemma reconcile_deploy_success:
  assumes "reconcile_deploy env now ad s = Some (Inr (), ad', w', n')"
  obtains ad1 ad2 w1 where "updatePodStatus (de_pods env) ad1 w1 = (Inr (), ad2, w')" "ad' = finish_deploy env now ad2"
    "ad_Meta ad1 = ad_Meta ad" "ad_Spec ad1 = ad_Spec ad" "adst_DesiredReplicas (ad_Status ad1) = uint32 (DesiredReplicas ad)"
    "adst_Conditions (ad_Status ad1) = MarkTrue (de_sort env) now AgentDeployConditionDeployed
       (InitializeConditions (de_sort env) now [AgentDeployConditionDeployed, AgentDeployConditionPodsHealthy]
          (adst_Conditions (ad_Status ad)))"
proof -
  define ad0 where "ad0 = upd_status (\<lambda>st. st\<lparr>adst_ObservedGeneration := om_Generation (ad_Meta ad)\<rparr>)
    (upd_conds (InitializeConditions (de_sort env) now
                          [AgentDeployConditionDeployed, AgentDeployConditionPodsHealthy]) ad)"
  obtain res w0 ad1 s1 where pods: "reconcilePods (de_pods env) now
        (buildPodSpec (de_marshal env) ad0 (de_image env) (de_imagePullPolicy env) res) ad0 (w0, snd s) = (Inr (), ad1, s1)"
    and rest: "(case updatePodStatus (de_pods env)
          (upd_status (\<lambda>st. st\<lparr>adst_Reason := [], adst_Message := []\<rparr>)
             (upd_conds (MarkTrue (de_sort env) now AgentDeployConditionDeployed) ad1)) (fst s1) of
           (Inl e, ad, w) \<Rightarrow> Some (Inl (PodStatusFailed e), ad, w, snd s1)
         | (Inr _, ad, w) \<Rightarrow> Some (Inr (), finish_deploy env now ad, w, snd s1)) = Some (Inr (), ad', w', n')"
    using assms by (auto simp: reconcile_deploy_def Let_def ad0_def split: prod.splits sum.splits option.splits)
  define ad2 where "ad2 = upd_status (\<lambda>st. st\<lparr>adst_Reason := [], adst_Message := []\<rparr>)
             (upd_conds (MarkTrue (de_sort env) now AgentDeployConditionDeployed) ad1)"
  obtain ad3 where up: "updatePodStatus (de_pods env) ad2 (fst s1) = (Inr (), ad3, w')" "ad' = finish_deploy env now ad3"
    using rest by (auto simp: ad2_def split: prod.splits sum.splits)
  have "DesiredReplicas ad0 = DesiredReplicas ad"
    by (rule status_only(2)) (simp_all add: ad0_def)
  then show thesis
    using reconcilePods_ad [OF pods] by (intro that [OF up]) (simp_all add: ad2_def ad0_def)
qed

lemma finish_deploy_phase:
  "adst_Phase (ad_Status (finish_deploy env now ad)) = AgentDeployPhaseRunning \<longleftrightarrow>
     adst_DesiredReplicas (ad_Status ad) > 0 \<and> adst_ReadyReplicas (ad_Status ad) = adst_DesiredReplicas (ad_Status ad)"
  by (simp add: finish_deploy_def Let_def)

lemma finish_deploy_healthy:
  assumes "type_sort (de_sort env)" "typed_once (adst_Conditions (ad_Status ad))"
  shows "\<exists>c. GetCondition AgentDeployConditionPodsHealthy (adst_Conditions (ad_Status (finish_deploy env now ad))) = Some c \<and>
    (cond_Status c = ConditionTrue \<longleftrightarrow> adst_Phase (ad_Status (finish_deploy env now ad)) = AgentDeployPhaseRunning)"
  by (simp add: finish_deploy_def Let_def MarkTrue_def MarkFalse_def markTypeStatus_def GetCondition_setCondition [OF assms])

lemma failed_stage:
  assumes "reconcile_deploy env now ad s = Some (Inl e, ad', w', n')"
  obtains (status) e' where "e = PodStatusFailed e'"
  | (failed) ad0 reason where "ad' = fail_deploy env now reason e ad0"
  using assms by (auto simp: reconcile_deploy_def Let_def split: prod.splits sum.splits option.splits)

text \<open>An API server with one deploy, its pods and Services, and a controller over it.\<close>

type_synonym demo_api = "(NamespacedName, Pod) mem \<times> (NamespacedName, Service) mem"

definition demo_controller :: "demo_api deploy_env" where
"demo_controller =
   \<lparr>de_get = (\<lambda>k w. (Inr demo_deploy, w)), de_patch = (\<lambda>k old new w. (Inr (), w)),
    de_pods = \<lparr>pe_client = on_part fst (\<lambda>v w. (v, snd w)) (mem_client terminate), pe_rand = (\<lambda>_. 0), pe_owner = demo_owner,
      pe_ord = sorted_list_of_fset, pe_hash = (\<lambda>_. ''new''), pe_scaled = (\<lambda>_ _ _. Some 1)\<rparr>,
    de_services = \<lparr>se_client = on_part snd (\<lambda>v w. (fst w, v)) (mem_client (\<lambda>_. None)), se_hash = (\<lambda>s. ss_Type s @ ss_ClusterIP s)\<rparr>,
    de_owner = demo_owner, de_config = None, de_unmarshal = (\<lambda>_. None), de_marshal = (\<lambda>_. ''enc''), de_image = ''img'',
    de_imagePullPolicy = [], de_text = (\<lambda>_. ''error''), de_sort = sort_key cond_Type\<rparr>"

definition demo_pods :: demo_api where
"demo_pods = (\<lparr>objects = [(pod_key demo_new, demo_new\<lparr>pod_Conditions := [ready_cond]\<rparr>)], faults = []\<rparr>, \<lparr>objects = [], faults = []\<rparr>)"

lemma demo_controller_contract:
  "kube (pe_client (de_pods demo_controller)) (\<lambda>w. mem_stored (fst w)) pod_dele" "map_order (pe_ord (de_pods demo_controller))"
  "type_sort (de_sort demo_controller)"
proof -
  show "kube (pe_client (de_pods demo_controller)) (\<lambda>w. mem_stored (fst w)) pod_dele"
    unfolding demo_controller_def by (simp add: kube_on_part [OF mem_pods_kube])
qed (simp_all add: demo_controller_def sorted_order.map_order_axioms stable_type.slice_sort_axioms)

lemma ready_pods_mem: "card (ready_pods ad (mem_stored m)) \<le> length (objects m)"
proof -
  have "ready_pods ad (mem_stored m) \<subseteq> fst ` set (objects m)"
    by (auto simp: ready_pods_def mem_stored_def dest!: map_of_SomeD intro: rev_image_eqI)
  then have "card (ready_pods ad (mem_stored m)) \<le> card (fst ` set (objects m))"
    by (rule card_mono [rotated]) simp
  then show ?thesis
    using card_image_le [OF finite_set, of fst "objects m"] card_length [of "objects m"] by linarith
qed

section \<open>Properties\<close>

text \<open>
  C8. The status tells the truth.  After a successful reconcile the phase is Running exactly when the
  number of live ready pods the API server then stores for the deploy is the wanted replica count, and
  the PodsHealthy condition is true exactly then; after a failure of the Services or the pods the
  phase is Failed and the status carries the error's text.
\<close>

theorem deploy_status_truthful:
  assumes "kube (pe_client (de_pods env)) stored pod_dele" "map_order (pe_ord (de_pods env))"
    and "type_sort (de_sort env)" "typed_once (adst_Conditions (ad_Status ad))"
    and "reconcile_deploy env now ad s = Some (r, ad', w', n')" "keyed (stored w')"
    and "DesiredReplicas ad < 2 ^ 32" "card (ready_pods ad (stored w')) < 2 ^ 32"
  shows "case r of
      Inr _ \<Rightarrow>
        (adst_Phase (ad_Status ad') = AgentDeployPhaseRunning \<longleftrightarrow> int (card (ready_pods ad (stored w'))) = DesiredReplicas ad) \<and>
        (\<exists>c. GetCondition AgentDeployConditionPodsHealthy (adst_Conditions (ad_Status ad')) = Some c \<and>
             (cond_Status c = ConditionTrue \<longleftrightarrow> int (card (ready_pods ad (stored w'))) = DesiredReplicas ad))
    | Inl e \<Rightarrow>
        (\<exists>e'. e = PodStatusFailed e') \<or>
        adst_Phase (ad_Status ad') = AgentDeployPhaseFailed \<and> adst_Message (ad_Status ad') = de_text env e"
proof (cases r)
  case (Inl e)
  show ?thesis
    by (rule failed_stage [OF assms(5) [unfolded Inl]]) (simp_all add: Inl fail_deploy_def)
next
  case (Inr u)
  then have "reconcile_deploy env now ad s = Some (Inr (), ad', w', n')"
    using assms(5) by simp
  then obtain ad1 ad2 w1 where up: "updatePodStatus (de_pods env) ad1 w1 = (Inr (), ad2, w')" and fin: "ad' = finish_deploy env now ad2"
    and ad1: "ad_Meta ad1 = ad_Meta ad" "ad_Spec ad1 = ad_Spec ad" "adst_DesiredReplicas (ad_Status ad1) = uint32 (DesiredReplicas ad)"
    "adst_Conditions (ad_Status ad1) = MarkTrue (de_sort env) now AgentDeployConditionDeployed
       (InitializeConditions (de_sort env) now [AgentDeployConditionDeployed, AgentDeployConditionPodsHealthy]
          (adst_Conditions (ad_Status ad)))"
    by (rule reconcile_deploy_success)
  note res = updatePodStatus_result [OF up]
  obtain pods where pods: "ListOwnedPods (pe_client (de_pods env)) ad1 w1 = (Inr pods, w')"
    and ready: "adst_ReadyReplicas (ad_Status ad2) = uint32 (int (length (filter podReady (filter live pods))))"
    using res(5) by auto
  note listed = pod_rollout.ListOwnedPods_result [OF pod_rollout.intro [OF assms(1,2)] pods]
  have "listed_pods ad1 (stored w') pods"
    using listed(2) [of pods] listed(1) assms(6) by simp
  then have "length (filter podReady (filter live pods)) = card (ready_pods ad1 (stored w'))"
    using assms(6) by (rule ready_count)
  moreover have "ready_pods ad1 (stored w') = ready_pods ad (stored w')"
    by (simp add: ready_pods_def status_only(1) [OF ad1(1,2)])
  ultimately have counts: "adst_ReadyReplicas (ad_Status ad2) = int (card (ready_pods ad (stored w')))"
    "adst_DesiredReplicas (ad_Status ad2) = DesiredReplicas ad"
    using ready res(3) ad1(3) assms(7,8) DesiredReplicas_pos [of ad] by (simp_all add: uint32_def)
  then have phase: "adst_Phase (ad_Status ad') = AgentDeployPhaseRunning \<longleftrightarrow> int (card (ready_pods ad (stored w'))) = DesiredReplicas ad"
    using DesiredReplicas_pos [of ad] by (simp add: fin finish_deploy_phase)
  have "typed_once (adst_Conditions (ad_Status ad2))"
    using res(4) ad1(4) setCondition_typed_once [OF assms(3) InitializeConditions_typed_once [OF assms(3,4)]]
    by (simp add: MarkTrue_def markTypeStatus_def)
  from finish_deploy_healthy [OF assms(3) this, of now] phase show ?thesis
    by (simp add: Inr fin)
qed

theorem deploy_status_truthful_witness:
  "\<exists>ad' w' n'. reconcile_deploy demo_controller 7 demo_deploy (demo_pods, 0) = Some (Inr (), ad', w', n') \<and>
     adst_Phase (ad_Status ad') = AgentDeployPhaseRunning \<and> card (ready_pods demo_deploy (mem_stored (fst w'))) = 1"
proof -
  have run: "case reconcile_deploy demo_controller 7 demo_deploy (demo_pods, 0) of
      Some (Inr _, ad', w', n') \<Rightarrow> adst_Phase (ad_Status ad') = AgentDeployPhaseRunning \<and>
        length (objects (fst w')) = 1 \<and> list_all (\<lambda>(k, p). pod_key p = k) (objects (fst w'))
    | _ \<Rightarrow> False"
    by code_simp
  then obtain ad' w' n' where w': "reconcile_deploy demo_controller 7 demo_deploy (demo_pods, 0) = Some (Inr (), ad', w', n')"
      "adst_Phase (ad_Status ad') = AgentDeployPhaseRunning" "length (objects (fst w')) = 1"
      "list_all (\<lambda>(k, p). pod_key p = k) (objects (fst w'))"
    by (auto split: option.splits prod.splits sum.splits)
  have keyed: "keyed (mem_stored (fst w'))"
    unfolding mem_stored_def by (rule keyed_map_of [OF w'(4)])
  have small: "card (ready_pods demo_deploy (mem_stored (fst w'))) < 2 ^ 32"
    using ready_pods_mem [of demo_deploy "fst w'"] w'(3) by simp
  have "typed_once (adst_Conditions (ad_Status demo_deploy))" "DesiredReplicas demo_deploy < 2 ^ 32"
    by code_simp+
  from deploy_status_truthful [OF demo_controller_contract this(1) w'(1) keyed this(2) small]
  have "int (card (ready_pods demo_deploy (mem_stored (fst w')))) = DesiredReplicas demo_deploy"
    using w'(2) by simp
  then show ?thesis
    using w'(1,2) by (simp add: demo_old_facts)
qed

text \<open>
  C27. The watch sets follow the AgentDeploy.  A reconcile of a key changes the watch sets for that key
  only: it is watched for scaling exactly when the object exists and is not being deleted, and for
  drift when drift reload is enabled as well; when the object cannot be read nothing changes and the
  error is returned.
\<close>

theorem watch_sets_follow_deploy:
  assumes "Reconcile_deploy env now req st = Some (r, st')" "de_get env req (fst (ds_api st)) = (got, w)"
  shows "ds_scaler st' |-| {|req|} = ds_scaler st |-| {|req|} \<and> ds_drift st' |-| {|req|} = ds_drift st |-| {|req|} \<and>
    (case got of
       Inr ad \<Rightarrow>
         (req |\<in>| ds_scaler st' \<longleftrightarrow> om_DeletionTimestamp (ad_Meta ad) = None) \<and>
         (req |\<in>| ds_drift st' \<longleftrightarrow> om_DeletionTimestamp (ad_Meta ad) = None \<and> IsEnabled (aad_DriftReload (ad_agent ad)))
     | Inl NotFound \<Rightarrow> r = Inr () \<and> req |\<notin>| ds_scaler st' \<and> req |\<notin>| ds_drift st'
     | Inl e \<Rightarrow> r = Inl (DeployGetFailed e) \<and> ds_scaler st' = ds_scaler st \<and> ds_drift st' = ds_drift st)"
proof -
  have minus: "finsert x S |-| {|x|} = S |-| {|x|}" "S |-| {|x|} |-| {|x|} = S |-| {|x|}" for x :: NamespacedName and S
    by auto
  show ?thesis
  proof (cases got)
    case (Inl e)
    then show ?thesis
      using assms by (cases e) (auto simp: Reconcile_deploy_def Let_def)
  next
    case (Inr ad)
    then show ?thesis
      using assms by (auto simp: Reconcile_deploy_def Let_def minus split: option.splits prod.splits sum.splits if_splits)
  qed
qed

theorem watch_sets_follow_deploy_witness:
  "\<exists>r st'. Reconcile_deploy demo_controller 7 \<lparr>Namespace = ''ns'', Name = ''set-a''\<rparr>
       \<lparr>ds_api = (demo_pods, 0), ds_scaler = {||}, ds_drift = {|\<lparr>Namespace = ''ns'', Name = ''set-a''\<rparr>|}\<rparr> = Some (r, st') \<and>
     \<lparr>Namespace = ''ns'', Name = ''set-a''\<rparr> |\<in>| ds_scaler st' \<and> \<lparr>Namespace = ''ns'', Name = ''set-a''\<rparr> |\<notin>| ds_drift st'"
proof -
  let ?k = "\<lparr>Namespace = ''ns'', Name = ''set-a''\<rparr>"
  let ?st = "\<lparr>ds_api = (demo_pods, 0), ds_scaler = {||}, ds_drift = {|?k|}\<rparr>"
  have "Reconcile_deploy demo_controller 7 ?k ?st \<noteq> None"
    by code_simp
  then obtain r st' where run: "Reconcile_deploy demo_controller 7 ?k ?st = Some (r, st')"
    by auto
  have "de_get demo_controller ?k (fst (ds_api ?st)) = (Inr demo_deploy, demo_pods)"
    by (simp add: demo_controller_def)
  moreover have "om_DeletionTimestamp (ad_Meta demo_deploy) = None" "\<not> IsEnabled (aad_DriftReload (ad_agent demo_deploy))"
    by code_simp+
  ultimately show ?thesis
    using watch_sets_follow_deploy [OF run] run by simp
qed

end
