(* ===== verification/SetChildren.thy ===== *)
theory SetChildren
  imports Conditions Validator Decimal Services
begin

text \<open>
  \<open>agentset/agentdeploys.go\<close>: the AgentDeploys an AgentSet wants, how the stored ones are brought in
  line with them, and how their health is folded into the set's status.  The client, the owner
  reference (which may fail), the hash of a spec and the order of map iteration are arguments.
\<close>

section \<open>Rendering a child\<close>

definition zero_container_template :: ContainerTemplate where
"zero_container_template = \<lparr>ct_Resources = no_resources, ct_ImagePullPolicy = [], ct_SecurityContext = None, ct_Env = [], ct_EnvFrom = []\<rparr>"

definition fill_container :: "ContainerTemplate option \<Rightarrow> ContainerTemplate option \<Rightarrow> ContainerTemplate option" where
"fill_container own tmpl =
   (case tmpl of
      None \<Rightarrow> own
    | Some t \<Rightarrow> Some (ContainerTemplate_ApplyDefaultsFrom (the_default zero_container_template own) (Some t)))"

definition applyTemplate :: "AgentDeployTemplate \<Rightarrow> AbstractAgentDeploy \<Rightarrow> AbstractAgentDeploy" where
"applyTemplate tmpl agent =
   agent\<lparr>aad_PodTemplate := PodTemplate_ApplyDefaultsFrom (aad_PodTemplate agent) (Some (adt_PodTemplate tmpl)),
         aad_InitContainer := fill_container (aad_InitContainer agent) (adt_InitContainer tmpl),
         aad_BrokerContainer := fill_container (aad_BrokerContainer agent) (adt_BrokerContainer tmpl)\<rparr>"

definition applyDriftReloadDefault :: "DriftReload option \<Rightarrow> AbstractAgentDeploy \<Rightarrow> AbstractAgentDeploy" where
"applyDriftReloadDefault setDefault agent =
   (case aad_DriftReload agent of
      None \<Rightarrow> agent\<lparr>aad_DriftReload := setDefault\<rparr>
    | Some d \<Rightarrow>
        (case (dr_Enabled d, setDefault) of
           (None, Some s) \<Rightarrow> agent\<lparr>aad_DriftReload := Some (d\<lparr>dr_Enabled := dr_Enabled s\<rparr>)\<rparr>
         | _ \<Rightarrow> agent))"

record child_env =
  ch_owner :: "AgentSet \<Rightarrow> string + OwnerReference"
  ch_hash :: "AgentDeploySpec \<Rightarrow> string"
  ch_ord :: "string fset \<Rightarrow> string list"

definition newAgentDeploy :: "child_env \<Rightarrow> AgentSet \<Rightarrow> AbstractAgentDeploy \<Rightarrow> string + AgentDeploy" where
"newAgentDeploy env as agent =
   (let abstract = (case ass_Templates (as_Spec as) of
                      None \<Rightarrow> agent
                    | Some t \<Rightarrow> (case tm_AgentDeployTemplate t of None \<Rightarrow> agent | Some tmpl \<Rightarrow> applyTemplate tmpl agent));
        abstract = applyDriftReloadDefault (ass_DriftReload (as_Spec as)) abstract;
        spec = \<lparr>ads_Agent = abstract, ads_AgentSetName = om_Name (as_Meta as), ads_Replicas = None,
                ads_Topology = ComputeTopology (Some as) (aad_Name agent)\<rparr>
    in case ch_owner env as of
         Inl e \<Rightarrow> Inl (''failed to set controller reference: '' @ e)
       | Inr ref \<Rightarrow>
           Inr \<lparr>ad_Meta = (new_meta (om_Namespace (as_Meta as)) (ChildAgentDeployName as (aad_Name agent)))\<lparr>
                  om_Labels := fmap_of_list
                    [(KeyAgentSetName, om_Name (as_Meta as)),
                     (KeyComponent, ComponentAgent),
                     (KeyPartOf, Project),
                     (KeyManagedBy, ControllerAgentSet),
                     (KeyAppName, aad_Name agent)],
                  om_OwnerReferences := [ref],
                  om_Annotations := fmap_of_list [(KeyHash, ch_hash env spec)]\<rparr>,
                ad_Spec = spec, ad_Status = zero_status\<rparr>)"

fun build_all :: "child_env \<Rightarrow> AgentSet \<Rightarrow> AbstractAgentDeploy list \<Rightarrow> (string, AgentDeploy) fmap \<Rightarrow> string + (string, AgentDeploy) fmap" where
"build_all env as [] out = Inr out" |
"build_all env as (agent # agents) out =
   (case newAgentDeploy env as agent of
      Inl e \<Rightarrow> Inl e
    | Inr ad \<Rightarrow> build_all env as agents (fmupd (om_Name (ad_Meta ad)) ad out))"

definition buildDesired :: "child_env \<Rightarrow> AgentSet \<Rightarrow> string + (string, AgentDeploy) fmap" where
"buildDesired env as = build_all env as (ass_Agents (as_Spec as)) fmempty"

section \<open>Comparing and applying\<close>

definition labelsEqual :: "labels \<Rightarrow> labels \<Rightarrow> bool" where
"labelsEqual a b \<longleftrightarrow>
   fcard (fmdom a) = fcard (fmdom b) \<and> fmpred (\<lambda>k v. the_default [] (fmlookup b k) = v) a"

definition child_hash :: "AgentDeploy \<Rightarrow> string" where
"child_hash ad = the_default [] (fmlookup (om_Annotations (ad_Meta ad)) KeyHash)"

definition needsUpdate :: "AgentDeploy \<Rightarrow> AgentDeploy \<Rightarrow> bool" where
"needsUpdate existing desired \<longleftrightarrow>
   child_hash existing \<noteq> child_hash desired \<or>
   om_OwnerReferences (ad_Meta existing) \<noteq> om_OwnerReferences (ad_Meta desired) \<or>
   \<not> labelsEqual (om_Labels (ad_Meta existing)) (om_Labels (ad_Meta desired))"

definition updated_child :: "AgentDeploy \<Rightarrow> AgentDeploy \<Rightarrow> AgentDeploy" where
"updated_child got want =
   got\<lparr>ad_Meta := (ad_Meta got)\<lparr>om_Labels := om_Labels (ad_Meta want), om_Annotations := om_Annotations (ad_Meta want),
         om_OwnerReferences := om_OwnerReferences (ad_Meta want)\<rparr>,
       ad_Spec := ad_Spec want\<rparr>"

datatype child_error =
  ChildCreateFailed string api_error
| ChildUpdateFailed string api_error
| ChildDeleteFailed string api_error

abbreviation ad_nn :: "AgentDeploy \<Rightarrow> NamespacedName" where
"ad_nn ad \<equiv> \<lparr>Namespace = om_Namespace (ad_Meta ad), Name = om_Name (ad_Meta ad)\<rparr>"

definition apply_child ::
  "(NamespacedName, AgentDeploy, 'w) kclient \<Rightarrow> (string, AgentDeploy) fmap \<Rightarrow> (string, AgentDeploy) fmap \<Rightarrow> string \<Rightarrow> 'w \<Rightarrow>
   (child_error + unit) \<times> 'w" where
"apply_child c existing desired name w =
   (case fmlookup desired name of
      None \<Rightarrow> (Inr (), w)
    | Some want \<Rightarrow>
        (case fmlookup existing name of
           None \<Rightarrow>
             (case kcreate c (ad_nn want) want w of
                (Inl AlreadyExists, w') \<Rightarrow> (Inr (), w')
              | (Inl e, w') \<Rightarrow> (Inl (ChildCreateFailed name e), w')
              | (Inr _, w') \<Rightarrow> (Inr (), w'))
         | Some got \<Rightarrow>
             if \<not> needsUpdate got want then (Inr (), w)
             else (case kupdate c (ad_nn got) (updated_child got want) w of
                     (Inl e, w') \<Rightarrow> (Inl (ChildUpdateFailed name e), w')
                   | (Inr _, w') \<Rightarrow> (Inr (), w'))))"

definition drop_child ::
  "(NamespacedName, AgentDeploy, 'w) kclient \<Rightarrow> (string, AgentDeploy) fmap \<Rightarrow> (string, AgentDeploy) fmap \<Rightarrow> string \<Rightarrow> 'w \<Rightarrow>
   (child_error + unit) \<times> 'w" where
"drop_child c existing desired name w =
   (case fmlookup existing name of
      None \<Rightarrow> (Inr (), w)
    | Some got \<Rightarrow>
        if name |\<in>| fmdom desired then (Inr (), w)
        else (case kdelete c (ad_nn got) w of
                (Inl NotFound, w') \<Rightarrow> (Inr (), w')
              | (Inl e, w') \<Rightarrow> (Inl (ChildDeleteFailed name e), w')
              | (Inr _, w') \<Rightarrow> (Inr (), w')))"

definition applyDesiredState ::
  "(NamespacedName, AgentDeploy, 'w) kclient \<Rightarrow> (string fset \<Rightarrow> string list) \<Rightarrow> (string, AgentDeploy) fmap \<Rightarrow>
   (string, AgentDeploy) fmap \<Rightarrow> 'w \<Rightarrow> (child_error + unit) \<times> 'w" where
"applyDesiredState c ord existing desired w =
   (case for_each (apply_child c existing desired) (ord (fmdom desired)) w of
      (Inl e, w') \<Rightarrow> (Inl e, w')
    | (Inr _, w') \<Rightarrow> for_each (drop_child c existing desired) (ord (fmdom existing)) w')"

definition owned_deploy :: "AgentSet \<Rightarrow> NamespacedName \<Rightarrow> AgentDeploy \<Rightarrow> bool" where
"owned_deploy as k ad \<longleftrightarrow>
   Namespace k = om_Namespace (as_Meta as) \<and>
   fmlookup (om_Labels (ad_Meta ad)) KeyAgentSetName = Some (om_Name (as_Meta as))"

definition listOwnedAgentDeploys ::
  "(NamespacedName, AgentDeploy, 'w) kclient \<Rightarrow> AgentSet \<Rightarrow> 'w \<Rightarrow> (api_error + (string, AgentDeploy) fmap) \<times> 'w" where
"listOwnedAgentDeploys c as w =
   (case klist c (owned_deploy as) w of
      (Inl e, w') \<Rightarrow> (Inl e, w')
    | (Inr items, w') \<Rightarrow> (Inr (foldl (\<lambda>out (k, ad). fmupd (om_Name (ad_Meta ad)) ad out) fmempty items), w'))"

section \<open>Health\<close>

definition sortedNames :: "(string, AgentDeploy) fmap \<Rightarrow> string list" where
"sortedNames m = sorted_list_of_fset (fmdom m)"

definition join :: "string \<Rightarrow> string list \<Rightarrow> string" where
"join sep xs = (case xs of [] \<Rightarrow> [] | x # rest \<Rightarrow> x @ concat (map (\<lambda>y. sep @ y) rest))"

definition failed_children :: "(string, AgentDeploy) fmap \<Rightarrow> string list \<Rightarrow> string list" where
"failed_children existing names =
   concat (map (\<lambda>name. case fmlookup existing name of
                         Some ad \<Rightarrow> if adst_Phase (ad_Status ad) = AgentDeployPhaseFailed then [name @ '': Failed''] else []
                       | None \<Rightarrow> []) names)"

definition starting_children :: "(string, AgentDeploy) fmap \<Rightarrow> string list \<Rightarrow> string list" where
"starting_children existing names =
   concat (map (\<lambda>name. case fmlookup existing name of
                         None \<Rightarrow> [name @ '': starting'']
                       | Some ad \<Rightarrow>
                           (case adst_Phase (ad_Status ad) of
                              AgentDeployPhaseUnknown \<Rightarrow>
                                [name @ '': '' @ itoa (adst_ReadyReplicas (ad_Status ad)) @ ''/'' @
                                 itoa (adst_DesiredReplicas (ad_Status ad)) @ '' ready'']
                            | _ \<Rightarrow> [])) names)"

definition aggregateChildHealth ::
  "(Condition list \<Rightarrow> Condition list) \<Rightarrow> nanos \<Rightarrow> (string, AgentDeploy) fmap \<Rightarrow> (string, AgentDeploy) fmap \<Rightarrow>
   AgentSetStatus \<Rightarrow> AgentSetStatus" where
"aggregateChildHealth srt now desired existing st =
   (let mark = (\<lambda>f st. st\<lparr>asst_Conditions := f (asst_Conditions st)\<rparr>);
        failed = failed_children existing (sortedNames desired);
        starting = starting_children existing (sortedNames desired)
    in if desired = fmempty
       then mark (MarkUnknown srt now AgentSetConditionAgentsHealthy ''NoAgents'' ''No agents are defined'')
              (st\<lparr>asst_Phase := AgentSetPhaseUnknown\<rparr>)
       else if failed \<noteq> [] then
         let msg = ''unhealthy agents: ['' @ join '', '' failed @ '']''
         in mark (MarkFalse srt now AgentSetConditionAgentsHealthy ''AgentsUnhealthy'' msg)
              (st\<lparr>asst_Phase := AgentSetPhaseFailed, asst_Message := msg\<rparr>)
       else if starting \<noteq> [] then
         let msg = ''waiting for agents: ['' @ join '', '' starting @ '']''
         in mark (MarkUnknown srt now AgentSetConditionAgentsHealthy ''AgentsStarting'' msg)
              (st\<lparr>asst_Phase := AgentSetPhaseUnknown, asst_Message := msg\<rparr>)
       else mark (MarkTrue srt now AgentSetConditionAgentsHealthy)
              (st\<lparr>asst_Phase := AgentSetPhaseRunning, asst_Message := []\<rparr>))"

section \<open>Pointwise updates\<close>

text \<open>A loop over distinct keys whose body, when it succeeds, changes only the object under its own key,
  and that as a function of the stored object.\<close>

lemma for_each_pointwise:
  assumes "for_each f xs w = (r, w')" "distinct xs" "inj key"
    and body: "\<And>x w r w'. f x w = (r, w') \<Longrightarrow>
      stored w' = (if r = Inr () then (stored w)(key x := g x (stored w (key x))) else stored w)"
  shows "(\<forall>k. k \<notin> key ` set xs \<longrightarrow> stored w' k = stored w k) \<and>
    (\<forall>x \<in> set xs. stored w' (key x) = stored w (key x) \<or> stored w' (key x) = g x (stored w (key x))) \<and>
    (r = Inr () \<longrightarrow> (\<forall>x \<in> set xs. stored w' (key x) = g x (stored w (key x))))"
  using assms(1,2)
proof (induction xs arbitrary: w)
  case (Cons x xs)
  obtain r1 w1 where f: "f x w = (r1, w1)"
    by (cases "f x w")
  show ?case
  proof (cases r1)
    case (Inl e)
    then show ?thesis
      using f body [OF f] Cons.prems(1) by auto
  next
    case (Inr u)
    then have loop: "for_each f xs w1 = (r, w')" and w1: "stored w1 = (stored w)(key x := g x (stored w (key x)))"
      using f body [OF f] Cons.prems(1) by simp_all
    have x: "key x \<notin> key ` set xs" "\<And>y. y \<in> set xs \<Longrightarrow> key y \<noteq> key x"
      using Cons.prems(2) assms(3) by (auto simp: inj_def)
    show ?thesis
      using Cons.IH [OF loop] Cons.prems(2) x w1 by auto
  qed
qed simp

section \<open>Children and their keys\<close>

definition named_in :: "string \<Rightarrow> (string, AgentDeploy) fmap \<Rightarrow> bool" where
"named_in ns m \<longleftrightarrow> (\<forall>name ad. fmlookup m name = Some ad \<longrightarrow> ad_nn ad = \<lparr>Namespace = ns, Name = name\<rparr>)"

text \<open>What the two loops make of the object stored under a name.\<close>

definition applied :: "(string, AgentDeploy) fmap \<Rightarrow> (string, AgentDeploy) fmap \<Rightarrow> string \<Rightarrow> AgentDeploy option \<Rightarrow> AgentDeploy option" where
"applied existing desired name old =
   (case fmlookup desired name of
      None \<Rightarrow> old
    | Some want \<Rightarrow>
        (case fmlookup existing name of
           None \<Rightarrow> (case old of None \<Rightarrow> Some want | Some foreign \<Rightarrow> Some foreign)
         | Some got \<Rightarrow> if needsUpdate got want then Some (updated_child got want) else old))"

definition dropped :: "(string, AgentDeploy) fmap \<Rightarrow> (string, AgentDeploy) fmap \<Rightarrow> string \<Rightarrow> AgentDeploy option \<Rightarrow> AgentDeploy option" where
"dropped existing desired name old =
   (if name |\<in>| fmdom existing \<and> name |\<notin>| fmdom desired then None else old)"

abbreviation in_ns :: "string \<Rightarrow> string \<Rightarrow> NamespacedName" where
"in_ns ns name \<equiv> \<lparr>Namespace = ns, Name = name\<rparr>"

lemma inj_in_ns: "inj (in_ns ns)"
  by (simp add: inj_def)

lemma other_ns: "Namespace k \<noteq> ns \<Longrightarrow> k \<notin> in_ns ns ` S"
  by auto

lemma named_inD: "named_in ns m \<Longrightarrow> fmlookup m name = Some ad \<Longrightarrow> om_Namespace (ad_Meta ad) = ns \<and> om_Name (ad_Meta ad) = name"
  by (simp add: named_in_def)

lemma foldl_fmupd:
  "foldl (\<lambda>out (k, v). fmupd (f v) v out) m items = m ++\<^sub>f fmap_of_list (rev (map (\<lambda>(k, v). (f v, v)) items))"
  by (induction items arbitrary: m) (auto intro!: fmap_ext simp: fmlookup_of_list map_add_def split: option.splits)

lemma fmlookup_collected:
  assumes "distinct (map (\<lambda>(k, v). f v) items)"
  shows "fmlookup (foldl (\<lambda>out (k, v). fmupd (f v) v out) fmempty items) n = Some v \<longleftrightarrow> (\<exists>k. (k, v) \<in> set items \<and> f v = n)"
proof -
  have "distinct (map fst (rev (map (\<lambda>(k, v). (f v, v)) items)))"
    using assms by (simp add: rev_map [symmetric] comp_def case_prod_unfold)
  then show ?thesis
    by (force simp: foldl_fmupd fmlookup_of_list map_of_eq_Some_iff image_iff)
qed

locale child_sync = kube cl stored removed + map_order ord
  for cl :: "(NamespacedName, AgentDeploy, 'w) kclient" and stored and ord :: "string fset \<Rightarrow> string list"
begin

lemma apply_child_effect:
  assumes "apply_child cl existing desired name w = (r, w')" "named_in ns existing" "named_in ns desired"
  shows "stored w' = (if r = Inr () then (stored w)(in_ns ns name := applied existing desired name (stored w (in_ns ns name)))
    else stored w)"
proof (cases "fmlookup desired name")
  case None
  then show ?thesis
    using assms(1) by (auto simp: apply_child_def applied_def)
next
  case want: (Some want)
  note nm = named_inD [OF assms(3) want]
  show ?thesis
  proof (cases "fmlookup existing name")
    case None
    obtain rc wc where c: "kcreate cl (in_ns ns name) want w = (rc, wc)"
      by (cases "kcreate cl (in_ns ns name) want w")
    then show ?thesis
      using assms(1) want None nm create_err [of "in_ns ns name" want w] create_ok [of "in_ns ns name" want w]
        create_exists [of "in_ns ns name" want w]
      by (auto simp: apply_child_def applied_def split: sum.splits api_error.splits option.splits)
  next
    case (Some got)
    obtain rc wc where c: "kupdate cl (in_ns ns name) (updated_child got want) w = (rc, wc)"
      by (cases "kupdate cl (in_ns ns name) (updated_child got want) w")
    then show ?thesis
      using assms(1) want Some named_inD [OF assms(2) Some] update_err [of "in_ns ns name" "updated_child got want" w]
        update_ok [of "in_ns ns name" "updated_child got want" w]
      by (auto simp: apply_child_def applied_def split: sum.splits if_splits)
  qed
qed

lemma drop_child_effect:
  assumes "drop_child cl existing desired name w = (r, w')" "named_in ns existing"
  shows "stored w' = (if r = Inr () then (stored w)(in_ns ns name := dropped existing desired name (stored w (in_ns ns name)))
    else stored w)"
proof (cases "fmlookup existing name")
  case None
  then show ?thesis
    using assms(1) by (auto simp: drop_child_def dropped_def fmlookup_dom_iff)
next
  case (Some got)
  obtain rc wc where c: "kdelete cl (in_ns ns name) w = (rc, wc)"
    by (cases "kdelete cl (in_ns ns name) w")
  then show ?thesis
    using assms(1) Some named_inD [OF assms(2) Some] delete_err [of "in_ns ns name" w] delete_ok [of "in_ns ns name" w]
      delete_missing [of "in_ns ns name" w]
    by (auto simp: drop_child_def dropped_def removed_def fmdomI split: sum.splits api_error.splits if_splits)
qed

lemma applyDesiredState_effect:
  assumes run: "applyDesiredState cl ord existing desired w = (r, w')" and named: "named_in ns existing" "named_in ns desired"
  shows "(\<forall>k. Namespace k \<noteq> ns \<longrightarrow> stored w' k = stored w k) \<and>
    (\<forall>name. \<exists>mid \<in> {stored w (in_ns ns name), applied existing desired name (stored w (in_ns ns name))}.
       stored w' (in_ns ns name) \<in> {mid, dropped existing desired name mid}) \<and>
    (r = Inr () \<longrightarrow> (\<forall>name. stored w' (in_ns ns name) =
       dropped existing desired name (applied existing desired name (stored w (in_ns ns name)))))"
proof -
  obtain r1 w1 where one: "for_each (apply_child cl existing desired) (ord (fmdom desired)) w = (r1, w1)"
    by (cases "for_each (apply_child cl existing desired) (ord (fmdom desired)) w")
  note eff1 = for_each_pointwise [where stored = stored and key = "in_ns ns" and g = "applied existing desired",
    OF one ord_distinct inj_in_ns apply_child_effect [OF _ named], unfolded ord_set]
  have "r1 \<noteq> Inr () \<and> r \<noteq> Inr () \<and> w' = w1 \<or>
      r1 = Inr () \<and> for_each (drop_child cl existing desired) (ord (fmdom existing)) w1 = (r, w')"
    using run one by (auto simp: applyDesiredState_def split: sum.splits)
  moreover have first: "stored w1 (in_ns ns name) \<in> {stored w (in_ns ns name), applied existing desired name (stored w (in_ns ns name))}"
    "r1 = Inr () \<Longrightarrow> stored w1 (in_ns ns name) = applied existing desired name (stored w (in_ns ns name))" for name
    using eff1 by (cases "name |\<in>| fmdom desired"; auto simp: applied_def fmdom_notD)+
  moreover have ns1: "stored w1 k = stored w k" if "Namespace k \<noteq> ns" for k
    using eff1 other_ns [OF that] by blast
  ultimately show ?thesis
  proof (elim disjE conjE)
    assume "r \<noteq> Inr ()" "w' = w1"
    then show ?thesis
      using first(1) ns1 by auto
  next
    assume "r1 = Inr ()" and two: "for_each (drop_child cl existing desired) (ord (fmdom existing)) w1 = (r, w')"
    note eff2 = for_each_pointwise [where stored = stored and key = "in_ns ns" and g = "dropped existing desired",
      OF two ord_distinct inj_in_ns drop_child_effect [OF _ named(1)], unfolded ord_set]
    have second: "stored w' (in_ns ns name) \<in> {stored w1 (in_ns ns name), dropped existing desired name (stored w1 (in_ns ns name))}"
      "r = Inr () \<Longrightarrow> stored w' (in_ns ns name) = dropped existing desired name (stored w1 (in_ns ns name))" for name
      using eff2 by (cases "name |\<in>| fmdom existing"; auto simp: dropped_def)+
    have "stored w' k = stored w1 k" if "Namespace k \<noteq> ns" for k
      using eff2 other_ns [OF that] by blast
    then show ?thesis
      using ns1 second first(2) [OF \<open>r1 = Inr ()\<close>] by auto
  qed
qed

lemma listOwned_result:
  assumes "listOwnedAgentDeploys cl as w = (Inr existing, w')"
    and keyed: "\<And>k ad. stored w k = Some ad \<Longrightarrow> ad_nn ad = k"
  shows "stored w' = stored w \<and> named_in (om_Namespace (as_Meta as)) existing \<and>
    (\<forall>name ad. fmlookup existing name = Some ad \<longleftrightarrow>
       stored w (in_ns (om_Namespace (as_Meta as)) name) = Some ad \<and> owned_deploy as (in_ns (om_Namespace (as_Meta as)) name) ad)"
proof -
  let ?ns = "om_Namespace (as_Meta as)"
  obtain items where items: "klist cl (owned_deploy as) w = (Inr items, w')"
    and ex: "existing = foldl (\<lambda>out (k, ad). fmupd (om_Name (ad_Meta ad)) ad out) fmempty items"
    using assms(1) by (auto simp: listOwnedAgentDeploys_def split: prod.splits sum.splits)
  note li = list_result [OF items]
  have mem: "(k, ad) \<in> set items \<longleftrightarrow> stored w k = Some ad \<and> owned_deploy as k ad" for k ad
    using li by blast
  have keys: "k = in_ns ?ns (om_Name (ad_Meta ad))" if "(k, ad) \<in> set items" for k ad
    using that keyed [of k ad] mem by (cases k) (auto simp: owned_deploy_def)
  have "map fst items = map (in_ns ?ns) (map (\<lambda>(k, ad). om_Name (ad_Meta ad)) items)"
    using keys by auto
  then have "distinct (map (\<lambda>(k, ad). om_Name (ad_Meta ad)) items)"
    using li distinct_map by metis
  then have coll: "fmlookup existing name = Some ad \<longleftrightarrow> (\<exists>k. (k, ad) \<in> set items \<and> om_Name (ad_Meta ad) = name)" for name ad
    unfolding ex by (rule fmlookup_collected)
  have look: "fmlookup existing name = Some ad \<longleftrightarrow> stored w (in_ns ?ns name) = Some ad \<and> owned_deploy as (in_ns ?ns name) ad" for name ad
  proof
    assume "fmlookup existing name = Some ad"
    then obtain k where "(k, ad) \<in> set items" "om_Name (ad_Meta ad) = name"
      using coll by blast
    then have "k = in_ns ?ns name" "stored w k = Some ad \<and> owned_deploy as k ad"
      using keys [of k ad] mem [of k ad] by simp_all
    then show "stored w (in_ns ?ns name) = Some ad \<and> owned_deploy as (in_ns ?ns name) ad"
      by simp
  next
    assume st: "stored w (in_ns ?ns name) = Some ad \<and> owned_deploy as (in_ns ?ns name) ad"
    then have "(in_ns ?ns name, ad) \<in> set items" "om_Name (ad_Meta ad) = name"
      using mem keyed [of "in_ns ?ns name" ad] by simp_all
    then show "fmlookup existing name = Some ad"
      using coll by blast
  qed
  have "named_in ?ns existing"
    unfolding named_in_def by (intro allI impI keyed) (simp add: look)
  then show ?thesis
    using list_frame [OF items] look by simp
qed

end

interpretation mem_children: child_sync "mem_client (\<lambda>_. None)" mem_stored sorted_list_of_fset
  by (intro child_sync.intro mem_removed sorted_order.map_order_axioms)

section \<open>What is rendered\<close>

lemma newAgentDeploy_fields:
  assumes "newAgentDeploy env as agent = Inr ad"
  shows "ad_nn ad = in_ns (om_Namespace (as_Meta as)) (ChildAgentDeployName as (aad_Name agent))"
    "owned_deploy as (ad_nn ad) ad" "ads_Replicas (ad_Spec ad) = None" "child_hash ad = ch_hash env (ad_Spec ad)"
    "ads_Topology (ad_Spec ad) = ComputeTopology (Some as) (aad_Name agent)"
  using assms
  by (auto simp: newAgentDeploy_def Let_def owned_deploy_def child_hash_def new_meta_def KeyAgentSetName_def KeyComponent_def
      KeyPartOf_def KeyManagedBy_def KeyAppName_def split: sum.splits)

definition rendered :: "child_env \<Rightarrow> AgentSet \<Rightarrow> (string, AgentDeploy) fmap \<Rightarrow> bool" where
"rendered env as out \<longleftrightarrow>
   (\<forall>name ad. fmlookup out name = Some ad \<longrightarrow> (\<exists>agent. newAgentDeploy env as agent = Inr ad \<and> om_Name (ad_Meta ad) = name))"

lemma build_all_result:
  "build_all env as agents out = Inr desired \<Longrightarrow> rendered env as out \<Longrightarrow>
   rendered env as desired \<and> fmdom desired = fmdom out |\<union>| fset_of_list (map (\<lambda>a. ChildAgentDeployName as (aad_Name a)) agents)"
proof (induction env as agents out rule: build_all.induct)
  case (2 env as agent agents out)
  obtain ad where ad: "newAgentDeploy env as agent = Inr ad"
    using "2.prems"(1) by (auto split: sum.splits)
  have "rendered env as (fmupd (om_Name (ad_Meta ad)) ad out)"
    using "2.prems"(2) ad by (auto simp: rendered_def)
  then show ?case
    using "2.IH" [OF ad] "2.prems"(1) ad newAgentDeploy_fields(1) [OF ad] by auto
qed simp

lemma buildDesired_result:
  assumes "buildDesired env as = Inr desired"
  shows "named_in (om_Namespace (as_Meta as)) desired"
    "fmdom desired = fset_of_list (map (\<lambda>a. ChildAgentDeployName as (aad_Name a)) (ass_Agents (as_Spec as)))"
    "fmlookup desired name = Some want \<Longrightarrow> owned_deploy as (in_ns (om_Namespace (as_Meta as)) name) want \<and> ads_Replicas (ad_Spec want) = None"
proof -
  have res: "rendered env as desired" "fmdom desired = fset_of_list (map (\<lambda>a. ChildAgentDeployName as (aad_Name a)) (ass_Agents (as_Spec as)))"
    using build_all_result [OF assms [unfolded buildDesired_def]] by (auto simp: rendered_def)
  have each: "ad_nn ad = in_ns (om_Namespace (as_Meta as)) name \<and> owned_deploy as (ad_nn ad) ad \<and> ads_Replicas (ad_Spec ad) = None"
    if "fmlookup desired name = Some ad" for name ad
    using res(1) that newAgentDeploy_fields(1-3) unfolding rendered_def by fastforce
  then show "named_in (om_Namespace (as_Meta as)) desired"
    by (simp add: named_in_def)
  show "fmlookup desired name = Some want \<Longrightarrow> owned_deploy as (in_ns (om_Namespace (as_Meta as)) name) want \<and> ads_Replicas (ad_Spec want) = None"
    using each by fastforce
qed (use build_all_result [OF assms [unfolded buildDesired_def]] in \<open>auto simp: rendered_def\<close>)

lemma updated_child_current: "\<not> needsUpdate (updated_child got want) want"
  by (auto simp: needsUpdate_def updated_child_def child_hash_def labelsEqual_def fmpred_iff)

lemma needsUpdate_refl: "\<not> needsUpdate want want"
  by (auto simp: needsUpdate_def labelsEqual_def fmpred_iff)

lemma owned_updated: "owned_deploy as k want \<Longrightarrow> owned_deploy as k (updated_child got want)"
  by (simp add: owned_deploy_def updated_child_def)

context child_sync
begin

text \<open>List, render and apply as the controller composes them.  The object under a child's name after
  a successful pass, by what was stored before.\<close>

lemma sync_outcome:
  assumes keyed: "\<And>k ad. stored w k = Some ad \<Longrightarrow> ad_nn ad = k"
    and listed: "listOwnedAgentDeploys cl as w = (Inr existing, w1)" and built: "buildDesired env as = Inr desired"
    and run: "applyDesiredState cl ord existing desired w1 = (r, w')" and k: "k = in_ns (om_Namespace (as_Meta as)) name"
  shows "(stored w k = Some ad \<and> \<not> owned_deploy as k ad \<longrightarrow> stored w' k = Some ad) \<and>
    (Namespace k' \<noteq> om_Namespace (as_Meta as) \<longrightarrow> stored w' k' = stored w k') \<and>
    (r = Inr () \<longrightarrow> stored w' k =
      (case (fmlookup desired name, stored w k) of
         (None, Some ad) \<Rightarrow> if owned_deploy as k ad then None else Some ad
       | (None, None) \<Rightarrow> None
       | (Some want, None) \<Rightarrow> Some want
       | (Some want, Some ad) \<Rightarrow> if owned_deploy as k ad \<and> needsUpdate ad want then Some (updated_child ad want) else Some ad))"
proof -
  let ?ns = "om_Namespace (as_Meta as)"
  note l = listOwned_result [OF listed keyed]
  have eff: "stored w' k' = stored w k'" if "Namespace k' \<noteq> ?ns" for k'
    using applyDesiredState_effect [OF run, of ?ns] l buildDesired_result(1) [OF built] that by simp
  have mid: "\<exists>mid \<in> {stored w k, applied existing desired name (stored w k)}. stored w' k \<in> {mid, dropped existing desired name mid}"
    and fin: "r = Inr () \<Longrightarrow> stored w' k = dropped existing desired name (applied existing desired name (stored w k))"
    using applyDesiredState_effect [OF run, of ?ns] l buildDesired_result(1) [OF built] unfolding k by simp_all
  have ex: "fmlookup existing name = (case stored w k of None \<Rightarrow> None | Some ad \<Rightarrow> if owned_deploy as k ad then Some ad else None)"
    using l unfolding k by (cases "fmlookup existing name") (auto split: option.splits, metis option.discI)
  have dom: "name |\<in>| fmdom existing \<longleftrightarrow> fmlookup existing name \<noteq> None" "name |\<in>| fmdom desired \<longleftrightarrow> fmlookup desired name \<noteq> None"
    by (simp_all add: fmlookup_dom_iff)
  have "stored w' k = Some ad" if "stored w k = Some ad" "\<not> owned_deploy as k ad"
    using mid that ex dom by (auto simp: applied_def dropped_def split: option.splits)
  then show ?thesis
    using eff fin ex dom by (auto simp: applied_def dropped_def split: option.splits)
qed

end

section \<open>An example\<close>

text \<open>A set of one agent whose stored child was rendered from an earlier spec and has been scaled to five
  replicas, next to a child of an agent that is gone and an AgentDeploy of another owner.\<close>

definition demo_child :: "string \<Rightarrow> string \<Rightarrow> AgentDeploy" where
"demo_child owner n =
   \<lparr>ad_Meta = (new_meta ''default'' (''set-'' @ n))\<lparr>om_Labels := fmap_of_list [(KeyAgentSetName, owner)],
      om_Annotations := fmap_of_list [(KeyHash, ''old'')]\<rparr>,
    ad_Spec = \<lparr>ads_Agent = new_agent n, ads_AgentSetName = owner, ads_Replicas = Some 5, ads_Topology = zero_topology\<rparr>,
    ad_Status = zero_status\<rparr>"

definition demo_children :: "(NamespacedName, AgentDeploy) mem" where
"demo_children =
   \<lparr>objects = map (\<lambda>ad. (ad_nn ad, ad)) [demo_child ''set'' ''a'', demo_child ''set'' ''gone'', demo_child ''other'' ''x''], faults = []\<rparr>"

definition demo_child_env :: child_env where
"demo_child_env =
   \<lparr>ch_owner = (\<lambda>as. Inr (controller_ref ''AgentSet'' (om_Name (as_Meta as)) ''u'')),
    ch_hash = (\<lambda>spec. aad_Name (ads_Agent spec)), ch_ord = sorted_list_of_fset\<rparr>"

abbreviation demo_set :: AgentSet where
"demo_set \<equiv> sample_set Handoff [''a'']"

lemma demo_children_keyed: "mem_stored demo_children k = Some ad \<Longrightarrow> ad_nn ad = k"
  unfolding mem_stored_def by (drule map_of_SomeD) (auto simp: demo_children_def)

lemma fst_eq_iff: "fst p = x \<longleftrightarrow> (\<exists>y. p = (x, y))"
  by (cases p) simp

lemma demo_sync:
  obtains existing w1 desired w' want where
    "listOwnedAgentDeploys (mem_client (\<lambda>_. None)) demo_set demo_children = (Inr existing, w1)"
    "buildDesired demo_child_env demo_set = Inr desired"
    "applyDesiredState (mem_client (\<lambda>_. None)) sorted_list_of_fset existing desired w1 = (Inr (), w')"
    "fmlookup desired ''set-a'' = Some want" "needsUpdate (demo_child ''set'' ''a'') want"
proof -
  have "case listOwnedAgentDeploys (mem_client (\<lambda>_. None)) demo_set demo_children of
      (Inr existing, w1) \<Rightarrow>
        (case buildDesired demo_child_env demo_set of
           Inr desired \<Rightarrow>
             fst (applyDesiredState (mem_client (\<lambda>_. None)) sorted_list_of_fset existing desired w1) = Inr () \<and>
             (case fmlookup desired ''set-a'' of None \<Rightarrow> False | Some want \<Rightarrow> needsUpdate (demo_child ''set'' ''a'') want)
         | Inl _ \<Rightarrow> False)
    | (Inl _, _) \<Rightarrow> False"
    by code_simp
  then show ?thesis
    using that by (auto simp: fst_eq_iff split: prod.splits sum.splits option.splits)
qed

lemma demo_owned:
  "mem_stored demo_children \<lparr>Namespace = ''default'', Name = ''set-a''\<rparr> = Some (demo_child ''set'' ''a'')"
  "mem_stored demo_children \<lparr>Namespace = ''default'', Name = ''set-x''\<rparr> = Some (demo_child ''other'' ''x'')"
  "owned_deploy demo_set \<lparr>Namespace = ''default'', Name = ''set-a''\<rparr> (demo_child ''set'' ''a'')"
  "\<not> owned_deploy demo_set \<lparr>Namespace = ''default'', Name = ''set-x''\<rparr> (demo_child ''other'' ''x'')"
  by (simp_all add: mem_stored_def demo_children_def demo_child_def new_meta_def owned_deploy_def sample_set_def)

section \<open>Properties\<close>

text \<open>
  C11. The children of an AgentSet converge.  Listing, rendering and applying leave every AgentDeploy
  alone that the set does not own, whatever fails.  A successful pass stores an AgentDeploy for every
  agent of the set, with the wanted hash, labels and owner unless an object the set does not own has
  the name, and leaves no owned AgentDeploy whose agent is gone.
\<close>

theorem children_converge:
  assumes "kube cl stored removed" "map_order ord" "\<And>k ad. stored w k = Some ad \<Longrightarrow> ad_nn ad = k"
    and "listOwnedAgentDeploys cl as w = (Inr existing, w1)" "buildDesired env as = Inr desired"
    and "applyDesiredState cl ord existing desired w1 = (r, w')"
  shows "(\<forall>k ad. stored w k = Some ad \<and> \<not> owned_deploy as k ad \<longrightarrow> stored w' k = Some ad) \<and>
    (r = Inr () \<longrightarrow>
       (\<forall>a \<in> set (ass_Agents (as_Spec as)).
          let name = ChildAgentDeployName as (aad_Name a); k = \<lparr>Namespace = om_Namespace (as_Meta as), Name = name\<rparr>
          in \<exists>ad want. stored w' k = Some ad \<and> fmlookup desired name = Some want \<and>
               (\<not> needsUpdate ad want \<or> stored w k = Some ad \<and> \<not> owned_deploy as k ad)) \<and>
       (\<forall>k ad. stored w' k = Some ad \<and> owned_deploy as k ad \<longrightarrow>
          (\<exists>a \<in> set (ass_Agents (as_Spec as)). Name k = ChildAgentDeployName as (aad_Name a))))"
proof -
  let ?ns = "om_Namespace (as_Meta as)"
  note out = child_sync.sync_outcome [OF child_sync.intro [OF assms(1,2)] assms(3-6) refl]
  note built = buildDesired_result [OF assms(5)]
  have k: "k = \<lparr>Namespace = ?ns, Name = Name k\<rparr>" if "Namespace k = ?ns" for k :: NamespacedName
    using that by (cases k) simp
  have foreign: "stored w' k = Some ad" if "stored w k = Some ad" "\<not> owned_deploy as k ad" for k ad
    using out [of "Name k" ad k] k [of k] that by (cases "Namespace k = ?ns") auto
  have wanted: "\<exists>ad want. stored w' (in_ns ?ns name) = Some ad \<and> fmlookup desired name = Some want \<and>
      (\<not> needsUpdate ad want \<or> stored w (in_ns ?ns name) = Some ad \<and> \<not> owned_deploy as (in_ns ?ns name) ad)"
    if "r = Inr ()" "name |\<in>| fmdom desired" for name
    using out [of name] that updated_child_current
    by (auto simp: fmlookup_dom_iff needsUpdate_refl split: option.splits if_splits)
  have orphan: "Name k |\<in>| fmdom desired" if "r = Inr ()" "stored w' k = Some ad" "owned_deploy as k ad" for k ad
  proof -
    have eq: "in_ns ?ns (Name k) = k"
      using that(3) k [of k] by (simp add: owned_deploy_def)
    show ?thesis
      using out [of "Name k", unfolded eq] that by (auto simp: fmlookup_dom_iff split: option.splits if_splits)
  qed
  have "name |\<in>| fmdom desired \<longleftrightarrow> (\<exists>a \<in> set (ass_Agents (as_Spec as)). name = ChildAgentDeployName as (aad_Name a))" for name
    by (auto simp: built(2) fset_of_list.rep_eq)
  then show ?thesis
    using foreign wanted orphan by (simp add: Let_def) blast
qed

theorem children_converge_witness:
  "\<exists>existing w1 desired w'. listOwnedAgentDeploys (mem_client (\<lambda>_. None)) demo_set demo_children = (Inr existing, w1) \<and>
     buildDesired demo_child_env demo_set = Inr desired \<and>
     applyDesiredState (mem_client (\<lambda>_. None)) sorted_list_of_fset existing desired w1 = (Inr (), w') \<and>
     mem_stored w' \<lparr>Namespace = ''default'', Name = ''set-x''\<rparr> = Some (demo_child ''other'' ''x'') \<and>
     (\<exists>ad. mem_stored w' \<lparr>Namespace = ''default'', Name = ''set-a''\<rparr> = Some ad)"
proof (rule demo_sync)
  fix existing w1 desired w'
  assume run: "listOwnedAgentDeploys (mem_client (\<lambda>_. None)) demo_set demo_children = (Inr existing, w1)"
    "buildDesired demo_child_env demo_set = Inr desired"
    "applyDesiredState (mem_client (\<lambda>_. None)) sorted_list_of_fset existing desired w1 = (Inr (), w')"
  have set: "ass_Agents (as_Spec demo_set) = [new_agent ''a'']" "om_Namespace (as_Meta demo_set) = ''default''"
    "ChildAgentDeployName demo_set (aad_Name (new_agent ''a'')) = ''set-a''"
    by (simp_all add: sample_set_def new_meta_def ChildAgentDeployName_def new_agent_def)
  note conv = children_converge [OF mem_removed sorted_order.map_order_axioms demo_children_keyed run]
  have "mem_stored w' \<lparr>Namespace = ''default'', Name = ''set-x''\<rparr> = Some (demo_child ''other'' ''x'')"
    using conv demo_owned(2,4) by blast
  moreover have "\<exists>ad. mem_stored w' \<lparr>Namespace = ''default'', Name = ''set-a''\<rparr> = Some ad"
    using conv by (auto simp: set Let_def)
  ultimately show ?thesis
    using run by blast
qed

text \<open>
  C35. A pass keeps a child's replica count exactly when it does not update the child.  The rendered spec
  has no replica count, and an update replaces the whole spec: any change of the agent's part of the
  AgentSet discards the count that the autoscaler or an operator has set.
\<close>

theorem child_update_resets_replicas:
  assumes "kube cl stored removed" "map_order ord" "\<And>k ad. stored w k = Some ad \<Longrightarrow> ad_nn ad = k"
    and "listOwnedAgentDeploys cl as w = (Inr existing, w1)" "buildDesired env as = Inr desired"
    and "applyDesiredState cl ord existing desired w1 = (Inr (), w')"
    and "k = \<lparr>Namespace = om_Namespace (as_Meta as), Name = name\<rparr>"
    and "stored w k = Some ad" "owned_deploy as k ad" "fmlookup desired name = Some want"
  shows "\<exists>ad'. stored w' k = Some ad' \<and>
    ads_Replicas (ad_Spec ad') = (if needsUpdate ad want then None else ads_Replicas (ad_Spec ad))"
  using child_sync.sync_outcome [OF child_sync.intro [OF assms(1,2)] assms(3-7), of ad k] assms(8-10) buildDesired_result(3) [OF assms(5,10)]
  by (auto simp: updated_child_def)

theorem child_update_resets_replicas_witness:
  "\<exists>existing w1 desired w' ad'. listOwnedAgentDeploys (mem_client (\<lambda>_. None)) demo_set demo_children = (Inr existing, w1) \<and>
     buildDesired demo_child_env demo_set = Inr desired \<and>
     applyDesiredState (mem_client (\<lambda>_. None)) sorted_list_of_fset existing desired w1 = (Inr (), w') \<and>
     ads_Replicas (ad_Spec (demo_child ''set'' ''a'')) = Some 5 \<and>
     mem_stored w' \<lparr>Namespace = ''default'', Name = ''set-a''\<rparr> = Some ad' \<and> ads_Replicas (ad_Spec ad') = None"
proof (rule demo_sync)
  fix existing w1 desired w' want
  assume run: "listOwnedAgentDeploys (mem_client (\<lambda>_. None)) demo_set demo_children = (Inr existing, w1)"
    "buildDesired demo_child_env demo_set = Inr desired"
    "applyDesiredState (mem_client (\<lambda>_. None)) sorted_list_of_fset existing desired w1 = (Inr (), w')"
    and want: "fmlookup desired ''set-a'' = Some want" "needsUpdate (demo_child ''set'' ''a'') want"
  have key: "\<lparr>Namespace = ''default'', Name = ''set-a''\<rparr> = \<lparr>Namespace = om_Namespace (as_Meta demo_set), Name = ''set-a''\<rparr>"
    by (simp add: sample_set_def new_meta_def)
  note res = child_update_resets_replicas [where stored = mem_stored and w = demo_children and k = "\<lparr>Namespace = ''default'', Name = ''set-a''\<rparr>" and name = "''set-a''" and
    ad = "demo_child ''set'' ''a''", OF mem_removed sorted_order.map_order_axioms demo_children_keyed run key demo_owned(1,3) want(1)]
  obtain ad' where ad': "mem_stored w' \<lparr>Namespace = ''default'', Name = ''set-a''\<rparr> = Some ad'" "ads_Replicas (ad_Spec ad') = None"
    using res want(2) by fastforce
  have "ads_Replicas (ad_Spec (demo_child ''set'' ''a'')) = Some 5"
    by (simp add: demo_child_def)
  with run ad' show ?thesis
    by (intro exI conjI)
qed

end
