(* ===== verification/SetController.thy ===== *)
theory SetController
  imports SetChildren PodSpecs
begin

text \<open>
  \<open>agentset/controller.go\<close>, \<open>daemon.go\<close> and \<open>entry_service.go\<close>: one reconcile of an AgentSet, with its entry
  Service, its metrics daemon and its status.  The clients of the three kinds of children, the owner
  reference, the hashes, the label and URL tests and the error texts are arguments; a panic is \<open>None\<close>.
\<close>

section \<open>The daemon\<close>

definition daemonReplicas :: int where
"daemonReplicas = 1"

definition daemonProbeInitialDelaySec :: int where
"daemonProbeInitialDelaySec = 5"

definition daemonLabels :: "AgentSet \<Rightarrow> labels" where
"daemonLabels as = fmap_of_list
   [(KeyAppName, DaemonName as),
    (KeyAgentSetName, om_Name (as_Meta as)),
    (KeyComponent, ComponentDaemon),
    (KeyPartOf, Project),
    (KeyManagedBy, ControllerAgentSet)]"

definition daemonProbe :: CoreProbe where
"daemonProbe =
   \<lparr>pr_Handler = HTTPGetAction ''/healthz'' ''metrics'' ''HTTPS'',
    pr_InitialDelaySeconds = daemonProbeInitialDelaySec, pr_PeriodSeconds = 10, pr_TimeoutSeconds = 2,
    pr_FailureThreshold = 3, pr_SuccessThreshold = 1\<rparr>"

definition newDaemonContainer ::
  "(AgentSet \<Rightarrow> string) \<Rightarrow> string \<Rightarrow> string \<Rightarrow> AgentSet \<Rightarrow> ContainerTemplate option \<Rightarrow> ResourceRequirements \<Rightarrow> CoreContainer" where
"newDaemonContainer marshal img pullPolicy as tmpl defaultResources =
   ApplyDefaultResourcesIfMissing defaultResources (apply_template tmpl
     ((new_container ContainerNameDaemon)\<lparr>
        c_Image := img, c_ImagePullPolicy := pullPolicy, c_Args := [''daemon''],
        c_Env := [field_env EnvNamespace ''metadata.namespace'',
                  field_env EnvPodName ''metadata.name'',
                  value_env EnvAgentSetName (om_Name (as_Meta as)),
                  value_env EnvAgentSetObject (EncodeAgentSet marshal as)],
        c_Ports := [\<lparr>cp_Name = ''api'', cp_ContainerPort = DaemonAPIPort, cp_Protocol = ''TCP''\<rparr>,
                    \<lparr>cp_Name = ''metrics'', cp_ContainerPort = DaemonMetricsPort, cp_Protocol = ''TCP''\<rparr>],
        c_ReadinessProbe := Some daemonProbe,
        c_LivenessProbe := Some daemonProbe\<rparr>))"

record DeploymentSpec =
  dsp_Replicas :: int
  dsp_Strategy :: string
  dsp_Selector :: labels
  dsp_Template :: PodTemplateSpec

record Deployment =
  dep_Meta :: ObjectMeta
  dep_Spec :: DeploymentSpec

abbreviation dep_key :: "Deployment \<Rightarrow> NamespacedName" where
"dep_key d \<equiv> \<lparr>Namespace = om_Namespace (dep_Meta d), Name = om_Name (dep_Meta d)\<rparr>"

definition dep_hash :: "Deployment \<Rightarrow> string" where
"dep_hash d = the_default [] (fmlookup (om_Annotations (dep_Meta d)) KeyHash)"

record 'w set_env =
  te_get :: "NamespacedName \<Rightarrow> 'w \<Rightarrow> (api_error + AgentSet) \<times> 'w"
  te_patch :: "NamespacedName \<Rightarrow> AgentSetStatus \<Rightarrow> AgentSetStatus \<Rightarrow> 'w \<Rightarrow> (api_error + unit) \<times> 'w"
  te_deploys :: "(NamespacedName, AgentDeploy, 'w) kclient"
  te_deployments :: "(NamespacedName, Deployment, 'w) kclient"
  te_dep_hash :: "DeploymentSpec \<Rightarrow> string"
  te_services :: "'w svc_env"
  te_child :: child_env
  te_config :: "config option"
  te_unmarshal :: "string \<Rightarrow> ResourceRequirements option"
  te_marshal :: "AgentSet \<Rightarrow> string"
  te_image :: string
  te_imagePullPolicy :: string
  te_dns :: "string \<Rightarrow> bool"
  te_url :: "string \<Rightarrow> bool"
  te_sort :: "Condition list \<Rightarrow> Condition list"

text \<open>The template's labels are merged into the map that the selector and the pod template share.\<close>

definition newDaemonDeployment :: "'w set_env \<Rightarrow> AgentSet \<Rightarrow> (string + Deployment) option" where
"newDaemonDeployment env as =
   (case GetDefaultContainerResources (te_unmarshal env) (GetDefaults (te_config env)) of
      None \<Rightarrow> None
    | Some defaultResources \<Rightarrow>
        let tmpl = (case ass_Templates (as_Spec as) of None \<Rightarrow> None | Some t \<Rightarrow> tm_DaemonTemplate t);
            cTmpl = (case tmpl of None \<Rightarrow> None | Some t \<Rightarrow> dt_Container t);
            pod = \<lparr>pts_Labels = daemonLabels as, pts_Annotations = fmempty,
                   pts_Spec = new_pod_spec\<lparr>ps_Containers :=
                     [newDaemonContainer (te_marshal env) (te_image env) (te_imagePullPolicy env) as cTmpl defaultResources]\<rparr>\<rparr>;
            pod = (case tmpl of None \<Rightarrow> pod | Some t \<Rightarrow> ApplyToPodTemplateSpec (dt_PodTemplate t) pod)
        in Some (case ch_owner (te_child env) as of
             Inl e \<Rightarrow> Inl e
           | Inr ref \<Rightarrow>
               Inr \<lparr>dep_Meta = (new_meta (om_Namespace (as_Meta as)) (DaemonName as))\<lparr>
                      om_Labels := daemonLabels as, om_OwnerReferences := [ref]\<rparr>,
                    dep_Spec = \<lparr>dsp_Replicas = daemonReplicas, dsp_Strategy = ''Recreate'',
                                dsp_Selector = pts_Labels pod, dsp_Template = pod\<rparr>\<rparr>))"

definition newDaemonService :: "child_env \<Rightarrow> AgentSet \<Rightarrow> string + Service" where
"newDaemonService env as =
   (case ch_owner env as of
      Inl e \<Rightarrow> Inl e
    | Inr ref \<Rightarrow>
        Inr \<lparr>svc_Meta = (new_meta (om_Namespace (as_Meta as)) (DaemonName as))\<lparr>
               om_Labels := daemonLabels as, om_OwnerReferences := [ref]\<rparr>,
             svc_Spec =
               \<lparr>ss_Type = ''ClusterIP'', ss_ClusterIP = [], ss_Selector = daemonLabels as,
                ss_Ports = [\<lparr>sp_Name = ''api'', sp_Port = DaemonAPIPort, sp_TargetPort = StrVal ''api'', sp_Protocol = ''TCP''\<rparr>,
                            \<lparr>sp_Name = ''metrics'', sp_Port = DaemonMetricsPort, sp_TargetPort = StrVal ''metrics'', sp_Protocol = ''TCP''\<rparr>],
                ss_PublishNotReadyAddresses = False\<rparr>\<rparr>)"

section \<open>The entry Service\<close>

definition newEntryService :: "child_env \<Rightarrow> AgentSet \<Rightarrow> string + Service" where
"newEntryService env as =
   (case ch_owner env as of
      Inl e \<Rightarrow> Inl e
    | Inr ref \<Rightarrow>
        Inr \<lparr>svc_Meta = (new_meta (om_Namespace (as_Meta as)) (EntryServiceName as))\<lparr>
               om_Labels := fmap_of_list
                 [(KeyAppName, om_Name (as_Meta as)),
                  (KeyAgentSetName, om_Name (as_Meta as)),
                  (KeyComponent, ComponentAgent),
                  (KeyPartOf, Project),
                  (KeyManagedBy, ControllerAgentSet)],
               om_OwnerReferences := [ref]\<rparr>,
             svc_Spec =
               \<lparr>ss_Type = ''ClusterIP'', ss_ClusterIP = [],
                ss_Selector = fmap_of_list
                  [(KeyAgentSetName, om_Name (as_Meta as)),
                   (KeyManagedBy, ControllerAgentDeploy),
                   (KeyEntry, ''true''),
                   (KeyServing, ''true'')],
                ss_Ports = [\<lparr>sp_Name = ''broker'', sp_Port = AgentBrokerPort, sp_TargetPort = StrVal ''broker'', sp_Protocol = ''TCP''\<rparr>],
                ss_PublishNotReadyAddresses = False\<rparr>\<rparr>)"

section \<open>Reconciling\<close>

datatype set_error =
  SetGetFailed api_error
| ChildListFailed api_error
| ChildrenFailed child_error
| BuildFailed string string
| ObjectFailed upsert_error
| SetPatchFailed api_error

definition reconcileEntryService :: "'w set_env \<Rightarrow> AgentSet \<Rightarrow> 'w \<Rightarrow> (set_error + unit) \<times> 'w" where
"reconcileEntryService env as w =
   (case newEntryService (te_child env) as of
      Inl e \<Rightarrow> (Inl (BuildFailed ''entry service'' e), w)
    | Inr desired \<Rightarrow>
        (case upsertService (te_services env) desired ''entry service'' w of
           (Inl e, w') \<Rightarrow> (Inl (ObjectFailed e), w')
         | (Inr _, w') \<Rightarrow> (Inr (), w')))"

definition reconcileDaemonService :: "'w set_env \<Rightarrow> AgentSet \<Rightarrow> 'w \<Rightarrow> (set_error + unit) \<times> 'w" where
"reconcileDaemonService env as w =
   (case newDaemonService (te_child env) as of
      Inl e \<Rightarrow> (Inl (BuildFailed ''daemon Service'' e), w)
    | Inr desired \<Rightarrow>
        (case upsertService (te_services env) desired ''daemon Service'' w of
           (Inl e, w') \<Rightarrow> (Inl (ObjectFailed e), w')
         | (Inr _, w') \<Rightarrow> (Inr (), w')))"

definition reconcileDaemonDeployment :: "'w set_env \<Rightarrow> AgentSet \<Rightarrow> 'w \<Rightarrow> ((set_error + unit) \<times> 'w) option" where
"reconcileDaemonDeployment env as w =
   (case newDaemonDeployment env as of
      None \<Rightarrow> None
    | Some (Inl e) \<Rightarrow> Some (Inl (BuildFailed ''daemon Deployment'' e), w)
    | Some (Inr desired) \<Rightarrow>
        let desiredHash = te_dep_hash env (dep_Spec desired);
            desired = desired\<lparr>dep_Meta := with_hash desiredHash (dep_Meta desired)\<rparr>
        in Some (case upsert_object (te_deployments env) dep_hash ''daemon Deployment'' (dep_key desired) desired desiredHash w of
             (Inl e, w') \<Rightarrow> (Inl (ObjectFailed e), w')
           | (Inr _, w') \<Rightarrow> (Inr (), w')))"

definition reconcileDaemon :: "'w set_env \<Rightarrow> AgentSet \<Rightarrow> 'w \<Rightarrow> ((set_error + unit) \<times> 'w) option" where
"reconcileDaemon env as w =
   (case reconcileDaemonDeployment env as w of
      None \<Rightarrow> None
    | Some (Inl e, w') \<Rightarrow> Some (Inl e, w')
    | Some (Inr _, w') \<Rightarrow> Some (reconcileDaemonService env as w'))"

text \<open>The error texts that a status carries.\<close>

record texts =
  tx_invalid :: "agentset_error \<Rightarrow> string"
  tx_error :: "set_error \<Rightarrow> string"

definition upd_set :: "(AgentSetStatus \<Rightarrow> AgentSetStatus) \<Rightarrow> AgentSet \<Rightarrow> AgentSet" where
"upd_set f as = as\<lparr>as_Status := f (as_Status as)\<rparr>"

definition set_conds :: "(Condition list \<Rightarrow> Condition list) \<Rightarrow> AgentSet \<Rightarrow> AgentSet" where
"set_conds f = upd_set (\<lambda>st. st\<lparr>asst_Conditions := f (asst_Conditions st)\<rparr>)"

definition fail_set :: "'w set_env \<Rightarrow> nanos \<Rightarrow> string \<Rightarrow> string \<Rightarrow> string \<Rightarrow> AgentSet \<Rightarrow> AgentSet" where
"fail_set env now cond reason msg as =
   upd_set (\<lambda>st. st\<lparr>asst_Phase := AgentSetPhaseFailed, asst_Message := msg\<rparr>)
     (set_conds (MarkFalse (te_sort env) now cond reason msg) as)"

definition finish_set ::
  "'w set_env \<Rightarrow> nanos \<Rightarrow> (string, AgentDeploy) fmap \<Rightarrow> (string, AgentDeploy) fmap \<Rightarrow> AgentSet \<Rightarrow> AgentSet" where
"finish_set env now desired existing as =
   upd_set (\<lambda>st. st\<lparr>asst_AgentCount := Some (uint32 (int (fcard (fmdom desired)))),
                    asst_ExternalAgentCount := Some (uint32 (int (length (ass_ExternalAgents (as_Spec as))))),
                    asst_LastUpdated := now\<rparr>)
     (upd_set (aggregateChildHealth (te_sort env) now desired existing)
       (set_conds (MarkTrue (te_sort env) now AgentSetConditionDeployed) as))"

text \<open>The conditions at the start of a pass, and the writes from the children on.\<close>

definition start_set :: "'w set_env \<Rightarrow> nanos \<Rightarrow> AgentSet \<Rightarrow> AgentSet" where
"start_set env now as =
   upd_set (\<lambda>st. st\<lparr>asst_ObservedGeneration := om_Generation (as_Meta as)\<rparr>)
     (set_conds (InitializeConditions (te_sort env) now
        [AgentSetConditionConfigured, AgentSetConditionDeployed, AgentSetConditionAgentsHealthy]) as)"

definition deploy_set ::
  "'w set_env \<Rightarrow> texts \<Rightarrow> nanos \<Rightarrow> (string, AgentDeploy) fmap \<Rightarrow> (string, AgentDeploy) fmap \<Rightarrow> AgentSet \<Rightarrow> 'w \<Rightarrow>
   ((set_error + unit) \<times> AgentSet \<times> 'w) option" where
"deploy_set env tx now existing desired as w =
   (case applyDesiredState (te_deploys env) (ch_ord (te_child env)) existing desired w of
      (Inl e, w) \<Rightarrow>
        Some (Inl (ChildrenFailed e),
          fail_set env now AgentSetConditionDeployed ''DeployFailed'' (tx_error tx (ChildrenFailed e)) as, w)
    | (Inr _, w) \<Rightarrow>
        (case reconcileEntryService env as w of
           (Inl e, w) \<Rightarrow>
             Some (Inl e, fail_set env now AgentSetConditionDeployed ''EntryServiceFailed'' (tx_error tx e) as, w)
         | (Inr _, w) \<Rightarrow>
             (case reconcileDaemon env as w of
                None \<Rightarrow> None
              | Some (Inl e, w) \<Rightarrow>
                  Some (Inl e, fail_set env now AgentSetConditionDeployed ''DaemonFailed'' (tx_error tx e) as, w)
              | Some (Inr _, w) \<Rightarrow> Some (Inr (), finish_set env now desired existing as, w))))"

definition reconcile_set ::
  "'w set_env \<Rightarrow> texts \<Rightarrow> nanos \<Rightarrow> AgentSet \<Rightarrow> 'w \<Rightarrow> ((set_error + unit) \<times> AgentSet \<times> 'w) option" where
"reconcile_set env tx now as w =
   (let as = start_set env now as
    in case ValidateAgentSet (te_dns env) (te_url env) as of
         Some e \<Rightarrow> Some (Inr (), fail_set env now AgentSetConditionConfigured ''InvalidSpec'' (tx_invalid tx e) as, w)
       | None \<Rightarrow>
           let as = set_conds (MarkTrue (te_sort env) now AgentSetConditionConfigured) as
           in case listOwnedAgentDeploys (te_deploys env) as w of
                (Inl e, w) \<Rightarrow> Some (Inl (ChildListFailed e), as, w)
              | (Inr existing, w) \<Rightarrow>
                  (case buildDesired (te_child env) as of
                     Inl e \<Rightarrow> Some (Inr (), fail_set env now AgentSetConditionConfigured ''BuildFailed'' e as, w)
                   | Inr desired \<Rightarrow> deploy_set env tx now existing desired as w))"

definition persist_set ::
  "'w set_env \<Rightarrow> NamespacedName \<Rightarrow> AgentSet \<Rightarrow> AgentSet \<Rightarrow> 'w \<Rightarrow> (set_error + unit) \<times> 'w" where
"persist_set env key original updated w =
   (if as_Status original = as_Status updated then (Inr (), w)
    else case te_patch env key (as_Status original) (as_Status updated) w of
           (Inl e, w') \<Rightarrow> (Inl (SetPatchFailed e), w')
         | (Inr _, w') \<Rightarrow> (Inr (), w'))"

definition Reconcile_set ::
  "'w set_env \<Rightarrow> texts \<Rightarrow> nanos \<Rightarrow> NamespacedName \<Rightarrow> 'w \<Rightarrow> ((set_error + unit) \<times> 'w) option" where
"Reconcile_set env tx now req w =
   (case te_get env req w of
      (Inl NotFound, w) \<Rightarrow> Some (Inr (), w)
    | (Inl e, w) \<Rightarrow> Some (Inl (SetGetFailed e), w)
    | (Inr original, w) \<Rightarrow>
        if om_DeletionTimestamp (as_Meta original) \<noteq> None then Some (Inr (), w)
        else case reconcile_set env tx now original w of
               None \<Rightarrow> None
             | Some (r, as, w) \<Rightarrow>
                 (case persist_set env req original as w of
                    (Inl e, w) \<Rightarrow> Some (case r of Inr _ \<Rightarrow> Inl e | Inl e' \<Rightarrow> Inl e', w)
                  | (Inr _, w) \<Rightarrow> Some (r, w)))"

section \<open>The status does not influence the children\<close>

definition steady_owner :: "child_env \<Rightarrow> AgentSet \<Rightarrow> OwnerReference \<Rightarrow> bool" where
"steady_owner env as ref \<longleftrightarrow> (\<forall>st. ch_owner env (as\<lparr>as_Status := st\<rparr>) = Inr ref)"

text \<open>\<open>SetControllerReference\<close> reads the metadata of the owner, never its status; it may fail.\<close>

definition status_free_owner :: "child_env \<Rightarrow> AgentSet \<Rightarrow> bool" where
"status_free_owner env as \<longleftrightarrow> (\<forall>st. ch_owner env (as\<lparr>as_Status := st\<rparr>) = ch_owner env as)"

lemma steady_iff: "status_free_owner env as \<Longrightarrow> ch_owner env as = Inr ref \<Longrightarrow> steady_owner env as ref"
  by (simp add: status_free_owner_def steady_owner_def)

definition same_set :: "AgentSet \<Rightarrow> AgentSet \<Rightarrow> bool" where
"same_set as as' \<longleftrightarrow> as_Meta as' = as_Meta as \<and> as_Spec as' = as_Spec as"

lemma same_set_upd [simp]: "same_set as (upd_set f as') = same_set as as'" "same_set as (set_conds g as') = same_set as as'" "same_set as as"
  by (simp_all add: same_set_def upd_set_def set_conds_def)

lemma upd_set_status [simp]:
  "as_Status (upd_set f as) = f (as_Status as)"
  "as_Status (set_conds g as) = (as_Status as)\<lparr>asst_Conditions := g (asst_Conditions (as_Status as))\<rparr>"
  by (simp_all add: upd_set_def set_conds_def)

lemma steady_ownerD:
  assumes "steady_owner env as ref" "same_set as as'"
  shows "ch_owner env as' = Inr ref"
proof -
  have "as' = as\<lparr>as_Status := as_Status as'\<rparr>"
    using assms(2) by (simp add: same_set_def)
  then show ?thesis
    using assms(1) unfolding steady_owner_def by metis
qed

lemma validate_agents_same: "same_set as as' \<Longrightarrow> validate_agents dns as' seen agents = validate_agents dns as seen agents"
  by (induction agents arbitrary: seen) (auto simp: same_set_def ChildAgentDeployName_def Let_def split: option.splits)

lemma ValidateAgentSet_same: "same_set as as' \<Longrightarrow> ValidateAgentSet dns url as' = ValidateAgentSet dns url as"
  using validate_agents_same [of as as'] by (simp add: ValidateAgentSet_def same_set_def Let_def)

lemma listOwned_same: "same_set as as' \<Longrightarrow> listOwnedAgentDeploys c as' w = listOwnedAgentDeploys c as w"
  by (simp add: listOwnedAgentDeploys_def same_set_def owned_deploy_def [abs_def])

lemma build_all_same:
  assumes "steady_owner env as ref" "same_set as as'"
  shows "build_all env as' agents out = build_all env as agents out"
proof -
  have "newAgentDeploy env as' agent = newAgentDeploy env as agent" for agent
    using steady_ownerD [OF assms] steady_ownerD [OF assms(1), of as] assms(2)
    by (simp add: newAgentDeploy_def same_set_def ChildAgentDeployName_def ComputeTopology_def)
  then show ?thesis
    by (induction agents arbitrary: out) (auto split: sum.splits)
qed

lemma buildDesired_same:
  assumes "steady_owner env as ref" "same_set as as'"
  shows "buildDesired env as' = buildDesired env as"
  using build_all_same [OF assms] assms(2) by (simp add: buildDesired_def same_set_def)

lemma buildDesired_total:
  assumes "steady_owner env as ref"
  obtains desired where "buildDesired env as = Inr desired"
proof -
  have "\<exists>ad. newAgentDeploy env as agent = Inr ad" for agent
    using steady_ownerD [OF assms, of as] by (simp add: newAgentDeploy_def Let_def)
  then have "\<exists>desired. build_all env as agents out = Inr desired" for agents out
    by (induction agents arbitrary: out) (auto split: sum.splits, metis sum.distinct(1))
  then show ?thesis
    using that unfolding buildDesired_def by blast
qed

lemma rendered_same:
  assumes "steady_owner (te_child env) as ref" "same_set as as'"
  shows "newEntryService (te_child env) as' = newEntryService (te_child env) as"
    "newDaemonService (te_child env) as' = newDaemonService (te_child env) as"
    "newDaemonDeployment env as' = newDaemonDeployment env as"
  using steady_ownerD [OF assms] steady_ownerD [OF assms(1), of as] assms(2)
  by (simp_all add: newEntryService_def newDaemonService_def newDaemonDeployment_def same_set_def EntryServiceName_def
      DaemonName_def daemonLabels_def newDaemonContainer_def EncodeAgentSet_def AgentSet_SimpleCopy_def cong: option.case_cong)

section \<open>Outcomes of a reconcile\<close>

lemma same_start [simp]: "same_set as (start_set env now as') = same_set as as'"
  by (simp add: start_set_def)

lemma deploy_set_outcome:
  assumes "deploy_set env tx now existing desired as w = Some (r, as', w')"
  shows "r = Inr () \<and> as' = finish_set env now desired existing as \<and>
      (\<exists>w2 w3. applyDesiredState (te_deploys env) (ch_ord (te_child env)) existing desired w = (Inr (), w2) \<and>
         reconcileEntryService env as w2 = (Inr (), w3) \<and> reconcileDaemon env as w3 = Some (Inr (), w')) \<or>
    (\<exists>e reason. r = Inl e \<and> as' = fail_set env now AgentSetConditionDeployed reason (tx_error tx e) as)"
  using assms unfolding deploy_set_def by (auto split: sum.splits prod.splits option.splits)

lemma reconcile_set_stages:
  assumes "reconcile_set env tx now as w = Some (r, as', w')" "ValidateAgentSet (te_dns env) (te_url env) as = None"
    and "listOwnedAgentDeploys (te_deploys env) as w = (Inr existing, w1)" "steady_owner (te_child env) as ref"
    and as1: "as1 = set_conds (MarkTrue (te_sort env) now AgentSetConditionConfigured) (start_set env now as)"
  shows "\<exists>desired. same_set as as1 \<and> buildDesired (te_child env) as = Inr desired \<and> deploy_set env tx now existing desired as1 w1 = Some (r, as', w')"
proof -
  obtain desired where desired: "buildDesired (te_child env) as = Inr desired"
    using buildDesired_total [OF assms(4)] .
  have same: "same_set as as1" "same_set as (start_set env now as)"
    by (simp_all add: as1)
  show ?thesis
    using assms(1-3) desired same
    by (simp add: reconcile_set_def Let_def as1 [symmetric] listOwned_same [OF same(1)] buildDesired_same [OF assms(4) same(1)]
        ValidateAgentSet_same [OF same(2)])
qed

lemma reconcile_set_invalid:
  assumes "reconcile_set env tx now as w = Some (r, as', w')" "ValidateAgentSet (te_dns env) (te_url env) as = Some e"
  shows "r = Inr () \<and> w' = w \<and> asst_Phase (as_Status as') = AgentSetPhaseFailed \<and> asst_Message (as_Status as') = tx_invalid tx e"
proof -
  have "ValidateAgentSet (te_dns env) (te_url env) (start_set env now as) = Some e"
    using assms(2) ValidateAgentSet_same [of as "start_set env now as"] by simp
  then show ?thesis
    using assms(1) by (auto simp: reconcile_set_def fail_set_def)
qed

lemma valid_has_agents: "ValidateAgentSet dns url as = None \<Longrightarrow> ass_Agents (as_Spec as) \<noteq> []"
  by (auto simp: ValidateAgentSet_def Let_def split: if_splits)

lemma reconcile_set_unlisted:
  assumes "reconcile_set env tx now as w = Some (r, as', w')" "ValidateAgentSet (te_dns env) (te_url env) as = None"
    and "listOwnedAgentDeploys (te_deploys env) as w = (Inl e, w1)"
  shows "r = Inl (ChildListFailed e) \<and> w' = w1 \<and> asst_Phase (as_Status as') = asst_Phase (as_Status as) \<and>
    asst_Message (as_Status as') = asst_Message (as_Status as)"
proof -
  define as1 where "as1 = set_conds (MarkTrue (te_sort env) now AgentSetConditionConfigured) (start_set env now as)"
  have same: "same_set as as1" "same_set as (start_set env now as)"
    by (simp_all add: as1_def)
  have "as' = as1 \<and> r = Inl (ChildListFailed e) \<and> w' = w1"
    using assms by (simp add: reconcile_set_def Let_def as1_def [symmetric] listOwned_same [OF same(1)] ValidateAgentSet_same [OF same(2)])
  then show ?thesis
    by (auto simp: as1_def start_set_def)
qed

lemma reconcile_set_unbuilt:
  assumes "reconcile_set env tx now as w = Some (r, as', w')" "ValidateAgentSet (te_dns env) (te_url env) as = None"
    and "listOwnedAgentDeploys (te_deploys env) as w = (Inr existing, w1)"
    and "status_free_owner (te_child env) as" "ch_owner (te_child env) as = Inl e"
  shows "r = Inr () \<and> w' = w1 \<and> asst_Phase (as_Status as') = AgentSetPhaseFailed \<and>
    asst_Message (as_Status as') = ''failed to set controller reference: '' @ e"
proof -
  define as1 where "as1 = set_conds (MarkTrue (te_sort env) now AgentSetConditionConfigured) (start_set env now as)"
  have same: "same_set as as1" "same_set as (start_set env now as)"
    by (simp_all add: as1_def)
  have "as1 = as\<lparr>as_Status := as_Status as1\<rparr>"
    using same(1) by (simp add: same_set_def)
  then have "ch_owner (te_child env) as1 = Inl e"
    using assms(4,5) unfolding status_free_owner_def by metis
  moreover have "ass_Agents (as_Spec as1) \<noteq> []"
    using valid_has_agents [OF assms(2)] same(1) by (simp add: same_set_def)
  ultimately have "buildDesired (te_child env) as1 = Inl (''failed to set controller reference: '' @ e)"
    by (cases "ass_Agents (as_Spec as1)") (simp_all add: buildDesired_def newAgentDeploy_def Let_def)
  then show ?thesis
    using assms(1-3)
    by (auto simp: reconcile_set_def Let_def as1_def [symmetric] listOwned_same [OF same(1)] ValidateAgentSet_same [OF same(2)] fail_set_def)
qed

section \<open>Health\<close>

definition child_phase :: "(string, AgentDeploy) fmap \<Rightarrow> string \<Rightarrow> AgentDeployPhase" where
"child_phase existing name = (case fmlookup existing name of None \<Rightarrow> AgentDeployPhaseUnknown | Some ad \<Rightarrow> adst_Phase (ad_Status ad))"

lemma failed_children_iff: "failed_children existing names \<noteq> [] \<longleftrightarrow> (\<exists>n \<in> set names. child_phase existing n = AgentDeployPhaseFailed)"
  by (auto simp: failed_children_def child_phase_def split: option.splits if_splits)

lemma starting_children_iff: "starting_children existing names \<noteq> [] \<longleftrightarrow> (\<exists>n \<in> set names. child_phase existing n = AgentDeployPhaseUnknown)"
proof -
  have "starting_children existing names \<noteq> [] \<longleftrightarrow> (\<exists>n \<in> set names.
      (case fmlookup existing n of None \<Rightarrow> True | Some ad \<Rightarrow> adst_Phase (ad_Status ad) = AgentDeployPhaseUnknown))"
    by (induction names) (auto simp: starting_children_def split: option.splits AgentDeployPhase.splits)
  moreover have "(case fmlookup existing n of None \<Rightarrow> True | Some ad \<Rightarrow> adst_Phase (ad_Status ad) = AgentDeployPhaseUnknown) \<longleftrightarrow>
      child_phase existing n = AgentDeployPhaseUnknown" for n
    by (simp add: child_phase_def split: option.splits)
  ultimately show ?thesis
    by simp
qed

lemma aggregate_phase:
  assumes "desired \<noteq> fmempty"
  shows "asst_Phase (aggregateChildHealth srt now desired existing st) =
    (if \<exists>n. n |\<in>| fmdom desired \<and> child_phase existing n = AgentDeployPhaseFailed then AgentSetPhaseFailed
     else if \<exists>n. n |\<in>| fmdom desired \<and> child_phase existing n = AgentDeployPhaseUnknown then AgentSetPhaseUnknown
     else AgentSetPhaseRunning)"
proof -
  have names: "set (sortedNames desired) = fset (fmdom desired)"
    by (simp add: sortedNames_def sorted_list_of_fset.rep_eq)
  show ?thesis
    using assms failed_children_iff [of existing "sortedNames desired"] starting_children_iff [of existing "sortedNames desired"]
    unfolding names by (auto simp: aggregateChildHealth_def Let_def)
qed

lemma aggregate_healthy:
  assumes "type_sort srt" "typed_once (asst_Conditions st)"
  shows "\<exists>c. GetCondition AgentSetConditionAgentsHealthy (asst_Conditions (aggregateChildHealth srt now desired existing st)) = Some c \<and>
    (cond_Status c = ConditionTrue \<longleftrightarrow> asst_Phase (aggregateChildHealth srt now desired existing st) = AgentSetPhaseRunning)"
  using GetCondition_setCondition [OF assms]
  by (auto simp: aggregateChildHealth_def Let_def MarkTrue_def MarkFalse_def MarkUnknown_def markTypeStatus_def)

section \<open>Servers of different kinds\<close>

text \<open>A client that leaves an observation of the world alone, such as the objects of another kind.\<close>

locale bystander =
  fixes cl :: "('k, 'o, 'w) kclient" and obs :: "'w \<Rightarrow> 'v"
  assumes quiet: "kget cl k w = (rg, w') \<Longrightarrow> obs w' = obs w" "kcreate cl k obj w = (rc, w') \<Longrightarrow> obs w' = obs w"
    "kdelete cl k w = (rd, w') \<Longrightarrow> obs w' = obs w"
begin

lemma upsert_quiet: "upsert_object cl ann kind key desired h w = (r, w') \<Longrightarrow> obs w' = obs w"
  unfolding upsert_object_def
  by (auto dest!: quiet simp: Let_def split: prod.splits sum.splits api_error.splits if_splits)

end

lemma bystander_on_part:
  assumes "\<And>v w. obs (put v w) = obs w"
  shows "bystander (on_part get put cl) obs"
  using assms by unfold_locales (auto simp: on_part_def split: prod.splits)

text \<open>A world with a store per kind of child.\<close>

record children_world =
  cw_deploys :: "(NamespacedName, AgentDeploy) mem"
  cw_deployments :: "(NamespacedName, Deployment) mem"
  cw_services :: "(NamespacedName, Service) mem"

definition deployments_client :: "(NamespacedName, Deployment, children_world) kclient" where
"deployments_client = on_part cw_deployments (\<lambda>v w. w\<lparr>cw_deployments := v\<rparr>) (mem_client (\<lambda>_. None))"

definition services_client :: "(NamespacedName, Service, children_world) kclient" where
"services_client = on_part cw_services (\<lambda>v w. w\<lparr>cw_services := v\<rparr>) (mem_client (\<lambda>_. None))"

interpretation deployments_quiet: bystander deployments_client "\<lambda>w. mem_stored (cw_services w)"
  unfolding deployments_client_def by (rule bystander_on_part) simp

interpretation services_quiet: bystander services_client "\<lambda>w. mem_stored (cw_deployments w)"
  unfolding services_client_def by (rule bystander_on_part) simp

lemma children_kube:
  "kube deployments_client (\<lambda>w. mem_stored (cw_deployments w)) removed"
  "kube services_client (\<lambda>w. mem_stored (cw_services w)) removed"
  unfolding deployments_client_def services_client_def by (rule kube_on_part [OF mem_removed], simp)+

lemma dep_hash_with_hash [simp]: "dep_hash (d\<lparr>dep_Meta := with_hash h (dep_Meta d)\<rparr>) = h"
  by (simp add: dep_hash_def with_hash_def)

lemma reconcileDaemonDeployment_stores:
  assumes "kube (te_deployments env) storedD removed" "reconcileDaemonDeployment env as w = Some (Inr (), w')"
  shows "\<exists>dep d. newDaemonDeployment env as = Some (Inr dep) \<and> storedD w' (dep_key dep) = Some d \<and> dep_hash d = te_dep_hash env (dep_Spec dep)"
proof -
  obtain dep where dep: "newDaemonDeployment env as = Some (Inr dep)"
    using assms(2) by (auto simp: reconcileDaemonDeployment_def split: option.splits sum.splits)
  let ?h = "te_dep_hash env (dep_Spec dep)"
  have "upsert_object (te_deployments env) dep_hash ''daemon Deployment'' (dep_key dep) (dep\<lparr>dep_Meta := with_hash ?h (dep_Meta dep)\<rparr>) ?h w = (Inr (), w')"
    using assms(2) dep by (auto simp: reconcileDaemonDeployment_def Let_def with_hash_def split: sum.splits prod.splits)
  from hashed_upsert.upsert_stores [OF hashed_upsert.intro [OF assms(1)] this]
  show ?thesis
    using dep by auto
qed

lemma reconcileDaemonDeployment_quiet:
  assumes "bystander (te_deployments env) obs" "reconcileDaemonDeployment env as w = Some (r, w')"
  shows "obs w' = obs w"
  using assms(2) bystander.upsert_quiet [OF assms(1)]
  by (auto simp: reconcileDaemonDeployment_def Let_def split: option.splits sum.splits prod.splits)

lemma reconcileEntryService_stores:
  assumes "kube (se_client (te_services env)) storedS removed" "reconcileEntryService env as w = (Inr (), w')"
  shows "\<exists>svc s. newEntryService (te_child env) as = Inr svc \<and> storedS w' (svc_key svc) = Some s \<and>
    svc_hash s = se_hash (te_services env) (svc_Spec svc)"
proof -
  obtain svc where "newEntryService (te_child env) as = Inr svc" "upsertService (te_services env) svc ''entry service'' w = (Inr (), w')"
    using assms(2) by (auto simp: reconcileEntryService_def split: sum.splits prod.splits)
  then show ?thesis
    using upsertService_result(2) [OF assms(1)] by blast
qed

lemma reconcileDaemonService_stores:
  assumes "kube (se_client (te_services env)) storedS removed" "reconcileDaemonService env as w = (Inr (), w')"
  shows "\<exists>svc s. newDaemonService (te_child env) as = Inr svc \<and> storedS w' (svc_key svc) = Some s \<and>
    svc_hash s = se_hash (te_services env) (svc_Spec svc) \<and> (\<forall>k. k \<noteq> svc_key svc \<longrightarrow> storedS w' k = storedS w k)"
proof -
  obtain svc where svc: "newDaemonService (te_child env) as = Inr svc"
    and up: "upsertService (te_services env) svc ''daemon Service'' w = (Inr (), w')"
    using assms(2) by (auto simp: reconcileDaemonService_def split: sum.splits prod.splits)
  obtain s where "storedS w' (svc_key svc) = Some s" "svc_hash s = se_hash (te_services env) (svc_Spec svc)"
    using upsertService_result(2) [OF assms(1) up] by auto
  with svc upsertService_result(1) [OF assms(1) up] show ?thesis
    by (intro exI [of _ svc] exI [of _ s]) simp
qed

lemma reconcileDaemonService_quiet:
  assumes "bystander (se_client (te_services env)) obs" "reconcileDaemonService env as w = (r, w')"
  shows "obs w' = obs w"
  using assms(2) bystander.upsert_quiet [OF assms(1)]
  by (auto simp: reconcileDaemonService_def upsertService_def Let_def split: sum.splits prod.splits)

lemma set_service_keys:
  assumes "newEntryService env as = Inr e" "newDaemonService env as = Inr d"
  shows "svc_key e \<noteq> svc_key d"
  using assms by (auto simp: newEntryService_def newDaemonService_def new_meta_def EntryServiceName_def DaemonName_def
      EntryServiceSuffix_def DaemonSuffix_def split: sum.splits)

section \<open>An example\<close>

definition demo_set_env :: "children_world set_env" where
"demo_set_env =
   \<lparr>te_get = (\<lambda>k w. (Inl NotFound, w)), te_patch = (\<lambda>k old new w. (Inr (), w)),
    te_deploys = on_part cw_deploys (\<lambda>v w. w\<lparr>cw_deploys := v\<rparr>) (mem_client (\<lambda>_. None)),
    te_deployments = deployments_client, te_dep_hash = dsp_Strategy,
    te_services = \<lparr>se_client = services_client, se_hash = ss_Type\<rparr>,
    te_child = demo_child_env, te_config = None, te_unmarshal = (\<lambda>_. None), te_marshal = (\<lambda>_. ''enc''),
    te_image = ''img'', te_imagePullPolicy = [], te_dns = dns1035_label, te_url = (\<lambda>u. u \<noteq> []), te_sort = sort_key cond_Type\<rparr>"

definition demo_texts :: texts where
"demo_texts = \<lparr>tx_invalid = (\<lambda>_. ''invalid''), tx_error = (\<lambda>_. ''error'')\<rparr>"

definition running_child :: "string \<Rightarrow> AgentDeploy" where
"running_child n = (demo_child ''set'' n)\<lparr>ad_Status := zero_status\<lparr>adst_Phase := AgentDeployPhaseRunning\<rparr>\<rparr>"

definition demo_children_world :: children_world where
"demo_children_world =
   \<lparr>cw_deploys = \<lparr>objects = map (\<lambda>ad. (ad_nn ad, ad)) [running_child ''a'', running_child ''b''], faults = []\<rparr>,
    cw_deployments = \<lparr>objects = [], faults = []\<rparr>, cw_services = \<lparr>objects = [], faults = []\<rparr>\<rparr>"

abbreviation demo_pair :: AgentSet where
"demo_pair \<equiv> sample_set Handoff [''a'', ''b'']"

lemma demo_pair_facts:
  "steady_owner (te_child demo_set_env) demo_pair (controller_ref ''AgentSet'' ''set'' ''u'')"
  "status_free_owner (te_child demo_set_env) demo_pair" "ch_owner (te_child demo_set_env) demo_pair = Inr (controller_ref ''AgentSet'' ''set'' ''u'')"
  "type_sort (te_sort demo_set_env)" "typed_once (asst_Conditions (as_Status demo_pair))"
  "ValidateAgentSet (te_dns demo_set_env) (te_url demo_set_env) demo_pair = None"
proof -
  show "ValidateAgentSet (te_dns demo_set_env) (te_url demo_set_env) demo_pair = None"
    by code_simp
qed (simp_all add: steady_owner_def status_free_owner_def demo_set_env_def demo_child_env_def sample_set_def new_meta_def stable_type.slice_sort_axioms typed_once_def)

lemma demo_reconcile:
  obtains as' w' where "reconcile_set demo_set_env demo_texts 7 demo_pair demo_children_world = Some (Inr (), as', w')"
    "asst_Phase (as_Status as') = AgentSetPhaseRunning"
proof -
  have "case reconcile_set demo_set_env demo_texts 7 demo_pair demo_children_world of
      Some (Inr _, as', w') \<Rightarrow> asst_Phase (as_Status as') = AgentSetPhaseRunning | _ \<Rightarrow> False"
    by code_simp
  then show ?thesis
    using that by (auto split: option.splits prod.splits sum.splits)
qed

text \<open>The same world with a server that refuses the first list.\<close>

definition unlisted_world :: children_world where
"unlisted_world = demo_children_world\<lparr>cw_deploys := (cw_deploys demo_children_world)\<lparr>faults := [Some Conflict]\<rparr>\<rparr>"

lemma demo_unlisted:
  obtains r as' w' w1 where "reconcile_set demo_set_env demo_texts 7 demo_pair unlisted_world = Some (r, as', w')"
    "listOwnedAgentDeploys (te_deploys demo_set_env) demo_pair unlisted_world = (Inl Conflict, w1)"
proof -
  have "case reconcile_set demo_set_env demo_texts 7 demo_pair unlisted_world of Some _ \<Rightarrow> True | None \<Rightarrow> False"
    by code_simp
  moreover have "case listOwnedAgentDeploys (te_deploys demo_set_env) demo_pair unlisted_world of (Inl Conflict, _) \<Rightarrow> True | _ \<Rightarrow> False"
    by code_simp
  ultimately show ?thesis
    using that by (auto split: option.splits prod.splits sum.splits api_error.splits)
qed

section \<open>Properties\<close>

lemma deploy_set_phase:
  assumes run: "deploy_set env tx now existing desired as1 w1 = Some (r, as', w')"
    and built: "buildDesired (te_child env) as = Inr desired" and agents: "ass_Agents (as_Spec as) \<noteq> []"
    and "type_sort (te_sort env)" "typed_once (asst_Conditions (as_Status as1))"
  shows "case r of
      Inl e \<Rightarrow> asst_Phase (as_Status as') = AgentSetPhaseFailed \<and> asst_Message (as_Status as') = tx_error tx e
    | Inr _ \<Rightarrow>
        let phases = (\<lambda>a. child_phase existing (ChildAgentDeployName as (aad_Name a))) ` set (ass_Agents (as_Spec as))
        in asst_Phase (as_Status as') =
             (if AgentDeployPhaseFailed \<in> phases then AgentSetPhaseFailed
              else if AgentDeployPhaseUnknown \<in> phases then AgentSetPhaseUnknown else AgentSetPhaseRunning) \<and>
           (\<exists>c. GetCondition AgentSetConditionAgentsHealthy (asst_Conditions (as_Status as')) = Some c \<and>
                (cond_Status c = ConditionTrue \<longleftrightarrow> asst_Phase (as_Status as') = AgentSetPhaseRunning))"
proof (cases r)
  case (Inl e)
  then show ?thesis
    using deploy_set_outcome [OF run] by (auto simp: fail_set_def)
next
  case (Inr u)
  let ?st = "as_Status (set_conds (MarkTrue (te_sort env) now AgentSetConditionDeployed) as1)"
  let ?agg = "aggregateChildHealth (te_sort env) now desired existing ?st"
  have as': "asst_Phase (as_Status as') = asst_Phase ?agg" "asst_Conditions (as_Status as') = asst_Conditions ?agg"
    using deploy_set_outcome [OF run] Inr by (auto simp: finish_set_def)
  have dom: "n |\<in>| fmdom desired \<longleftrightarrow> n \<in> (\<lambda>a. ChildAgentDeployName as (aad_Name a)) ` set (ass_Agents (as_Spec as))" for n
    by (auto simp: buildDesired_result(2) [OF built] fset_of_list.rep_eq)
  then have "desired \<noteq> fmempty"
    using agents by fastforce
  from aggregate_phase [OF this, of "te_sort env" now existing ?st] have phase: "asst_Phase ?agg =
    (let phases = (\<lambda>a. child_phase existing (ChildAgentDeployName as (aad_Name a))) ` set (ass_Agents (as_Spec as))
     in if AgentDeployPhaseFailed \<in> phases then AgentSetPhaseFailed
        else if AgentDeployPhaseUnknown \<in> phases then AgentSetPhaseUnknown else AgentSetPhaseRunning)"
    unfolding dom Let_def by (simp add: image_iff) metis
  have "typed_once (asst_Conditions ?st)"
    using assms(4,5) by (simp add: MarkTrue_def markTypeStatus_def setCondition_typed_once)
  from aggregate_healthy [OF assms(4) this, of now desired existing] phase show ?thesis
    by (simp add: Inr as' Let_def)
qed

text \<open>
  C12. The phase of an AgentSet reflects its spec, its children and the errors of the pass.  An invalid spec
  is reported as Failed with the validator's message and nothing is written.  When the children of a valid
  set cannot be listed, the error is returned and phase and message stay as they were.  When the owner
  reference of a child cannot be built, the set is reported as Failed with that error's text and the pass
  returns no error.
  Otherwise a failed stage is reported as Failed with its error's text, and after a successful pass the
  phase is Failed when a listed child of an agent has failed, Running, with the AgentsHealthy condition
  true, exactly when every agent has a child that runs, and empty in between.
\<close>

theorem set_phase_reflects_children:
  assumes "reconcile_set env tx now as w = Some (r, as', w')" "status_free_owner (te_child env) as"
    and "listOwnedAgentDeploys (te_deploys env) as w = (listed, w1)"
    and "type_sort (te_sort env)" "typed_once (asst_Conditions (as_Status as))"
  shows "case ValidateAgentSet (te_dns env) (te_url env) as of
      Some e \<Rightarrow> r = Inr () \<and> w' = w \<and> asst_Phase (as_Status as') = AgentSetPhaseFailed \<and> asst_Message (as_Status as') = tx_invalid tx e
    | None \<Rightarrow>
        (case listed of
           Inl e \<Rightarrow> r = Inl (ChildListFailed e) \<and> w' = w1 \<and> asst_Phase (as_Status as') = asst_Phase (as_Status as) \<and>
             asst_Message (as_Status as') = asst_Message (as_Status as)
         | Inr existing \<Rightarrow>
             (case ch_owner (te_child env) as of
                Inl e \<Rightarrow> r = Inr () \<and> w' = w1 \<and> asst_Phase (as_Status as') = AgentSetPhaseFailed \<and>
                  asst_Message (as_Status as') = ''failed to set controller reference: '' @ e
              | Inr _ \<Rightarrow>
                  (case r of
                     Inl e \<Rightarrow> asst_Phase (as_Status as') = AgentSetPhaseFailed \<and> asst_Message (as_Status as') = tx_error tx e
                   | Inr _ \<Rightarrow>
                       let phases = (\<lambda>a. child_phase existing (ChildAgentDeployName as (aad_Name a))) ` set (ass_Agents (as_Spec as))
                       in asst_Phase (as_Status as') =
                            (if AgentDeployPhaseFailed \<in> phases then AgentSetPhaseFailed
                             else if AgentDeployPhaseUnknown \<in> phases then AgentSetPhaseUnknown else AgentSetPhaseRunning) \<and>
                          (\<exists>c. GetCondition AgentSetConditionAgentsHealthy (asst_Conditions (as_Status as')) = Some c \<and>
                               (cond_Status c = ConditionTrue \<longleftrightarrow> asst_Phase (as_Status as') = AgentSetPhaseRunning)))))"
proof (cases "ValidateAgentSet (te_dns env) (te_url env) as")
  case (Some e)
  then show ?thesis
    using reconcile_set_invalid [OF assms(1)] by simp
next
  case None
  define as1 where "as1 = set_conds (MarkTrue (te_sort env) now AgentSetConditionConfigured) (start_set env now as)"
  have once: "typed_once (asst_Conditions (as_Status as1))"
    using assms(4,5) by (simp add: as1_def start_set_def MarkTrue_def markTypeStatus_def setCondition_typed_once InitializeConditions_typed_once)
  consider e where "listed = Inl e" | existing e where "listed = Inr existing" "ch_owner (te_child env) as = Inl e"
    | existing ref where "listed = Inr existing" "ch_owner (te_child env) as = Inr ref"
    by (metis sum.exhaust)
  then show ?thesis
  proof cases
    case 1
    then show ?thesis
      using None reconcile_set_unlisted [OF assms(1) None] assms(3) by simp
  next
    case 2
    then show ?thesis
      using None reconcile_set_unbuilt [OF assms(1) None _ assms(2)] assms(3) by simp
  next
    case (3 existing ref)
    obtain desired where built: "buildDesired (te_child env) as = Inr desired"
      and run: "deploy_set env tx now existing desired as1 w1 = Some (r, as', w')"
      using reconcile_set_stages [OF assms(1) None _ steady_iff [OF assms(2) 3(2)] as1_def] assms(3) 3(1) by blast
    from deploy_set_phase [OF run built valid_has_agents [OF None] assms(4) once] show ?thesis
      using None 3 by simp
  qed
qed

theorem set_phase_reflects_children_witness:
  "(\<exists>existing w1 as' w'. listOwnedAgentDeploys (te_deploys demo_set_env) demo_pair demo_children_world = (Inr existing, w1) \<and>
      reconcile_set demo_set_env demo_texts 7 demo_pair demo_children_world = Some (Inr (), as', w') \<and>
      child_phase existing ''set-a'' = AgentDeployPhaseRunning \<and> asst_Phase (as_Status as') = AgentSetPhaseRunning) \<and>
   (\<exists>as' w'. reconcile_set demo_set_env demo_texts 7 demo_pair unlisted_world = Some (Inl (ChildListFailed Conflict), as', w') \<and>
      asst_Phase (as_Status as') = asst_Phase (as_Status demo_pair))"
proof (rule conjI)
  note spec = set_phase_reflects_children [OF _ demo_pair_facts(2) _ demo_pair_facts(4,5)]
  obtain as' w' where run: "reconcile_set demo_set_env demo_texts 7 demo_pair demo_children_world = Some (Inr (), as', w')"
    and phase: "asst_Phase (as_Status as') = AgentSetPhaseRunning"
    by (rule demo_reconcile)
  have "case listOwnedAgentDeploys (te_deploys demo_set_env) demo_pair demo_children_world of (Inr _, _) \<Rightarrow> True | _ \<Rightarrow> False"
    by code_simp
  then obtain existing w1 where l: "listOwnedAgentDeploys (te_deploys demo_set_env) demo_pair demo_children_world = (Inr existing, w1)"
    by (auto split: prod.splits sum.splits)
  have agents: "set (ass_Agents (as_Spec demo_pair)) = {new_agent ''a'', new_agent ''b''}" "ChildAgentDeployName demo_pair (aad_Name (new_agent ''a'')) = ''set-a''"
    by (simp_all add: sample_set_def new_meta_def ChildAgentDeployName_def new_agent_def)
  from spec [OF run l] have "child_phase existing ''set-a'' \<notin> {AgentDeployPhaseFailed, AgentDeployPhaseUnknown}"
    using phase by (simp add: demo_pair_facts(3,6) agents Let_def split: if_splits) metis
  then have "child_phase existing ''set-a'' = AgentDeployPhaseRunning"
    by (cases "child_phase existing ''set-a''") simp_all
  with l run phase show "\<exists>existing w1 as' w'. listOwnedAgentDeploys (te_deploys demo_set_env) demo_pair demo_children_world = (Inr existing, w1) \<and>
      reconcile_set demo_set_env demo_texts 7 demo_pair demo_children_world = Some (Inr (), as', w') \<and>
      child_phase existing ''set-a'' = AgentDeployPhaseRunning \<and> asst_Phase (as_Status as') = AgentSetPhaseRunning"
    by (intro exI conjI)
  obtain r as2 w2 w3 where run2: "reconcile_set demo_set_env demo_texts 7 demo_pair unlisted_world = Some (r, as2, w2)"
    and l2: "listOwnedAgentDeploys (te_deploys demo_set_env) demo_pair unlisted_world = (Inl Conflict, w3)"
    by (rule demo_unlisted)
  from spec [OF run2 l2] run2 show "\<exists>as' w'. reconcile_set demo_set_env demo_texts 7 demo_pair unlisted_world =
      Some (Inl (ChildListFailed Conflict), as', w') \<and> asst_Phase (as_Status as') = asst_Phase (as_Status demo_pair)"
    by (simp add: demo_pair_facts(6))
qed

text \<open>
  C13. A successful reconcile leaves the entry Service, the daemon's Deployment and the daemon's Service of
  a valid AgentSet stored with the hash of the spec the set asks for; the three are reconciled one after
  the other and none undoes another.
\<close>

theorem set_infrastructure_converges:
  assumes "kube (se_client (te_services env)) storedS removed" "kube (te_deployments env) storedD removed"
    and "bystander (te_deployments env) storedS" "bystander (se_client (te_services env)) storedD"
    and "reconcile_set env tx now as w = Some (Inr (), as', w')" "steady_owner (te_child env) as ref"
    and "ValidateAgentSet (te_dns env) (te_url env) as = None"
  shows "(\<exists>svc s. newEntryService (te_child env) as = Inr svc \<and> storedS w' (svc_key svc) = Some s \<and>
            svc_hash s = se_hash (te_services env) (svc_Spec svc)) \<and>
    (\<exists>svc s. newDaemonService (te_child env) as = Inr svc \<and> storedS w' (svc_key svc) = Some s \<and>
            svc_hash s = se_hash (te_services env) (svc_Spec svc)) \<and>
    (\<exists>dep d. newDaemonDeployment env as = Some (Inr dep) \<and> storedD w' (dep_key dep) = Some d \<and>
            dep_hash d = te_dep_hash env (dep_Spec dep))"
proof -
  define as1 where "as1 = set_conds (MarkTrue (te_sort env) now AgentSetConditionConfigured) (start_set env now as)"
  have same: "same_set as as1"
    by (simp add: as1_def)
  have start: "same_set as (start_set env now as)"
    by simp
  have valid: "ValidateAgentSet (te_dns env) (te_url env) (start_set env now as) = None"
    using assms(7) by (simp add: ValidateAgentSet_same [OF start])
  obtain rl w1 where l: "listOwnedAgentDeploys (te_deploys env) as w = (rl, w1)"
    by (cases "listOwnedAgentDeploys (te_deploys env) as w")
  then obtain existing where "rl = Inr existing"
    using assms(5) valid by (cases rl) (simp_all add: reconcile_set_def Let_def as1_def [symmetric] listOwned_same [OF same])
  with l have "listOwnedAgentDeploys (te_deploys env) as w = (Inr existing, w1)"
    by simp
  from reconcile_set_stages [OF assms(5,7) this assms(6) as1_def]
  obtain desired where "deploy_set env tx now existing desired as1 w1 = Some (Inr (), as', w')"
    by blast
  from deploy_set_outcome [OF this] obtain w2 w3 where entry: "reconcileEntryService env as1 w2 = (Inr (), w3)"
    and "reconcileDaemon env as1 w3 = Some (Inr (), w')"
    by auto
  then obtain w4 where dep: "reconcileDaemonDeployment env as1 w3 = Some (Inr (), w4)" and svc: "reconcileDaemonService env as1 w4 = (Inr (), w')"
    by (auto simp: reconcileDaemon_def split: option.splits prod.splits sum.splits)
  note same = rendered_same [OF assms(6) same]
  obtain d ds where d: "newDaemonService (te_child env) as1 = Inr d" "storedS w' (svc_key d) = Some ds"
    "svc_hash ds = se_hash (te_services env) (svc_Spec d)" and frame: "\<And>k. k \<noteq> svc_key d \<Longrightarrow> storedS w' k = storedS w4 k"
    using reconcileDaemonService_stores [OF assms(1) svc] by blast
  obtain e es where e: "newEntryService (te_child env) as1 = Inr e" "storedS w3 (svc_key e) = Some es"
    "svc_hash es = se_hash (te_services env) (svc_Spec e)"
    using reconcileEntryService_stores [OF assms(1) entry] by blast
  have "storedS w' (svc_key e) = Some es"
    using frame [OF set_service_keys [OF e(1) d(1)]] reconcileDaemonDeployment_quiet [OF assms(3) dep] e(2) by simp
  moreover obtain p q where "newDaemonDeployment env as1 = Some (Inr p)" "storedD w' (dep_key p) = Some q" "dep_hash q = te_dep_hash env (dep_Spec p)"
    using reconcileDaemonDeployment_stores [OF assms(2) dep] reconcileDaemonService_quiet [OF assms(4) svc] by auto
  ultimately show ?thesis
    using d(1-3) e(1,3) unfolding same by (intro conjI exI)
qed

theorem set_infrastructure_converges_witness:
  "\<exists>as' w' dep d. reconcile_set demo_set_env demo_texts 7 demo_pair demo_children_world = Some (Inr (), as', w') \<and>
     newDaemonDeployment demo_set_env demo_pair = Some (Inr dep) \<and> mem_stored (cw_deployments w') (dep_key dep) = Some d \<and>
     dep_hash d = te_dep_hash demo_set_env (dep_Spec dep)"
proof (rule demo_reconcile)
  fix as' w'
  assume run: "reconcile_set demo_set_env demo_texts 7 demo_pair demo_children_world = Some (Inr (), as', w')"
  have clients: "se_client (te_services demo_set_env) = services_client" "te_deployments demo_set_env = deployments_client"
    by (simp_all add: demo_set_env_def)
  note conv = set_infrastructure_converges [where env = demo_set_env, unfolded clients, OF children_kube(2,1)
    deployments_quiet.bystander_axioms services_quiet.bystander_axioms run demo_pair_facts(1,6)]
  with run show ?thesis
    by blast
qed

end
