(* ===== verification/Spec2Isabelle.thy ===== *)
theory Spec2Isabelle
  imports Queue HistoryStore Decision Validator Conditions Rater DeployController SetController
begin

text \<open>
  A verification of kynomesh, a Kubernetes controller for meshes of agents (\<open>src/pkg\<close>).

  \<^bold>\<open>The program.\<close> A user writes an AgentSet.  The AgentSet controller validates it and keeps one AgentDeploy
  per agent.  The AgentDeploy controller keeps two Services and a window of pods per AgentDeploy and
  replaces the pods in batches when their spec changes.  Each pod runs the agent behind a broker.  A daemon
  per AgentSet scrapes the brokers, keeps samples per pod and answers queries for rates and for drift
  of agent cards.  The autoscaler records the daemon's answers as a history per AgentDeploy, estimates
  from it how much load a replica carries, and decides on a replica count.

  \<^bold>\<open>Conventions.\<close> Structs are records, errors are values of a sum or option type, a panic is \<open>None\<close>, and
  the clock is an argument.  Go's fixed-width integers are \<open>int\<close> with the conversions of \<open>Prelude\<close> written
  out where a value can leave its range; \<open>float64\<close> is the IEEE bit pattern with its operations
  (\<open>Float64\<close>).  Library code enters as arguments with laws stated in locales: the API server (\<open>kube\<close> and
  \<open>reliable_kube\<close>, interpreted on an in-memory server with scripted faults), \<open>sort.Slice\<close> (\<open>slice_sort\<close>),
  iteration over maps (\<open>map_order\<close>), hashes, JSON encoding, label and URL syntax.  Logs and events are left
  out.  The laws of \<open>kube\<close> let a read return what is stored; the managers' client reads from a cache that
  may lag behind, so the theorems on a pass speak of one whose cache is up to date.

  \<^bold>\<open>Theories.\<close>
  \<^item> \<open>Prelude\<close>: conversions, times, lists.  \<open>Decimal\<close>: decimal printing and parsing, inverse to each other.
  \<^item> \<open>Float64\<close>, \<open>Float64_Rounding\<close>, \<open>Float64_Bounds\<close>: binary64 arithmetic, its monotone rounding, and interval
    bounds for sums, products and quotients.
  \<^item> \<open>Queue\<close> (\<open>shared/queue\<close>): the overflow queue, a refinement of "the last n appended".
  \<^item> \<open>Samples\<close>, \<open>HistoryCodec\<close>, \<open>Kube\<close>, \<open>HistoryStore\<close> (\<open>scaling/history\<close>): sample hygiene, the buffer as a window
    over what was added, the wire format and its inverse, storing and loading through the API server,
    and two ways in which history gets lost.
  \<^item> \<open>Estimator\<close>, \<open>Decision\<close> (\<open>scaling/decision\<close>): the knee estimate is total with values in range; the
    decision stays in its envelope, moves one step toward the wanted count from inside the range and
    straight to the nearest bound from outside, and is monotone in the load below the rate limit.
  \<^item> \<open>ApiTypes\<close>, \<open>Templates\<close>, \<open>AgentTypes\<close>, \<open>Conditions\<close>, \<open>Validator\<close> (\<open>apis/kynomesh/v1alpha1\<close>,
    \<open>reconciler/validator\<close>): types, defaults, the topology, status conditions; the validator accepts exactly
    the well-formed sets, and in those every agent is reachable from the entry as the pattern demands.
  \<^item> \<open>PodRates\<close>, \<open>Rater\<close> (\<open>daemon/server/rater\<close>): rates across counter resets, averages, scrape ticks, the
    stability gate for peer cards, the values of a metrics query, and the drift report, which names live
    pods only as long as discovery finds hosts.
  \<^item> \<open>PodSpecs\<close>, \<open>Pods\<close>, \<open>PodEffects\<close>, \<open>Rollout\<close>, \<open>Services\<close>, \<open>DeployController\<close> (\<open>reconciler/agentdeploy\<close>): the
    rendered pod, in which a broker template may override the drain's grace period; one pass over the
    pods and its effect on the stored pods; a pass disrupts no more slots than its budget, a rollout completes, the Services converge, the status is truthful and the watch sets
    follow the object.
  \<^item> \<open>SetChildren\<close> (\<open>agentset/agentdeploys.go\<close>): the children of an AgentSet converge, objects of others are
    left alone, and an update of a child clears its replica count.  \<open>SetController\<close> (\<open>controller.go\<close>, \<open>daemon.go\<close>,
    \<open>entry_service.go\<close>): the set's phase reflects its spec, its children and the errors of the pass, and its
    entry Service and metrics daemon converge.

  \<^bold>\<open>Bounds.\<close> No definition uses fuel: the loops are structural recursion over lists, except the printing of
  decimals, whose argument shrinks, and the retried \<open>upsert\<close> of \<open>HistoryStore\<close>, whose termination proof uses
  that it retries once.  A rollout completes when the budgets of its passes, each at least one, add up to
  the replica count.  The estimator is bounded for up to \<open>2 ^ 20\<close> samples with readings up to \<open>2 ^ 30\<close>
  that are at most seven days old; the buffer's defaults keep 12000 records of seven days, and a
  buffer's record bound is a natural number, as the only callers leave it at its default.  The
  decision's theorems assume step sizes below \<open>2 ^ 31\<close>, and a further theorem shows what happens above.

  \<^bold>\<open>Not modelled.\<close> The loops of the autoscaler, sampler, drift watcher and work set, the rate limiter, the
  broker and the daemon as network servers, the webhook's HTTP and certificate handling, process start-up, and generated
  code.  Most of these are goroutines and I/O around the parts above.  Each method of a shared object is
  one step of the model, so the mutexes of the code appear as the atomicity of these steps.
\<close>

end
